(* ===== verification/Prelude.thy ===== *)
theory Prelude
  imports Main "HOL-Library.Word"
begin

text \<open>
  Shared vocabulary of the development: Go's byte strings, Go's
  \<^verbatim>\<open>(value, error)\<close> results, and the generic list lemmas that the component
  theories use.  A Go \<^verbatim>\<open>string\<close> and a Go \<^verbatim>\<open>[]byte\<close> are both sequences of
  bytes, and an Isabelle \<^typ>\<open>char\<close> is exactly one byte, so both become
  \<^typ>\<open>char list\<close> and the conversions \<^verbatim>\<open>string(b)\<close> and \<^verbatim>\<open>[]byte(s)\<close> are the
  identity.
\<close>

section \<open>Bytes and results\<close>

type_synonym bytes = "char list"

abbreviation byte_val :: "char \<Rightarrow> nat" where
  "byte_val c \<equiv> of_char c"

named_theorems go_bytes \<open>facts about Go's byte-string functions\<close>
named_theorems go_codec \<open>encoders and decoders: unfolding and round-trip facts\<close>
named_theorems go_inv \<open>preservation of well-formedness by the operations\<close>

text \<open>
  The errors the program itself creates or wraps.  Only the identity of the
  failing step is kept: the source's message texts are for the log.
\<close>

datatype go_error =
    ErrOddUtf16 nat
  | ErrEmptyPayload
  | ErrUnrecognised string
  | ErrEmptyValue
  | ErrNumber
  | ErrXml
  | ErrNoNfsArgs
  | ErrEmptyName
  | ErrBase64
  | ErrNoEvents string
  | ErrUnknownEncoding string
  | ErrBodyRead
  | ErrWrapped string go_error

section \<open>Lists\<close>

text \<open>\<open>starts_with\<close> is Go's \<^verbatim>\<open>strings.HasPrefix(s, p)\<close> with the arguments in
  the order prefix, string; \<open>drop (length p)\<close> is the slice after it.\<close>

fun starts_with :: "'a list \<Rightarrow> 'a list \<Rightarrow> bool" where
  "starts_with [] s = True"
| "starts_with (p # ps) [] = False"
| "starts_with (p # ps) (c # cs) = (p = c \<and> starts_with ps cs)"

lemma starts_with_iff: "starts_with p s \<longleftrightarrow> (\<exists>t. s = p @ t)"
  by (induction p s rule: starts_with.induct) auto

lemma starts_with_append [simp]: "starts_with p (p @ s)"
  by (simp add: starts_with_iff)

lemma starts_with_drop: "starts_with p s \<Longrightarrow> p @ drop (length p) s = s"
  by (auto simp: starts_with_iff)

lemma starts_with_length: "starts_with p s \<Longrightarrow> length p \<le> length s"
  by (auto simp: starts_with_iff)

lemma starts_with_set: "starts_with p s \<Longrightarrow> set p \<subseteq> set s"
  by (auto simp: starts_with_iff)

lemma starts_with_comparable:
  "starts_with p s \<Longrightarrow> starts_with q s \<Longrightarrow> starts_with p q \<or> starts_with q p"
  by (auto simp: starts_with_iff append_eq_append_conv2)

text \<open>\<open>index_of p s\<close> is \<^verbatim>\<open>bytes.Index(s, p)\<close>: the first occurrence, \<open>None\<close> for -1.\<close>

fun index_of :: "'a list \<Rightarrow> 'a list \<Rightarrow> nat option" where
  "index_of p [] = (if p = [] then Some 0 else None)"
| "index_of p (c # cs) =
     (if starts_with p (c # cs) then Some 0 else map_option Suc (index_of p cs))"

lemma index_of_Some:
  "index_of p s = Some i \<Longrightarrow> i + length p \<le> length s \<and> starts_with p (drop i s)"
  by (induction s arbitrary: i)
     (auto split: if_splits dest: starts_with_length)

lemma index_of_None: "index_of p s = None \<Longrightarrow> \<not> starts_with p (drop i s)"
proof (induction s arbitrary: i)
  case Nil
  then show ?case by (cases p) (auto split: if_splits)
next
  case (Cons c cs)
  then show ?case by (cases i) (auto split: if_splits)
qed

lemma find_SomeD: "find P xs = Some x \<Longrightarrow> P x \<and> x \<in> set xs"
  by (induction xs) (auto split: if_splits)

section \<open>Option and sum results\<close>

definition is_ok :: "'e + 'a \<Rightarrow> bool" where
  "is_ok r = (case r of Inl _ \<Rightarrow> False | Inr _ \<Rightarrow> True)"

lemma is_ok_simps [simp]: "is_ok (Inr x)" "\<not> is_ok (Inl e)"
  by (simp_all add: is_ok_def)

lemma is_ok_iff: "is_ok r \<longleftrightarrow> (\<exists>x. r = Inr x)"
  by (cases r) auto

section \<open>Bytes as numbers\<close>

lemma byte_val_less: "byte_val c < 256"
  by simp

lemma byte_val_char_of [simp]: "n < 256 \<Longrightarrow> byte_val (char_of n) = n"
  by simp

lemma char_of_byte_val_add:
  "k + m < 256 \<Longrightarrow> byte_val (char_of (k + m :: nat)) = k + m"
  by simp

section \<open>Interfaces of encoders\<close>

text \<open>
  \<open>codec\<close>: a decoder that inverts an encoder on the inputs \<open>ok\<close> admits.
  \<open>codec_chain\<close>: two of them, one applied to the output of the other.
  \<open>stream_codec\<close>: a self-delimiting frame format; reading one frame off a
  stream gives the payload and the rest, so the concatenation of frames is read
  back as the list of payloads.
\<close>

locale codec =
  fixes enc :: "'a \<Rightarrow> 'b"
    and dec :: "'b \<Rightarrow> 'e + 'a"
    and ok :: "'a \<Rightarrow> bool"
  assumes dec_enc: "ok x \<Longrightarrow> dec (enc x) = Inr x"
begin

lemma enc_inj: "ok x \<Longrightarrow> ok y \<Longrightarrow> enc x = enc y \<Longrightarrow> x = y"
  using dec_enc by (metis sum.inject(2))

lemma dec_ok: "ok x \<Longrightarrow> is_ok (dec (enc x))"
  by (simp add: dec_enc)

end

locale codec_chain =
  inner: codec enc1 dec1 ok1 + outer: codec enc2 dec2 ok2
  for enc1 :: "'a \<Rightarrow> 'b" and dec1 :: "'b \<Rightarrow> 'e + 'a" and ok1
    and enc2 :: "'b \<Rightarrow> 'c" and dec2 :: "'c \<Rightarrow> 'f + 'b" and ok2 +
  fixes lift :: "'f \<Rightarrow> 'e"
  assumes ok2_enc1: "ok1 x \<Longrightarrow> ok2 (enc1 x)"
begin

lemma chain_dec_enc:
  "ok1 x \<Longrightarrow> (case dec2 (enc2 (enc1 x)) of Inl f \<Rightarrow> Inl (lift f) | Inr y \<Rightarrow> dec1 y) = Inr x"
  by (simp add: outer.dec_enc [OF ok2_enc1] inner.dec_enc)

end

sublocale codec_chain \<subseteq> chain: codec
  "\<lambda>x. enc2 (enc1 x)"
  "\<lambda>z. case dec2 z of Inl f \<Rightarrow> Inl (lift f) | Inr y \<Rightarrow> dec1 y"
  ok1
  by unfold_locales (rule chain_dec_enc)

locale stream_codec =
  fixes frame :: "'p \<Rightarrow> bytes"
    and unframe :: "bytes \<Rightarrow> ('p \<times> bytes) option"
    and ok :: "'p \<Rightarrow> bool"
  assumes unframe_frame: "ok p \<Longrightarrow> unframe (frame p @ rest) = Some (p, rest)"
    and frame_not_Nil: "ok p \<Longrightarrow> frame p \<noteq> []"
begin

text \<open>The receiver's loop, with the number of frames to read as its bound.\<close>

primrec read_frames :: "nat \<Rightarrow> bytes \<Rightarrow> 'p list option" where
  "read_frames 0 s = (if s = [] then Some [] else None)"
| "read_frames (Suc n) s =
     (if s = [] then Some []
      else case unframe s of None \<Rightarrow> None
           | Some (p, rest) \<Rightarrow> map_option (Cons p) (read_frames n rest))"

lemma read_frames_concat:
  "\<forall>p \<in> set ps. ok p \<Longrightarrow> length ps \<le> n \<Longrightarrow>
   read_frames n (concat (map frame ps)) = Some ps"
proof (induction ps arbitrary: n)
  case Nil
  then show ?case by (cases n) simp_all
next
  case (Cons p ps)
  then obtain m where n: "n = Suc m" by (cases n) auto
  with Cons.prems have "read_frames m (concat (map frame ps)) = Some ps"
    by (intro Cons.IH) auto
  with Cons.prems n show ?case
    by (simp add: unframe_frame frame_not_Nil)
qed

lemma concat_frames_inj:
  assumes "\<forall>p \<in> set ps. ok p" "\<forall>p \<in> set qs. ok p"
    and "concat (map frame ps) = concat (map frame qs)"
  shows "ps = qs"
proof -
  let ?n = "max (length ps) (length qs)"
  have "Some ps = read_frames ?n (concat (map frame ps))"
    by (rule read_frames_concat [OF assms(1), symmetric]) simp
  also have "\<dots> = Some qs"
    unfolding assms(3) by (rule read_frames_concat [OF assms(2)]) simp
  finally show ?thesis by simp
qed

end

section \<open>Interfaces of step relations\<close>

text \<open>
  \<open>kept\<close>: what one step keeps, every run keeps.  \<open>invariant\<close>: it also holds at the start, so it
  holds in every reachable state.  \<open>stepwise_view\<close>: each step of a larger system is one step of
  the part one looks at, or leaves that part alone, so every run of the system is a run of
  the part.
\<close>

locale kept =
  fixes step :: "'s \<Rightarrow> 's \<Rightarrow> bool"
    and inv :: "'s \<Rightarrow> bool"
  assumes keeps: "step x y \<Longrightarrow> inv x \<Longrightarrow> inv y"
begin

lemma along: "step\<^sup>*\<^sup>* x y \<Longrightarrow> inv x \<Longrightarrow> inv y"
  by (induction rule: rtranclp_induct) (auto intro: keeps)

end

locale invariant = kept step inv
  for step :: "'s \<Rightarrow> 's \<Rightarrow> bool" and inv :: "'s \<Rightarrow> bool" +
  fixes start :: 's
  assumes starts: "inv start"
begin

lemma reached: "step\<^sup>*\<^sup>* start y \<Longrightarrow> inv y"
  using along starts by blast

end

locale stepwise_view =
  fixes step :: "'s \<Rightarrow> 's \<Rightarrow> bool"
    and part :: "'p \<Rightarrow> 'p \<Rightarrow> bool"
    and view :: "'s \<Rightarrow> 'p"
  assumes view_step: "step x y \<Longrightarrow> view y = view x \<or> part (view x) (view y)"
begin

lemma view_run: "step\<^sup>*\<^sup>* x y \<Longrightarrow> part\<^sup>*\<^sup>* (view x) (view y)"
proof (induction rule: rtranclp_induct)
  case (step y z)
  then show ?case using view_step [OF step.hyps(2)] by (metis rtranclp.rtrancl_into_rtrancl)
qed simp

end

end
