(* ===== verification/Go_Unicode.thy ===== *)
theory Go_Unicode
  imports Prelude
begin

text \<open>
  The parts of Go's \<^verbatim>\<open>unicode/utf8\<close> and \<^verbatim>\<open>unicode/utf16\<close> that the parser uses.
  A \<^verbatim>\<open>rune\<close> is a natural number (no negative rune occurs), a UTF-16 code unit
  is a \<^typ>\<open>16 word\<close>.  The tables of accepted second bytes are those of
  \<^verbatim>\<open>utf8.DecodeRune\<close>: overlong forms, surrogates and values above
  \<^verbatim>\<open>U+10FFFF\<close> decode to \<^verbatim>\<open>RuneError\<close> with width 1.
\<close>

section \<open>Runes\<close>

type_synonym rune = nat
type_synonym u16 = "16 word"

abbreviation rune_error :: rune where "rune_error \<equiv> 0xFFFD"

definition is_surrogate :: "rune \<Rightarrow> bool" where
  "is_surrogate r \<longleftrightarrow> 0xD800 \<le> r \<and> r < 0xE000"

definition is_scalar :: "rune \<Rightarrow> bool" where
  "is_scalar r \<longleftrightarrow> r < 0x110000 \<and> \<not> is_surrogate r"

lemma is_scalar_error [simp]: "is_scalar rune_error"
  by (simp add: is_scalar_def is_surrogate_def)

section \<open>UTF-8\<close>

text \<open>\<^verbatim>\<open>utf8.AppendRune(nil, r)\<close>: a rune that is no scalar value is written as
  \<^verbatim>\<open>U+FFFD\<close>.\<close>

definition append_rune :: "rune \<Rightarrow> bytes" where
  "append_rune r0 =
     (let r = (if is_scalar r0 then r0 else rune_error) in
      if r < 0x80 then [char_of r]
      else if r < 0x800 then [char_of (0xC0 + r div 64), char_of (0x80 + r mod 64)]
      else if r < 0x10000 then
        [char_of (0xE0 + r div 4096), char_of (0x80 + r div 64 mod 64), char_of (0x80 + r mod 64)]
      else
        [char_of (0xF0 + r div 262144), char_of (0x80 + r div 4096 mod 64),
         char_of (0x80 + r div 64 mod 64), char_of (0x80 + r mod 64)])"

text \<open>The accepted range of the second byte, by first byte (\<^verbatim>\<open>acceptRanges\<close>).\<close>

definition second_lo :: "nat \<Rightarrow> nat" where
  "second_lo b0 = (if b0 = 0xE0 then 0xA0 else if b0 = 0xF0 then 0x90 else 0x80)"

definition second_hi :: "nat \<Rightarrow> nat" where
  "second_hi b0 = (if b0 = 0xED then 0x9F else if b0 = 0xF4 then 0x8F else 0xBF)"

definition is_cont :: "nat \<Rightarrow> bool" where
  "is_cont b \<longleftrightarrow> 0x80 \<le> b \<and> b \<le> 0xBF"

definition seq_len :: "nat \<Rightarrow> nat" where
  "seq_len b0 =
     (if b0 < 0x80 then 1 else if b0 < 0xC2 then 0 else if b0 < 0xE0 then 2
      else if b0 < 0xF0 then 3 else if b0 < 0xF5 then 4 else 0)"

text \<open>\<^verbatim>\<open>utf8.DecodeRune\<close> on a non-empty slice: \<open>Some (r, n)\<close> for a well-formed
  sequence of width \<open>n\<close>, \<open>None\<close> for \<^verbatim>\<open>(RuneError, 1)\<close>.\<close>

fun valid_rune :: "bytes \<Rightarrow> (rune \<times> nat) option" where
  "valid_rune [] = None"
| "valid_rune (c0 # cs) =
     (let b0 = byte_val c0; n = seq_len b0; bs = map byte_val (take (n - 1) cs) in
      if n = 0 \<or> length bs < n - 1 then None
      else (case bs of
        [] \<Rightarrow> Some (b0, 1)
      | [b1] \<Rightarrow>
          if second_lo b0 \<le> b1 \<and> b1 \<le> second_hi b0
          then Some ((b0 - 0xC0) * 64 + (b1 - 0x80), 2) else None
      | [b1, b2] \<Rightarrow>
          if second_lo b0 \<le> b1 \<and> b1 \<le> second_hi b0 \<and> is_cont b2
          then Some ((b0 - 0xE0) * 4096 + (b1 - 0x80) * 64 + (b2 - 0x80), 3) else None
      | b1 # b2 # b3 # _ \<Rightarrow>
          if second_lo b0 \<le> b1 \<and> b1 \<le> second_hi b0 \<and> is_cont b2 \<and> is_cont b3
          then Some ((b0 - 0xF0) * 262144 + (b1 - 0x80) * 4096 + (b2 - 0x80) * 64 + (b3 - 0x80), 4)
          else None))"

definition decode_rune :: "bytes \<Rightarrow> rune \<times> nat" where
  "decode_rune s =
     (case valid_rune s of Some p \<Rightarrow> p | None \<Rightarrow> (rune_error, if s = [] then 0 else 1))"

lemma decode_rune_width: "s \<noteq> [] \<Longrightarrow> 0 < snd (decode_rune s)"
  by (cases s) (auto simp: decode_rune_def Let_def split: option.splits list.splits if_splits)

text \<open>The conversion \<^verbatim>\<open>[]rune(s)\<close>.\<close>

function runes_of :: "bytes \<Rightarrow> rune list" where
  "runes_of s =
     (if s = [] then []
      else fst (decode_rune s) # runes_of (drop (snd (decode_rune s)) s))"
  by pat_completeness auto
termination
proof (relation "measure length", goal_cases)
  case (2 s)
  then show ?case using decode_rune_width [of s] by (cases s) auto
qed simp

declare runes_of.simps [simp del]

lemma runes_of_Nil [simp]: "runes_of [] = []"
  by (simp add: runes_of.simps)

text \<open>\<^verbatim>\<open>utf8.Valid\<close>.\<close>

function valid_utf8 :: "bytes \<Rightarrow> bool" where
  "valid_utf8 s =
     (if s = [] then True
      else case valid_rune s of None \<Rightarrow> False
           | Some (r, n) \<Rightarrow> if n = 0 then False else valid_utf8 (drop n s))"
  by pat_completeness auto
termination by (relation "measure length") auto

declare valid_utf8.simps [simp del]

lemma valid_utf8_Nil [simp]: "valid_utf8 []"
  by (simp add: valid_utf8.simps)

text \<open>Encoding a scalar value and decoding it again.  A rune is split into its
  base-64 digits, the payloads of the continuation bytes.\<close>

lemma append_rune_not_Nil [simp]: "append_rune r \<noteq> []"
  by (simp add: append_rune_def Let_def)

lemma rune_digits:
  fixes r :: nat
  obtains d a b c where "r = ((d * 64 + a) * 64 + b) * 64 + c" "a < 64" "b < 64" "c < 64"
proof
  show "r = ((r div 64 div 64 div 64 * 64 + r div 64 div 64 mod 64) * 64 + r div 64 mod 64) * 64 + r mod 64"
    by (simp add: mult.commute)
qed simp_all

lemma digit_split:
  fixes a b c d :: nat
  assumes "a < 64" "b < 64" "c < 64"
  shows "(((d * 64 + a) * 64 + b) * 64 + c) mod 64 = c"
    and "(((d * 64 + a) * 64 + b) * 64 + c) div 64 = (d * 64 + a) * 64 + b"
    and "(((d * 64 + a) * 64 + b) * 64 + c) div 4096 = d * 64 + a"
    and "(((d * 64 + a) * 64 + b) * 64 + c) div 262144 = d"
    and "((d * 64 + a) * 64 + b) mod 64 = b"
    and "(d * 64 + a) mod 64 = a"
proof -
  let ?r = "((d * 64 + a) * 64 + b) * 64 + c"
  show "?r mod 64 = c" "((d * 64 + a) * 64 + b) mod 64 = b" "(d * 64 + a) mod 64 = a"
    using assms by (simp_all only: mod_mult_self3 mod_less)
  show 1: "?r div 64 = (d * 64 + a) * 64 + b" using assms by simp
  have "?r div 4096 = ?r div 64 div 64" by (simp add: div_mult2_eq [symmetric])
  then show 2: "?r div 4096 = d * 64 + a" using assms 1 by simp
  have "?r div 262144 = ?r div 4096 div 64" by (simp add: div_mult2_eq [symmetric])
  then show "?r div 262144 = d" using assms 2 by simp
qed

lemma valid_rune_append_rune:
  assumes "is_scalar r"
  shows "valid_rune (append_rune r @ s) = Some (r, length (append_rune r))"
proof -
  obtain d a b c where r: "r = ((d * 64 + a) * 64 + b) * 64 + c" and lt: "a < 64" "b < 64" "c < 64"
    by (rule rune_digits)
  note sp = digit_split [OF lt, of d, folded r]
  consider "r < 0x80" | "0x80 \<le> r" "r < 0x800" | "0x800 \<le> r" "r < 0x10000"
    | "0x10000 \<le> r" "r < 0x110000"
    using assms by (fastforce simp: is_scalar_def)
  then show ?thesis
  proof cases
    case 1
    then show ?thesis using assms by (simp add: append_rune_def Let_def seq_len_def)
  next
    case 2
    then have z: "d = 0" "a = 0" using r by simp_all
    then have zb: "2 \<le> b" "b < 32" using 2 r lt by simp_all
    have "append_rune r = [char_of (0xC0 + b), char_of (0x80 + c)]"
      using 2 assms sp z by (simp add: append_rune_def Let_def)
    moreover have "r = b * 64 + c" using r z by simp
    ultimately show ?thesis using zb lt by (simp add: seq_len_def second_lo_def second_hi_def)
  next
    case 3
    then have z0: "d = 0" using r by simp
    then have z: "d = 0" "a < 16" "a = 0 \<longrightarrow> 32 \<le> b" using 3 r lt by auto
    have sur: "a = 13 \<longrightarrow> b < 32" using assms 3 r z lt by (auto simp: is_scalar_def is_surrogate_def)
    have "append_rune r = [char_of (0xE0 + a), char_of (0x80 + b), char_of (0x80 + c)]"
      using 3 assms sp z by (simp add: append_rune_def Let_def)
    moreover have "r = a * 4096 + b * 64 + c" using r z by simp
    ultimately show ?thesis using z lt sur
      by (auto simp: Let_def seq_len_def is_cont_def second_lo_def second_hi_def)
  next
    case 4
    then have z: "d < 5" "d = 0 \<longrightarrow> 16 \<le> a" "d = 4 \<longrightarrow> a < 16" using r lt by auto
    have "append_rune r = [char_of (0xF0 + d), char_of (0x80 + a), char_of (0x80 + b), char_of (0x80 + c)]"
      using 4 assms sp z by (simp add: append_rune_def Let_def)
    moreover have "r = d * 262144 + a * 4096 + b * 64 + c" using r z by simp
    ultimately show ?thesis using z lt
      by (auto simp: Let_def seq_len_def is_cont_def second_lo_def second_hi_def)
  qed
qed

text \<open>Conversely a well-formed sequence is the encoding of the scalar value it denotes.\<close>

lemma char_of_add_byte_val [simp]:
  "k \<le> byte_val c \<Longrightarrow> char_of (k + (byte_val c - k)) = c"
  by simp

lemma valid_rune_Some:
  assumes "valid_rune s = Some (r, n)"
  shows "is_scalar r \<and> 0 < n \<and> n \<le> length s \<and> append_rune r = take n s"
proof -
  obtain c0 cs where s: "s = c0 # cs" using assms by (cases s) auto
  let ?b0 = "byte_val c0"
  consider (1) "seq_len ?b0 = 1" | (2) "seq_len ?b0 = 2" | (3) "seq_len ?b0 = 3" | (4) "seq_len ?b0 = 4"
    using assms s by (auto simp: seq_len_def Let_def split: if_splits)
  then show ?thesis
  proof cases
    case 1
    then show ?thesis using assms s
      by (auto simp: seq_len_def Let_def is_scalar_def is_surrogate_def append_rune_def split: if_splits)
  next
    case 2
    then obtain c1 cs' where cs: "cs = c1 # cs'" using assms s by (cases cs) (auto simp: Let_def)
    define b where "b = ?b0 - 0xC0"
    define c where "c = byte_val c1 - 0x80"
    have B: "?b0 = 0xC0 + b" "2 \<le> b" "b < 32" using 2 by (auto simp: b_def seq_len_def split: if_splits)
    have C: "byte_val c1 = 0x80 + c" "c < 64" "r = b * 64 + c" "n = 2" using assms s cs 2 B
      by (auto simp: Let_def c_def second_lo_def second_hi_def split: if_splits)
    have "is_scalar r" using B C by (simp add: is_scalar_def is_surrogate_def)
    moreover have "char_of (0xC0 + b) = c0" "char_of (0x80 + c) = c1"
      using B(1) C(1) by (metis char_of_char)+
    ultimately show ?thesis using B C s cs by (simp add: append_rune_def Let_def)
  next
    case 3
    then obtain c1 c2 cs' where cs: "cs = c1 # c2 # cs'" using assms s
      by (cases cs; cases "tl cs") (auto simp: Let_def)
    define a where "a = ?b0 - 0xE0"
    define b where "b = byte_val c1 - 0x80"
    define c where "c = byte_val c2 - 0x80"
    have A: "?b0 = 0xE0 + a" "a < 16" using 3 by (auto simp: a_def seq_len_def split: if_splits)
    have C: "byte_val c1 = 0x80 + b" "b < 64" "byte_val c2 = 0x80 + c" "c < 64"
      "r = a * 4096 + b * 64 + c" "n = 3" "a = 0 \<longrightarrow> 32 \<le> b" "a = 13 \<longrightarrow> b < 32"
      using assms s cs 3 A
      by (auto simp: Let_def b_def c_def second_lo_def second_hi_def is_cont_def split: if_splits)
    have r: "r = ((0 * 64 + a) * 64 + b) * 64 + c" using C by simp
    have lo: "0x800 \<le> r" using C by (cases "a = 0") auto
    have "\<not> is_surrogate r"
    proof
      assume "is_surrogate r"
      then have "0xD800 \<le> r" "r < 0xE000" by (simp_all add: is_surrogate_def)
      moreover from this have "a = 13" using C(2,4,5) by simp
      ultimately show False using C(2,4,5,8) by simp
    qed
    then have sc: "is_scalar r" using A C by (simp add: is_scalar_def)
    have ch: "char_of (0xE0 + a) = c0" "char_of (0x80 + b) = c1" "char_of (0x80 + c) = c2"
      using A(1) C(1,3) by (metis char_of_char)+
    note sp = digit_split [of a b c 0, folded r]
    have "append_rune r = [c0, c1, c2]" using sp A C(2,4) lo sc ch r
      by (simp add: append_rune_def Let_def)
    then show ?thesis using sc s cs C by simp
  next
    case 4
    then obtain c1 c2 c3 cs' where cs: "cs = c1 # c2 # c3 # cs'" using assms s
      by (cases cs; cases "tl cs"; cases "tl (tl cs)") (auto simp: Let_def)
    define d where "d = ?b0 - 0xF0"
    define a where "a = byte_val c1 - 0x80"
    define b where "b = byte_val c2 - 0x80"
    define c where "c = byte_val c3 - 0x80"
    have A: "?b0 = 0xF0 + d" "d < 5" using 4 by (auto simp: d_def seq_len_def split: if_splits)
    have C: "byte_val c1 = 0x80 + a" "a < 64" "byte_val c2 = 0x80 + b" "b < 64"
      "byte_val c3 = 0x80 + c" "c < 64"
      "r = d * 262144 + a * 4096 + b * 64 + c" "n = 4" "d = 0 \<longrightarrow> 16 \<le> a" "d = 4 \<longrightarrow> a < 16"
      using assms s cs 4 A
      by (auto simp: Let_def a_def b_def c_def second_lo_def second_hi_def is_cont_def split: if_splits)
    have r: "r = ((d * 64 + a) * 64 + b) * 64 + c" using C by simp
    have lo: "0x10000 \<le> r" using C by (cases "d = 0") auto
    have sc: "is_scalar r" using A C lo by (auto simp: is_scalar_def is_surrogate_def)
    have ch: "char_of (0xF0 + d) = c0" "char_of (0x80 + a) = c1" "char_of (0x80 + b) = c2" "char_of (0x80 + c) = c3"
      using A(1) C(1,3,5) by (metis char_of_char)+
    note sp = digit_split [of a b c d, folded r]
    have "append_rune r = [c0, c1, c2, c3]" using sp A C(2,4,6) lo sc ch
      by (simp add: append_rune_def Let_def)
    then show ?thesis using sc s cs C by simp
  qed
qed

definition utf8_encode :: "rune list \<Rightarrow> bytes" where
  "utf8_encode rs = concat (map append_rune rs)"

lemma utf8_encode_simps [simp]:
  "utf8_encode [] = []" "utf8_encode (r # rs) = append_rune r @ utf8_encode rs"
  "utf8_encode (rs @ rs') = utf8_encode rs @ utf8_encode rs'"
  by (simp_all add: utf8_encode_def)

lemma decode_rune_scalar: "is_scalar (fst (decode_rune s))"
  by (auto simp: decode_rune_def split: option.split dest: valid_rune_Some)

lemma decode_rune_append_rune [simp]:
  "is_scalar r \<Longrightarrow> decode_rune (append_rune r @ s) = (r, length (append_rune r))"
  by (simp add: decode_rune_def valid_rune_append_rune)

lemma runes_of_append_rune [simp]:
  "is_scalar r \<Longrightarrow> runes_of (append_rune r @ s) = r # runes_of s"
  by (subst runes_of.simps) simp

lemma runes_of_scalar: "r \<in> set (runes_of s) \<Longrightarrow> is_scalar r"
proof (induction s rule: runes_of.induct)
  case (1 s)
  then show ?case
    by (cases "s = []") (auto simp: runes_of.simps [of s] decode_rune_scalar)
qed

lemma runes_of_utf8_encode: "\<forall>r \<in> set rs. is_scalar r \<Longrightarrow> runes_of (utf8_encode rs) = rs"
  by (induction rs) auto

lemma valid_utf8_append_rune:
  assumes "is_scalar r"
  shows "valid_utf8 (append_rune r @ s) = valid_utf8 s"
  by (subst valid_utf8.simps) (simp add: valid_rune_append_rune [OF assms])

lemma append_rune_error: "\<not> is_scalar r \<Longrightarrow> append_rune r = append_rune rune_error"
  by (simp add: append_rune_def Let_def)

lemma valid_utf8_append_any [simp]: "valid_utf8 (append_rune r @ s) = valid_utf8 s"
  by (cases "is_scalar r") (simp_all add: valid_utf8_append_rune append_rune_error)

lemma valid_utf8_encode_append [simp]: "valid_utf8 (utf8_encode rs @ s) = valid_utf8 s"
  by (induction rs) simp_all

lemma valid_utf8_utf8_encode [simp]: "valid_utf8 (utf8_encode rs)"
  using valid_utf8_encode_append [of rs "[]"] by simp

lemma valid_utf8_encode_runes: "valid_utf8 s \<Longrightarrow> utf8_encode (runes_of s) = s"
proof (induction s rule: valid_utf8.induct)
  case (1 s)
  show ?case
  proof (cases "s = []")
    case False
    with "1.prems" obtain r n where v: "valid_rune s = Some (r, n)" "n \<noteq> 0" "valid_utf8 (drop n s)"
      by (auto simp: valid_utf8.simps [of s] split: option.splits if_splits)
    then have "utf8_encode (runes_of (drop n s)) = drop n s"
      using "1.IH" False by blast
    with v False valid_rune_Some [OF v(1)] show ?thesis
      by (simp add: runes_of.simps [of s] decode_rune_def)
  qed simp
qed

lemma valid_utf8_iff: "valid_utf8 s \<longleftrightarrow> (\<exists>rs. s = utf8_encode rs)"
  using valid_utf8_encode_runes by (metis valid_utf8_utf8_encode)

lemma valid_utf8_append: "valid_utf8 s \<Longrightarrow> valid_utf8 (s @ t) = valid_utf8 t"
  by (auto simp: valid_utf8_iff [of s])

lemma append_rune_ascii: "r < 0x80 \<Longrightarrow> append_rune r = [char_of r]"
  by (simp add: append_rune_def is_scalar_def is_surrogate_def)

lemma runes_of_ascii [simp]:
  "byte_val c < 0x80 \<Longrightarrow> runes_of (c # s) = byte_val c # runes_of s"
  by (subst runes_of.simps) (simp add: decode_rune_def seq_len_def)

lemma valid_utf8_ascii [simp]: "byte_val c < 0x80 \<Longrightarrow> valid_utf8 (c # s) = valid_utf8 s"
  by (subst valid_utf8.simps) (simp add: seq_len_def)

lemma valid_utf8_all_ascii: "\<forall>c \<in> set s. byte_val c < 0x80 \<Longrightarrow> valid_utf8 s"
  by (induction s) auto

lemma append_rune_high:
  assumes "0x80 \<le> r" "c \<in> set (append_rune r)"
  shows "0x80 \<le> byte_val c"
proof -
  define q where "q = (if is_scalar r then r else rune_error)"
  have q: "0x80 \<le> q" "q < 0x110000"
    using assms(1) by (auto simp: q_def is_scalar_def)
  have "append_rune r = (let r = q in
      if r < 0x80 then [char_of r]
      else if r < 0x800 then [char_of (0xC0 + r div 64), char_of (0x80 + r mod 64)]
      else if r < 0x10000 then
        [char_of (0xE0 + r div 4096), char_of (0x80 + r div 64 mod 64), char_of (0x80 + r mod 64)]
      else
        [char_of (0xF0 + r div 262144), char_of (0x80 + r div 4096 mod 64),
         char_of (0x80 + r div 64 mod 64), char_of (0x80 + r mod 64)])"
    unfolding append_rune_def q_def by (simp add: Let_def)
  moreover have m: "0x80 \<le> byte_val (char_of (0x80 + x mod 64 :: nat))" for x :: nat
  proof -
    have "x mod 64 < 64" by simp
    then show ?thesis by (subst byte_val_char_of) linarith+
  qed
  moreover have lead: "0x80 \<le> byte_val (char_of (k + x :: nat))" if "0x80 \<le> k" "x < b" "k + b \<le> 256" for k x b
    using that by (subst byte_val_char_of) linarith+
  have "q < 0x800 \<Longrightarrow> 0x80 \<le> byte_val (char_of (0xC0 + q div 64))"
    by (rule lead [of _ _ 32]) (simp_all add: less_mult_imp_div_less)
  moreover have "q < 0x10000 \<Longrightarrow> 0x80 \<le> byte_val (char_of (0xE0 + q div 4096))"
    by (rule lead [of _ _ 16]) (simp_all add: less_mult_imp_div_less)
  moreover have "0x80 \<le> byte_val (char_of (0xF0 + q div 262144))"
    using q(2) by (intro lead [of _ _ 5]) (simp_all add: less_mult_imp_div_less)
  ultimately show ?thesis using assms(2) q(1) by (auto simp: Let_def split: if_splits)
qed

section \<open>UTF-16\<close>

text \<open>\<^verbatim>\<open>utf16.Decode\<close>: a surrogate pair is one rune, an unpaired surrogate is
  \<^verbatim>\<open>U+FFFD\<close>.  \<^verbatim>\<open>utf16.Encode\<close>: a rune that is no scalar value is \<^verbatim>\<open>U+FFFD\<close>.\<close>

definition is_high :: "u16 \<Rightarrow> bool" where
  "is_high u \<longleftrightarrow> 0xD800 \<le> unat u \<and> unat u < 0xDC00"

definition is_low :: "u16 \<Rightarrow> bool" where
  "is_low u \<longleftrightarrow> 0xDC00 \<le> unat u \<and> unat u < 0xE000"

fun utf16_decode :: "u16 list \<Rightarrow> rune list" where
  "utf16_decode [] = []"
| "utf16_decode [u] = [if is_high u \<or> is_low u then rune_error else unat u]"
| "utf16_decode (u # v # us) =
     (if is_high u \<and> is_low v
      then ((unat u - 0xD800) * 1024 + (unat v - 0xDC00) + 0x10000) # utf16_decode us
      else (if is_high u \<or> is_low u then rune_error else unat u) # utf16_decode (v # us))"

definition utf16_encode_rune :: "rune \<Rightarrow> u16 list" where
  "utf16_encode_rune r0 =
     (let r = (if is_scalar r0 then r0 else rune_error) in
      if r < 0x10000 then [of_nat r]
      else [of_nat (0xD800 + (r - 0x10000) div 1024), of_nat (0xDC00 + (r - 0x10000) mod 1024)])"

definition utf16_encode :: "rune list \<Rightarrow> u16 list" where
  "utf16_encode rs = concat (map utf16_encode_rune rs)"

lemma utf16_decode_non_surrogate:
  "\<not> is_high u \<Longrightarrow> \<not> is_low u \<Longrightarrow> utf16_decode (u # us) = unat u # utf16_decode us"
  by (cases us) auto

lemma utf16_decode_encode_rune:
  assumes "is_scalar r"
  shows "utf16_decode (utf16_encode_rune r @ us) = r # utf16_decode us"
proof (cases "r < 0x10000")
  case True
  then have u: "unat (of_nat r :: u16) = r" by (simp add: unat_of_nat)
  then have "\<not> is_high (of_nat r)" "\<not> is_low (of_nat r)"
    using assms by (auto simp: is_high_def is_low_def is_scalar_def is_surrogate_def)
  then show ?thesis using True assms u
    by (simp add: utf16_encode_rune_def utf16_decode_non_surrogate)
next
  case False
  define q where "q = r - 0x10000"
  have q: "q < 0x100000" "r = q + 0x10000" using False assms by (auto simp: q_def is_scalar_def)
  have d: "q div 1024 < 1024" using q by (simp add: div_less_iff_less_mult)
  have h: "unat (of_nat (0xD800 + q div 1024) :: u16) = 0xD800 + q div 1024"
    using d by (subst unat_of_nat) simp
  have l: "unat (of_nat (0xDC00 + q mod 1024) :: u16) = 0xDC00 + q mod 1024"
    using mod_less_divisor [of 1024 q] by (subst unat_of_nat) simp
  have "utf16_encode_rune r = [of_nat (0xD800 + q div 1024), of_nat (0xDC00 + q mod 1024)]"
    using False assms by (simp add: utf16_encode_rune_def q_def del: of_nat_add)
  moreover have "is_high (of_nat (0xD800 + q div 1024))" unfolding is_high_def h using d by simp
  moreover have "is_low (of_nat (0xDC00 + q mod 1024))" unfolding is_low_def l by simp
  ultimately show ?thesis using h l q by (simp del: of_nat_add)
qed

lemma utf16_decode_encode: "\<forall>r \<in> set rs. is_scalar r \<Longrightarrow> utf16_decode (utf16_encode rs) = rs"
  by (induction rs) (simp_all add: utf16_encode_def utf16_decode_encode_rune)

end
