(* ===== verification/Utf16.thy ===== *)
theory Utf16
  imports Go_Unicode
begin

text \<open>
  \<^verbatim>\<open>pkg/parser/utf16.go\<close>: the transcoding that every payload goes through.
  Dell CEE sends UTF-16LE without a byte-order mark, OneFS sends UTF-8; the
  first two bytes decide.
\<close>

unbundle bit_operations_syntax

section \<open>The source\<close>

text \<open>One code unit: \<^verbatim>\<open>uint16(b[i])|uint16(b[i+1])<<8\<close> or
  \<^verbatim>\<open>uint16(b[i])<<8|uint16(b[i+1])\<close>.\<close>

definition code_unit :: "bool \<Rightarrow> char \<Rightarrow> char \<Rightarrow> u16" where
  "code_unit littleEndian b0 b1 =
     (if littleEndian then of_nat (byte_val b0) OR push_bit 8 (of_nat (byte_val b1))
      else push_bit 8 (of_nat (byte_val b0)) OR of_nat (byte_val b1))"

fun code_units :: "bool \<Rightarrow> bytes \<Rightarrow> u16 list" where
  "code_units le (b0 # b1 # bs) = code_unit le b0 b1 # code_units le bs"
| "code_units le _ = []"

definition decodeUTF16Pairs :: "bytes \<Rightarrow> bool \<Rightarrow> go_error + bytes" where
  "decodeUTF16Pairs b littleEndian =
     (if length b mod 2 \<noteq> 0 then Inl (ErrOddUtf16 (length b))
      else Inr (utf8_encode (utf16_decode (code_units littleEndian b))))"

definition DecodeBody :: "bytes \<Rightarrow> go_error + bytes" where
  "DecodeBody body =
     (case body of
        b0 # b1 # rest \<Rightarrow>
          if byte_val b0 = 0xFF \<and> byte_val b1 = 0xFE then decodeUTF16Pairs rest True
          else if byte_val b0 = 0xFE \<and> byte_val b1 = 0xFF then decodeUTF16Pairs rest False
          else if byte_val b0 \<noteq> 0 \<and> byte_val b1 = 0 then decodeUTF16Pairs body True
          else if byte_val b0 = 0 \<and> byte_val b1 \<noteq> 0 then decodeUTF16Pairs body False
          else Inr body
      | _ \<Rightarrow> Inr body)"

definition IsUTF16 :: "bytes \<Rightarrow> bool" where
  "IsUTF16 body =
     (case body of
        b0 # b1 # _ \<Rightarrow>
          byte_val b0 = 0xFF \<and> byte_val b1 = 0xFE \<or>
          byte_val b0 = 0xFE \<and> byte_val b1 = 0xFF \<or>
          byte_val b0 \<noteq> 0 \<and> byte_val b1 = 0 \<or>
          byte_val b0 = 0 \<and> byte_val b1 \<noteq> 0
      | _ \<Rightarrow> False)"

text \<open>\<^verbatim>\<open>byte(u), byte(u>>8)\<close> for each code unit of \<^verbatim>\<open>[]rune(string(b))\<close>.\<close>

definition le_bytes :: "u16 \<Rightarrow> bytes" where
  "le_bytes u = [char_of (unat u), char_of (unat (drop_bit 8 u))]"

definition EncodeUTF16LE :: "bytes \<Rightarrow> bytes" where
  "EncodeUTF16LE b = concat (map le_bytes (utf16_encode (runes_of b)))"

section \<open>Code units and bytes\<close>

lemma byte_bit_less: "bit (of_nat (byte_val b) :: u16) n \<Longrightarrow> n < 8"
proof -
  assume a: "bit (of_nat (byte_val b) :: u16) n"
  have "byte_val b = take_bit 8 (byte_val b)" by (simp add: take_bit_eq_mod)
  with a show "n < 8" by (metis bit_take_bit_iff of_nat_take_bit bit_of_nat_iff)
qed

lemma byte_or_shifted:
  "of_nat (byte_val b0) OR push_bit 8 (of_nat (byte_val b1)) =
   (of_nat (byte_val b0 + 256 * byte_val b1) :: u16)"
proof -
  have "of_nat (byte_val b0) AND push_bit 8 (of_nat (byte_val b1) :: u16) = 0"
    by (rule bit_eqI) (auto simp: bit_and_iff bit_push_bit_iff dest: byte_bit_less)
  then have "of_nat (byte_val b0) OR push_bit 8 (of_nat (byte_val b1)) =
      of_nat (byte_val b0) + push_bit 8 (of_nat (byte_val b1) :: u16)"
    using word_plus_and_or [of "of_nat (byte_val b0)" "push_bit 8 (of_nat (byte_val b1) :: u16)"]
    by simp
  then show ?thesis by (simp add: push_bit_eq_mult)
qed

lemma unat_code_unit:
  "unat (code_unit le b0 b1) =
   (if le then byte_val b0 + 256 * byte_val b1 else byte_val b1 + 256 * byte_val b0)"
proof -
  have "code_unit le b0 b1 =
      of_nat (if le then byte_val b0 + 256 * byte_val b1 else byte_val b1 + 256 * byte_val b0)"
    using byte_or_shifted [of b0 b1] byte_or_shifted [of b1 b0]
    by (simp add: code_unit_def or.commute)
  moreover have "byte_val b0 + 256 * byte_val b1 < 65536" "byte_val b1 + 256 * byte_val b0 < 65536"
    using byte_val_less [of b0] byte_val_less [of b1] by linarith+
  ultimately show ?thesis by (simp only: unat_of_nat) simp
qed

lemma unat_u16_less: "unat (u :: u16) < 65536"
proof -
  have "unat u < 2 ^ LENGTH(16)" by (rule unsigned_less)
  then show ?thesis by simp
qed

lemma unat_high_byte: "unat (drop_bit 8 (u :: u16)) = unat u div 256"
  by (simp only: unat_drop_bit_eq) (simp add: drop_bit_eq_div)

lemma byte_val_high_byte: "byte_val (char_of (unat (drop_bit 8 (u :: u16)))) = unat u div 256"
  using unat_u16_less [of u] by (simp add: unat_high_byte)

lemma code_unit_le_bytes:
  "code_unit True (char_of (unat u)) (char_of (unat (drop_bit 8 u))) = u"
proof -
  have "unat (code_unit True (char_of (unat u)) (char_of (unat (drop_bit 8 u)))) = unat u"
    unfolding unat_code_unit byte_val_high_byte by simp
  then show ?thesis by (simp only: word_unat_eq_iff)
qed

lemma code_unit_swap: "code_unit False b1 b0 = code_unit True b0 b1"
  by (simp add: code_unit_def or.commute)

section \<open>Decoding inverts encoding\<close>

lemma code_units_le_bytes: "code_units True (concat (map le_bytes us)) = us"
  by (induction us) (simp_all add: le_bytes_def code_unit_le_bytes)

lemma length_le_bytes: "length (concat (map le_bytes us)) = 2 * length us"
  by (induction us) (simp_all add: le_bytes_def)

lemma decodeUTF16Pairs_le_bytes:
  "decodeUTF16Pairs (concat (map le_bytes us)) True = Inr (utf8_encode (utf16_decode us))"
  by (simp add: decodeUTF16Pairs_def length_le_bytes code_units_le_bytes)

text \<open>The byte-swapped form of a UTF-16LE text.\<close>

fun swap_pairs :: "bytes \<Rightarrow> bytes" where
  "swap_pairs (b0 # b1 # bs) = b1 # b0 # swap_pairs bs"
| "swap_pairs bs = bs"

lemma length_swap_pairs [simp]: "length (swap_pairs bs) = length bs"
  by (induction bs rule: swap_pairs.induct) simp_all

lemma decodeUTF16Pairs_swap:
  "decodeUTF16Pairs (swap_pairs bs) False = decodeUTF16Pairs bs True"
proof -
  have "code_units False (swap_pairs bs) = code_units True bs"
    by (induction bs rule: swap_pairs.induct) (simp_all add: code_unit_swap)
  then show ?thesis by (simp add: decodeUTF16Pairs_def)
qed

lemma decode_encode_any:
  "decodeUTF16Pairs (EncodeUTF16LE s) True = Inr (utf8_encode (runes_of s))"
  unfolding EncodeUTF16LE_def decodeUTF16Pairs_le_bytes
  by (simp add: utf16_decode_encode runes_of_scalar)

text \<open>The first bytes of an encoded text are those of its first rune.\<close>

lemma EncodeUTF16LE_first:
  assumes "runes_of s = r # rs" "0 < r" "r < 256"
  shows "\<exists>rest. EncodeUTF16LE s = char_of r # char_of (0 :: nat) # rest"
proof -
  have u: "unat (of_nat r :: u16) = r" using assms by (simp add: unat_of_nat)
  have sc: "is_scalar r" using assms by (simp add: is_scalar_def is_surrogate_def)
  have "unat (drop_bit 8 (of_nat r :: u16)) = 0" using assms by (simp only: unat_high_byte u div_less)
  then have "le_bytes (of_nat r) = [char_of r, char_of (0 :: nat)]"
    using u by (simp only: le_bytes_def)
  then show ?thesis using assms sc
    by (simp add: EncodeUTF16LE_def utf16_encode_def utf16_encode_rune_def)
qed

lemma DecodeBody_le:
  assumes "valid_utf8 s" "runes_of s = r # rs" "0 < r" "r < 256"
  shows "DecodeBody (EncodeUTF16LE s) = Inr s" and "IsUTF16 (EncodeUTF16LE s)"
proof -
  obtain rest where e: "EncodeUTF16LE s = char_of r # char_of (0 :: nat) # rest"
    using EncodeUTF16LE_first [OF assms(2-4)] by blast
  have "DecodeBody (EncodeUTF16LE s) = decodeUTF16Pairs (EncodeUTF16LE s) True"
    using assms(3,4) by (simp add: e DecodeBody_def)
  then show "DecodeBody (EncodeUTF16LE s) = Inr s"
    by (simp add: decode_encode_any valid_utf8_encode_runes assms(1))
  show "IsUTF16 (EncodeUTF16LE s)" using assms(3,4) by (simp add: e IsUTF16_def)
qed

definition latin_start :: "bytes \<Rightarrow> bool" where
  "latin_start s \<longleftrightarrow> valid_utf8 s \<and> (case runes_of s of [] \<Rightarrow> False | r # _ \<Rightarrow> 0 < r \<and> r < 256)"

interpretation utf16le: codec EncodeUTF16LE DecodeBody latin_start
  by unfold_locales (auto simp: latin_start_def intro: DecodeBody_le split: list.splits)

lemma latin_start_ascii:
  "0 < byte_val c \<Longrightarrow> byte_val c < 0x80 \<Longrightarrow> valid_utf8 s \<Longrightarrow> latin_start (c # s)"
  by (simp add: latin_start_def)

section \<open>Detection\<close>

lemma DecodeBody_not_utf16: "\<not> IsUTF16 body \<Longrightarrow> DecodeBody body = Inr body"
  by (auto simp: DecodeBody_def IsUTF16_def split: list.splits)

lemma decodeUTF16Pairs_cases:
  "decodeUTF16Pairs b le = (if odd (length b) then Inl (ErrOddUtf16 (length b))
     else Inr (utf8_encode (utf16_decode (code_units le b))))"
  by (simp add: decodeUTF16Pairs_def odd_iff_mod_2_eq_one)

lemma DecodeBody_utf16:
  assumes "IsUTF16 body"
  shows "if odd (length body) then \<exists>n. DecodeBody body = Inl (ErrOddUtf16 n)
         else \<exists>d. DecodeBody body = Inr d \<and> valid_utf8 d"
  using assms
  by (auto simp: DecodeBody_def IsUTF16_def decodeUTF16Pairs_cases split: list.splits if_splits)

lemma DecodeBody_xml_fixed:
  assumes "byte_val c \<noteq> 0"
  shows "DecodeBody (CHR ''<'' # c # s) = Inr (CHR ''<'' # c # s)"
    and "\<not> IsUTF16 (CHR ''<'' # c # s)"
  using assms by (simp_all add: DecodeBody_def IsUTF16_def)

section \<open>Properties\<close>

text \<open>C39: A valid UTF-8 text whose first character is in Latin-1 and not NUL
  (every CEPA document starts with an opening angle bracket) is recovered exactly from each of the
  four UTF-16 forms \<open>DecodeBody\<close> recognises: little-endian without a byte-order mark
  (what Dell CEE sends and what \<open>EncodeUTF16LE\<close> produces for the replies),
  little-endian with one, big-endian without and with one.\<close>

theorem DecodeBody_roundtrip:
  assumes "latin_start s"
  shows "DecodeBody (EncodeUTF16LE s) = Inr s \<and>
    DecodeBody (char_of (0xFF :: nat) # char_of (0xFE :: nat) # EncodeUTF16LE s) = Inr s \<and>
    DecodeBody (swap_pairs (EncodeUTF16LE s)) = Inr s \<and>
    DecodeBody (char_of (0xFE :: nat) # char_of (0xFF :: nat) # swap_pairs (EncodeUTF16LE s)) = Inr s"
proof (intro conjI)
  obtain r rs where r: "valid_utf8 s" "runes_of s = r # rs" "0 < r" "r < 256"
    using assms by (auto simp: latin_start_def split: list.splits)
  have d: "decodeUTF16Pairs (EncodeUTF16LE s) True = Inr s"
    by (simp add: decode_encode_any valid_utf8_encode_runes r(1))
  obtain rest where e: "EncodeUTF16LE s = char_of r # char_of (0 :: nat) # rest"
    using EncodeUTF16LE_first [OF r(2-4)] by blast
  show "DecodeBody (EncodeUTF16LE s) = Inr s" by (rule utf16le.dec_enc [OF assms])
  show "DecodeBody (char_of (0xFF :: nat) # char_of (0xFE :: nat) # EncodeUTF16LE s) = Inr s"
    using d by (simp add: DecodeBody_def)
  have "DecodeBody (swap_pairs (EncodeUTF16LE s)) = decodeUTF16Pairs (swap_pairs (EncodeUTF16LE s)) False"
    using r(3,4) by (simp add: e DecodeBody_def)
  then show "DecodeBody (swap_pairs (EncodeUTF16LE s)) = Inr s"
    by (simp only: decodeUTF16Pairs_swap d)
  show "DecodeBody (char_of (0xFE :: nat) # char_of (0xFF :: nat) # swap_pairs (EncodeUTF16LE s)) = Inr s"
    using d by (simp add: DecodeBody_def decodeUTF16Pairs_swap)
qed

theorem DecodeBody_roundtrip_witness:
  "latin_start ''<RegisterRequest />'' \<and>
   length (EncodeUTF16LE ''<RegisterRequest />'') = 38 \<and>
   DecodeBody (EncodeUTF16LE ''<RegisterRequest />'') = Inr ''<RegisterRequest />''"
proof -
  have l: "latin_start ''<RegisterRequest />''"
    by (rule latin_start_ascii) (auto intro!: valid_utf8_all_ascii)
  have "length (EncodeUTF16LE ''<RegisterRequest />'') = 38"
    by (simp add: EncodeUTF16LE_def utf16_encode_def utf16_encode_rune_def le_bytes_def
        is_scalar_def is_surrogate_def)
  with l DecodeBody_roundtrip [OF l] show ?thesis by simp
qed

text \<open>Detection and transcoding agree.  A body that \<open>IsUTF16\<close> rejects is returned
  untouched; one it accepts is either rejected, exactly when it is not a whole number of
  code units, or transcoded to well-formed UTF-8, whatever surrogates it contains.\<close>

theorem DecodeBody_agrees_with_IsUTF16:
  "if \<not> IsUTF16 body then DecodeBody body = Inr body
   else if odd (length body) then \<exists>n. DecodeBody body = Inl (ErrOddUtf16 n)
   else \<exists>d. DecodeBody body = Inr d \<and> valid_utf8 d"
  using DecodeBody_not_utf16 DecodeBody_utf16 by simp

end
