(* ===== verification/Go_Strings.thy ===== *)
theory Go_Strings
  imports Go_Unicode
begin

text \<open>
  The parts of Go's \<^verbatim>\<open>bytes\<close> and \<^verbatim>\<open>strings\<close> packages that the program
  uses: \<^verbatim>\<open>TrimSpace\<close>, \<^verbatim>\<open>Split\<close> on a one-byte separator, \<^verbatim>\<open>ToLower\<close> where its
  result is compared with ASCII constants, and \<^verbatim>\<open>ToValidUTF8(s, "")\<close>.
\<close>

section \<open>Trimming white space\<close>

text \<open>The UTF-8 encodings of the runes \<^verbatim>\<open>unicode.IsSpace\<close> accepts.  A rune at the
  front (back) of a byte string is white space exactly when one of these is a
  prefix (suffix) of it: \<^verbatim>\<open>DecodeRune\<close> and \<^verbatim>\<open>DecodeLastRune\<close> return
  \<^verbatim>\<open>RuneError\<close>, which is no space, for anything that is not well formed.\<close>

definition space_runes :: "rune list" where
  "space_runes = [9, 10, 11, 12, 13, 32, 0x85, 0xA0, 0x1680, 0x2000, 0x2001, 0x2002,
     0x2003, 0x2004, 0x2005, 0x2006, 0x2007, 0x2008, 0x2009, 0x200A, 0x2028, 0x2029,
     0x202F, 0x205F, 0x3000]"

definition space_seqs :: "bytes list" where
  "space_seqs = map append_rune space_runes"

function trim_front :: "bytes list \<Rightarrow> bytes \<Rightarrow> bytes" where
  "trim_front ps s =
     (case find (\<lambda>p. p \<noteq> [] \<and> starts_with p s) ps of
        None \<Rightarrow> s | Some p \<Rightarrow> trim_front ps (drop (length p) s))"
  by pat_completeness auto
termination
proof (relation "measure (\<lambda>(ps, s). length s)", goal_cases)
  case (2 ps s p)
  then have "p \<noteq> []" "starts_with p s" by (auto simp: find_Some_iff)
  then show ?case by (cases p; cases s) auto
qed simp

declare trim_front.simps [simp del]

definition TrimSpace :: "bytes \<Rightarrow> bytes" where
  "TrimSpace s = rev (trim_front (map rev space_seqs) (rev (trim_front space_seqs s)))"

lemma space_seqs_eq: "space_seqs =
    [[CHR 0x09],
     [CHR 0x0A],
     [CHR 0x0B],
     [CHR 0x0C],
     [CHR 0x0D],
     [CHR 0x20],
     [CHR 0xC2, CHR 0x85],
     [CHR 0xC2, CHR 0xA0],
     [CHR 0xE1, CHR 0x9A, CHR 0x80],
     [CHR 0xE2, CHR 0x80, CHR 0x80],
     [CHR 0xE2, CHR 0x80, CHR 0x81],
     [CHR 0xE2, CHR 0x80, CHR 0x82],
     [CHR 0xE2, CHR 0x80, CHR 0x83],
     [CHR 0xE2, CHR 0x80, CHR 0x84],
     [CHR 0xE2, CHR 0x80, CHR 0x85],
     [CHR 0xE2, CHR 0x80, CHR 0x86],
     [CHR 0xE2, CHR 0x80, CHR 0x87],
     [CHR 0xE2, CHR 0x80, CHR 0x88],
     [CHR 0xE2, CHR 0x80, CHR 0x89],
     [CHR 0xE2, CHR 0x80, CHR 0x8A],
     [CHR 0xE2, CHR 0x80, CHR 0xA8],
     [CHR 0xE2, CHR 0x80, CHR 0xA9],
     [CHR 0xE2, CHR 0x80, CHR 0xAF],
     [CHR 0xE2, CHR 0x81, CHR 0x9F],
     [CHR 0xE3, CHR 0x80, CHR 0x80]]"
  by (simp add: space_seqs_def space_runes_def append_rune_def is_scalar_def is_surrogate_def
      char_of_def bit_numeral_rec bit_simps)

definition ascii_nonspace :: "char \<Rightarrow> bool" where
  "ascii_nonspace c \<longleftrightarrow> byte_val c < 0x80 \<and> byte_val c \<notin> {9, 10, 11, 12, 13, 32}"

lemma trim_front_suffix: "\<exists>t. s = t @ trim_front ps s"
proof (induction ps s rule: trim_front.induct)
  case (1 ps s)
  show ?case
  proof (cases "find (\<lambda>p. p \<noteq> [] \<and> starts_with p s) ps")
    case None
    then show ?thesis by (simp add: trim_front.simps [of ps s])
  next
    case (Some p)
    then have p: "starts_with p s" by (auto simp: find_Some_iff)
    obtain t where "drop (length p) s = t @ trim_front ps (drop (length p) s)"
      using "1.IH" [OF Some] by blast
    then have "s = (p @ t) @ trim_front ps (drop (length p) s)"
      using starts_with_drop [OF p] by simp
    moreover have "trim_front ps s = trim_front ps (drop (length p) s)"
      using Some by (simp add: trim_front.simps [of ps s])
    ultimately show ?thesis by metis
  qed
qed

lemma trim_front_Nil [simp]: "trim_front ps [] = []"
  using trim_front_suffix [of "[]" ps] by simp

lemma trim_front_id:
  "\<forall>p \<in> set ps. p \<noteq> [] \<longrightarrow> \<not> starts_with p s \<Longrightarrow> trim_front ps s = s"
  by (subst trim_front.simps) (auto split: option.split simp: find_Some_iff)

lemma trim_front_step:
  assumes "find (\<lambda>p. p \<noteq> [] \<and> starts_with p (q @ s)) ps = Some q"
  shows "trim_front ps (q @ s) = trim_front ps s"
  by (subst trim_front.simps) (simp add: assms)

lemma TrimSpace_factor: "\<exists>t u. s = t @ TrimSpace s @ u"
proof -
  obtain t where t: "s = t @ trim_front space_seqs s" using trim_front_suffix by blast
  let ?m = "trim_front space_seqs s"
  obtain u where "rev ?m = u @ trim_front (map rev space_seqs) (rev ?m)"
    using trim_front_suffix by blast
  then have "?m = TrimSpace s @ rev u"
    unfolding TrimSpace_def by (metis rev_append rev_rev_ident)
  with t have "s = t @ TrimSpace s @ rev u" by simp
  then show ?thesis by blast
qed

lemma set_TrimSpace: "set (TrimSpace s) \<subseteq> set s"
  using TrimSpace_factor [of s] by (metis set_append Un_subset_iff subset_refl)

lemma TrimSpace_Nil [simp]: "TrimSpace [] = []"
  by (simp add: TrimSpace_def)

lemma space_seqs_front:
  assumes "p \<in> set space_seqs" "ascii_nonspace c"
  shows "\<not> starts_with p (c # s)"
  using assms
  by (auto simp: space_seqs_def space_runes_def append_rune_def is_scalar_def is_surrogate_def
      ascii_nonspace_def)

lemma space_seqs_back:
  assumes "p \<in> set (map rev space_seqs)" "ascii_nonspace c"
  shows "\<not> starts_with p (c # s)"
  using assms
  by (auto simp: space_seqs_def space_runes_def append_rune_def is_scalar_def is_surrogate_def
      ascii_nonspace_def)

lemma trim_front_nonspace [simp]:
  "ascii_nonspace c \<Longrightarrow> trim_front space_seqs (c # s) = c # s"
  by (rule trim_front_id) (use space_seqs_front in blast)

lemma trim_back_nonspace [simp]:
  "ascii_nonspace c \<Longrightarrow> trim_front (map rev space_seqs) (c # s) = c # s"
  by (rule trim_front_id) (use space_seqs_back in blast)

lemma TrimSpace_id:
  assumes "ascii_nonspace (hd s)" "ascii_nonspace (last s)" "s \<noteq> []"
  shows "TrimSpace s = s"
proof -
  have f: "trim_front space_seqs s = s" using assms by (cases s) auto
  have "trim_front (map rev space_seqs) (rev s) = rev s"
    using assms by (cases s rule: rev_cases) auto
  then show ?thesis by (simp add: TrimSpace_def f)
qed

lemma TrimSpace_Cons:
  assumes "ascii_nonspace c"
  shows "\<exists>t. TrimSpace (c # s) = c # t"
proof -
  let ?m = "rev (c # s)"
  obtain u where u: "?m = u @ trim_front (map rev space_seqs) ?m" using trim_front_suffix by blast
  have "trim_front (map rev space_seqs) ?m \<noteq> []"
  proof -
    have "\<exists>v. trim_front (map rev space_seqs) (xs @ [c]) = v @ [c]" for xs
    proof (induction "map rev space_seqs" "xs @ [c]" arbitrary: xs rule: trim_front.induct)
      case (1 xs)
      show ?case
      proof (cases "find (\<lambda>p. p \<noteq> [] \<and> starts_with p (xs @ [c])) (map rev space_seqs)")
        case None
        then show ?thesis by (subst trim_front.simps) simp
      next
        case (Some p)
        have p: "p \<noteq> []" "starts_with p (xs @ [c])" "p \<in> set (map rev space_seqs)"
          using find_SomeD [OF Some] by blast+
        have "c \<notin> set p" using p(3) assms
          by (auto simp: space_seqs_def space_runes_def append_rune_def is_scalar_def
              is_surrogate_def ascii_nonspace_def)
        then have "length p \<le> length xs"
          using p(2) by (auto simp: starts_with_iff append_eq_append_conv2 Cons_eq_append_conv)
        then have "drop (length p) (xs @ [c]) = drop (length p) xs @ [c]" by simp
        with "1.hyps" [OF Some] Some show ?thesis by (subst trim_front.simps) simp
      qed
    qed
    from this [of "rev s"] show ?thesis by auto
  qed
  then have "TrimSpace (c # s) \<noteq> []" using assms by (simp add: TrimSpace_def)
  moreover obtain t u where "c # s = t @ TrimSpace (c # s) @ u" "t = []"
  proof -
    have "c # s = TrimSpace (c # s) @ rev u"
      using u assms unfolding TrimSpace_def by (metis rev_append rev_rev_ident trim_front_nonspace)
    then show thesis using that [of "[]"] by simp
  qed
  ultimately show ?thesis by (cases "TrimSpace (c # s)") auto
qed

end
