(* ===== verification/Classify.thy ===== *)
theory Classify
  imports Utf16 Go_Strings
begin

text \<open>
  \<^verbatim>\<open>pkg/parser/classify.go\<close> and the root-element predicates of
  \<^verbatim>\<open>parser.go\<close> and \<^verbatim>\<open>checkevent.go\<close>: which of the dialects on the CEPA URL
  a payload belongs to.
\<close>

section \<open>The source\<close>

datatype Dialect =
    DialectUnknown
  | DialectRegisterRequest
  | DialectHeartBeatRequest
  | DialectCheckFileRequest
  | DialectCheckEventRequest

text \<open>The optional \<^verbatim>\<open><?xml ...?>\<close> declaration is skipped once.\<close>

definition skip_declaration :: "bytes \<Rightarrow> bytes" where
  "skip_declaration trimmed =
     (if starts_with ''<?xml'' trimmed
      then case index_of ''?>'' trimmed of
             Some idx \<Rightarrow> TrimSpace (drop (idx + 2) trimmed)
           | None \<Rightarrow> trimmed
      else trimmed)"

definition rootIs :: "bytes \<Rightarrow> string \<Rightarrow> bool" where
  "rootIs decoded name =
     (let trimmed = skip_declaration (TrimSpace decoded) in
      if \<not> starts_with (''<'' @ name) trimmed then False
      else case drop (length (''<'' @ name)) trimmed of
             [] \<Rightarrow> False
           | c # cs \<Rightarrow>
               if c = CHR ''>'' then True
               else if c \<in> {CHR ''/'', CHR '' '', CHR 0x09, CHR 0x0D, CHR 0x0A}
               then CHR ''>'' \<in> set (c # cs)
               else False)"

definition classifyDecoded :: "bytes \<Rightarrow> Dialect" where
  "classifyDecoded decoded =
     (if rootIs decoded ''RegisterRequest'' then DialectRegisterRequest
      else if rootIs decoded ''HeartBeatRequest'' then DialectHeartBeatRequest
      else if rootIs decoded ''CheckFileRequest'' then DialectCheckFileRequest
      else if rootIs decoded ''CheckEventRequest'' then DialectCheckEventRequest
      else DialectUnknown)"

definition Classify :: "bytes \<Rightarrow> go_error + Dialect \<times> bytes" where
  "Classify body =
     (case DecodeBody body of
        Inl err \<Rightarrow> Inl (ErrWrapped ''decoding CEPA payload'' err)
      | Inr decoded \<Rightarrow> Inr (classifyDecoded decoded, decoded))"

definition rootElementIs :: "bytes \<Rightarrow> string \<Rightarrow> bool" where
  "rootElementIs body name =
     (case DecodeBody body of Inl err \<Rightarrow> False | Inr decoded \<Rightarrow> rootIs decoded name)"

definition IsRegisterRequest :: "bytes \<Rightarrow> bool" where
  "IsRegisterRequest body = rootElementIs body ''RegisterRequest''"

definition IsHeartBeatRequest :: "bytes \<Rightarrow> bool" where
  "IsHeartBeatRequest body = rootElementIs body ''HeartBeatRequest''"

definition IsCheckFileRequest :: "bytes \<Rightarrow> bool" where
  "IsCheckFileRequest body = rootElementIs body ''CheckFileRequest''"

definition IsCheckEventRequest :: "bytes \<Rightarrow> bool" where
  "IsCheckEventRequest body = rootElementIs body ''CheckEventRequest''"

section \<open>What trimming removes\<close>

definition name_end :: "char set" where
  "name_end = {CHR ''>'', CHR ''/'', CHR '' '', CHR 0x09, CHR 0x0D, CHR 0x0A}"

definition root_names :: "string list" where
  "root_names = [''RegisterRequest'', ''HeartBeatRequest'', ''CheckFileRequest'', ''CheckEventRequest'']"

lemma trim_front_removed:
  "\<exists>t. s = t @ trim_front ps s \<and> set t \<subseteq> \<Union> (set ` set ps)"
proof (induction ps s rule: trim_front.induct)
  case (1 ps s)
  show ?case
  proof (cases "find (\<lambda>p. p \<noteq> [] \<and> starts_with p s) ps")
    case None
    then show ?thesis by (simp add: trim_front.simps [of ps s])
  next
    case (Some p)
    then have p: "starts_with p s" "p \<in> set ps" using find_SomeD [OF Some] by auto
    obtain t where t: "drop (length p) s = t @ trim_front ps (drop (length p) s)"
      "set t \<subseteq> \<Union> (set ` set ps)"
      using "1.IH" [OF Some] by blast
    have "s = (p @ t) @ trim_front ps (drop (length p) s)"
      using starts_with_drop [OF p(1)] t(1) by simp
    moreover have "set (p @ t) \<subseteq> \<Union> (set ` set ps)" using p(2) t(2) by auto
    moreover have "trim_front ps s = trim_front ps (drop (length p) s)"
      using Some by (simp add: trim_front.simps [of ps s])
    ultimately show ?thesis by metis
  qed
qed

lemma space_seqs_no_nonspace:
  "c \<in> \<Union> (set ` set space_seqs) \<Longrightarrow> \<not> ascii_nonspace c"
  by (auto simp: space_seqs_def space_runes_def append_rune_def is_scalar_def is_surrogate_def
      ascii_nonspace_def)

lemma TrimSpace_removed:
  "\<exists>l r. s = l @ TrimSpace s @ r \<and> (\<forall>c \<in> set l \<union> set r. \<not> ascii_nonspace c)"
proof -
  let ?m = "trim_front space_seqs s"
  obtain l where l: "s = l @ ?m" "set l \<subseteq> \<Union> (set ` set space_seqs)"
    using trim_front_removed by blast
  obtain r where r: "rev ?m = r @ trim_front (map rev space_seqs) (rev ?m)"
    "set r \<subseteq> \<Union> (set ` set (map rev space_seqs))"
    using trim_front_removed by blast
  have "?m = TrimSpace s @ rev r"
    using r(1) unfolding TrimSpace_def by (metis rev_append rev_rev_ident)
  then have "s = l @ TrimSpace s @ rev r" using l(1) by simp
  moreover have "\<forall>c \<in> set l \<union> set (rev r). \<not> ascii_nonspace c"
    using l(2) r(2) space_seqs_no_nonspace by fastforce
  ultimately show ?thesis by blast
qed

lemma TrimSpace_root:
  assumes c: "ascii_nonspace c" and e: "q = [] \<or> ascii_nonspace (last q)"
  shows "\<exists>v u. TrimSpace (c # q @ s) = c # q @ v \<and> s = v @ u
           \<and> (\<forall>x \<in> set u. \<not> ascii_nonspace x)"
proof -
  obtain t where t: "TrimSpace (c # q @ s) = c # t" using TrimSpace_Cons [OF c] by blast
  obtain l r where lr: "c # q @ s = l @ (c # t) @ r" "\<forall>x \<in> set l \<union> set r. \<not> ascii_nonspace x"
    using TrimSpace_removed [of "c # q @ s"] t by auto
  have l: "l = []" using lr c by (cases l) auto
  then have eq: "q @ s = t @ r" using lr by simp
  then obtain w where w: "q = t @ w \<and> w @ s = r \<or> q @ w = t \<and> s = w @ r"
    by (auto simp: append_eq_append_conv2)
  then show ?thesis
  proof
    assume a: "q = t @ w \<and> w @ s = r"
    then have "w = []" using e lr(2) by (cases w rule: rev_cases) auto
    then show ?thesis using a t lr(2) by auto
  next
    assume "q @ w = t \<and> s = w @ r"
    then show ?thesis using t lr(2) by auto
  qed
qed

lemma TrimSpace_leading:
  assumes "set ws \<subseteq> {CHR '' '', CHR 0x09, CHR 0x0D, CHR 0x0A}" 
  shows "trim_front space_seqs (ws @ s) = trim_front space_seqs s"
  using assms
proof (induction ws)
  case (Cons w ws)
  have "w = CHR '' '' \<or> w = CHR 0x09 \<or> w = CHR 0x0D \<or> w = CHR 0x0A" using Cons.prems by simp
  then have "find (\<lambda>p. p \<noteq> [] \<and> starts_with p ([w] @ ws @ s)) space_seqs = Some [w]"
    by (elim disjE) (simp_all add: space_seqs_eq)
  then have "trim_front space_seqs ([w] @ ws @ s) = trim_front space_seqs (ws @ s)"
    by (rule trim_front_step)
  with Cons show ?case by simp
qed simp

lemma TrimSpace_append_leading:
  "set ws \<subseteq> {CHR '' '', CHR 0x09, CHR 0x0D, CHR 0x0A} \<Longrightarrow> TrimSpace (ws @ s) = TrimSpace s"
  by (simp add: TrimSpace_def TrimSpace_leading)

section \<open>The root element decides\<close>

definition name_char :: "char \<Rightarrow> bool" where
  "name_char c \<longleftrightarrow> ascii_nonspace c \<and> c \<notin> name_end"

lemma root_names_chars: "name \<in> set root_names \<Longrightarrow> \<forall>c \<in> set name. name_char c"
  by (auto simp: root_names_def name_char_def name_end_def ascii_nonspace_def)

lemma rootIs_trimmed:
  assumes trim: "skip_declaration (TrimSpace decoded) = CHR ''<'' # elem @ v"
    and e: "\<forall>x \<in> set elem. name_char x" and n: "\<forall>x \<in> set name. name_char x"
    and c: "c \<in> name_end" "c # rest = v @ u" and u: "\<forall>x \<in> set u. \<not> ascii_nonspace x"
  shows "rootIs decoded name \<longleftrightarrow> elem = name \<and> CHR ''>'' \<in> set (c # rest)"
proof -
  have gt: "CHR ''>'' \<in> set (c # rest) \<longleftrightarrow> CHR ''>'' \<in> set v"
    using u unfolding c(2) by (auto simp: ascii_nonspace_def)
  have name_split: "\<exists>w. elem @ v = name @ w \<Longrightarrow>
      (\<exists>x w. elem = name @ x # w \<and> name_char x) \<or> elem = name"
  proof -
    assume "\<exists>w. elem @ v = name @ w"
    then obtain w z where z: "elem = name @ z \<or> elem @ z = name \<and> v = z @ w"
      by (auto simp: append_eq_append_conv2)
    show ?thesis
    proof (cases z)
      case Nil
      then show ?thesis using z by auto
    next
      case (Cons x zs)
      then show ?thesis
        using z e n c by (auto simp: name_char_def Cons_eq_append_conv)
    qed
  qed
  show ?thesis
  proof (cases "starts_with name (elem @ v)")
    case False
    then have "elem \<noteq> name" by auto
    then show ?thesis using False by (simp add: rootIs_def trim Let_def)
  next
    case True
    then have "(\<exists>x w. elem = name @ x # w \<and> name_char x) \<or> elem = name"
      using name_split by (simp add: starts_with_iff)
    then show ?thesis
    proof
      assume "\<exists>x w. elem = name @ x # w \<and> name_char x"
      then obtain x w where x: "elem = name @ x # w" "name_char x" by blast
      then show ?thesis
        by (auto simp: rootIs_def trim Let_def name_char_def name_end_def)
    next
      assume en: "elem = name"
      have "v = [] \<or> (\<exists>v'. v = c # v')" using c(2) by (cases v) auto
      then show ?thesis using en c(1) gt
        by (auto simp: rootIs_def trim Let_def name_end_def)
    qed
  qed
qed

definition blank_chars :: "char set" where
  "blank_chars = {CHR '' '', CHR 0x09, CHR 0x0D, CHR 0x0A}"

text \<open>An XML declaration and the white space around it, as \<open>skip_declaration\<close> sees it.\<close>

definition prolog :: "bytes \<Rightarrow> bool" where
  "prolog p \<longleftrightarrow> set p \<subseteq> blank_chars \<or>
     (\<exists>ws a ws'. p = ws @ ''<?xml'' @ a @ ''?>'' @ ws' \<and> CHR ''?'' \<notin> set a \<and>
        set ws \<subseteq> blank_chars \<and> set ws' \<subseteq> blank_chars)"

lemma index_of_decl_end:
  "CHR ''?'' \<notin> set a \<Longrightarrow> index_of ''?>'' (a @ ''?>'' @ y) = Some (length a)"
  by (induction a) auto

lemma skip_prolog:
  assumes "prolog p" and e: "elem \<noteq> []" "hd elem \<noteq> CHR ''?''" "\<forall>x \<in> set elem. name_char x"
  shows "\<exists>v u. skip_declaration (TrimSpace (p @ ''<'' @ elem @ s)) = CHR ''<'' # elem @ v \<and>
    s = v @ u \<and> (\<forall>x \<in> set u. \<not> ascii_nonspace x)"
proof -
  have lt: "ascii_nonspace (CHR ''<'')" by (simp add: ascii_nonspace_def)
  have le: "elem = [] \<or> ascii_nonspace (last elem)" using e by (simp add: name_char_def)
  note blank = TrimSpace_append_leading [folded blank_chars_def]
  from assms(1) consider (blank) "set p \<subseteq> blank_chars"
    | (decl) ws a ws' where "p = ws @ ''<?xml'' @ a @ ''?>'' @ ws'" "CHR ''?'' \<notin> set a"
        "set ws \<subseteq> blank_chars" "set ws' \<subseteq> blank_chars"
    unfolding prolog_def by blast
  then show ?thesis
  proof cases
    case blank
    obtain v u where vu: "TrimSpace (CHR ''<'' # elem @ s) = CHR ''<'' # elem @ v" "s = v @ u"
      "\<forall>x \<in> set u. \<not> ascii_nonspace x"
      using TrimSpace_root [OF lt le] by blast
    have "skip_declaration (CHR ''<'' # elem @ v) = CHR ''<'' # elem @ v"
      using e by (cases elem) (auto simp: skip_declaration_def)
    then show ?thesis using vu TrimSpace_append_leading [folded blank_chars_def, OF blank] by auto
  next
    case decl
    let ?q = "''?xml'' @ a @ ''?>'' @ ws' @ ''<'' @ elem"
    have lq: "?q = [] \<or> ascii_nonspace (last ?q)" using e by (simp add: name_char_def)
    obtain v u where vu: "TrimSpace (CHR ''<'' # ?q @ s) = CHR ''<'' # ?q @ v" "s = v @ u"
      "\<forall>x \<in> set u. \<not> ascii_nonspace x"
      using TrimSpace_root [OF lt lq] by blast
    have t: "TrimSpace (p @ ''<'' @ elem @ s) = CHR ''<'' # ?q @ v"
      using TrimSpace_append_leading [folded blank_chars_def, OF decl(3)] vu(1) decl(1) by simp
    have i: "index_of ''?>'' (CHR ''<'' # ?q @ v) = Some (5 + length a)"
      using index_of_decl_end [OF decl(2), of "ws' @ ''<'' @ elem @ v"] by simp
    have "skip_declaration (CHR ''<'' # ?q @ v) = TrimSpace (ws' @ CHR ''<'' # elem @ v)"
      using i by (simp add: skip_declaration_def)
    also have "\<dots> = TrimSpace (CHR ''<'' # elem @ v)"
      by (rule TrimSpace_append_leading [folded blank_chars_def, OF decl(4)])
    finally obtain v' u' where "skip_declaration (CHR ''<'' # ?q @ v) = CHR ''<'' # elem @ v'"
      "v = v' @ u'" "\<forall>x \<in> set u'. \<not> ascii_nonspace x"
      using TrimSpace_root [OF lt le, of v] by auto
    then show ?thesis using t vu by (intro exI [of _ v'] exI [of _ "u' @ u"]) auto
  qed
qed

lemma rootIs_after_prolog:
  assumes "prolog p" "elem \<noteq> []" "hd elem \<noteq> CHR ''?''" "\<forall>x \<in> set elem. name_char x"
    and "c \<in> name_end" "name \<in> set root_names"
  shows "rootIs (p @ ''<'' @ elem @ c # rest) name \<longleftrightarrow> elem = name \<and> CHR ''>'' \<in> set (c # rest)"
proof -
  obtain v u where vu: "skip_declaration (TrimSpace (p @ ''<'' @ elem @ c # rest)) = CHR ''<'' # elem @ v"
    "c # rest = v @ u" "\<forall>x \<in> set u. \<not> ascii_nonspace x"
    using skip_prolog [OF assms(1-4)] by blast
  show ?thesis
    by (rule rootIs_trimmed [OF vu(1) assms(4) root_names_chars [OF assms(6)] assms(5) vu(2,3)])
qed

lemma root_names_prefix_free:
  "\<forall>n \<in> set root_names. \<forall>m \<in> set root_names. starts_with (''<'' @ n) (''<'' @ m) \<longrightarrow> n = m"
  by (simp add: root_names_def)

lemma rootIs_unique:
  assumes "rootIs d n" "rootIs d m" "n \<in> set root_names" "m \<in> set root_names"
  shows "n = m"
proof -
  let ?t = "skip_declaration (TrimSpace d)"
  have "starts_with (''<'' @ n) ?t" "starts_with (''<'' @ m) ?t"
    using assms(1,2) by (auto simp: rootIs_def Let_def split: if_splits)
  then have "starts_with (''<'' @ n) (''<'' @ m) \<or> starts_with (''<'' @ m) (''<'' @ n)"
    by (rule starts_with_comparable)
  then show ?thesis using root_names_prefix_free assms(3,4) by blast
qed

text \<open>A document that \<open>rootIs\<close> accepts contains the end of its start tag.\<close>

lemma rootIs_closed: "rootIs d name \<Longrightarrow> CHR ''>'' \<in> set d"
proof -
  assume r: "rootIs d name"
  let ?t = "skip_declaration (TrimSpace d)"
  have "CHR ''>'' \<in> set (drop (length (''<'' @ name)) ?t)"
    using r unfolding rootIs_def Let_def
    by (cases "drop (length (''<'' @ name)) ?t") (simp_all split: if_splits)
  then have "CHR ''>'' \<in> set ?t" by (rule in_set_dropD)
  moreover have "set ?t \<subseteq> set (TrimSpace d)"
    unfolding skip_declaration_def
    by (auto split: option.splits if_splits dest!: subsetD [OF set_TrimSpace] dest: in_set_dropD)
  moreover have "set (TrimSpace d) \<subseteq> set d" by (rule set_TrimSpace)
  ultimately show ?thesis by blast
qed

section \<open>Properties\<close>

text \<open>Only the root element decides, and its name must end where the element name
  ends.  After any prolog (white space, or one XML declaration with white space around
  it), a document that opens with element \<open>elem\<close> is recognised as \<open>name\<close> exactly when
  \<open>elem\<close> is \<open>name\<close> and the start tag is closed somewhere: a longer element
  name, a truncated start tag, or a mention of the name further inside the document is
  never taken for the handshake.\<close>

theorem rootIs_document:
  assumes "prolog p" "elem \<noteq> []" "hd elem \<noteq> CHR ''?''" "\<forall>x \<in> set elem. name_char x"
    and "c \<in> name_end" "name \<in> set root_names"
  shows "rootIs (p @ ''<'' @ elem @ c # rest) name \<longleftrightarrow> elem = name \<and> CHR ''>'' \<in> set (c # rest)"
  using assms by (rule rootIs_after_prolog)

theorem rootIs_document_witness:
  "rootIs (''<?xml version=1.0?> '' @ ''<'' @ ''CheckFileRequest'' @ CHR ''>'' # ''</CheckFileRequest>'') ''CheckFileRequest'' \<and>
   \<not> rootIs ([] @ ''<'' @ ''RegisterRequestBatch'' @ CHR '' '' # ''/>'') ''RegisterRequest''"
proof
  have "prolog (''<?xml version=1.0?> '')" unfolding prolog_def
    by (rule disjI2, rule exI [of _ "[]"], rule exI [of _ "'' version=1.0''"], rule exI [of _ "'' ''"])
       (simp add: blank_chars_def)
  then show "rootIs (''<?xml version=1.0?> '' @ ''<'' @ ''CheckFileRequest'' @ CHR ''>'' # ''</CheckFileRequest>'') ''CheckFileRequest''"
    by (subst rootIs_document) (simp_all add: root_names_def name_char_def name_end_def ascii_nonspace_def)
  show "\<not> rootIs ([] @ ''<'' @ ''RegisterRequestBatch'' @ CHR '' '' # ''/>'') ''RegisterRequest''"
    by (subst rootIs_document)
       (simp_all add: root_names_def name_char_def name_end_def ascii_nonspace_def prolog_def)
qed

text \<open>C33: \<open>Classify\<close>, which transcodes once, and the four predicates, which transcode
  each time, never disagree: on success each predicate holds exactly for its own dialect,
  so at most one does and the order of the tests does not matter, and the decoded bytes
  are those of \<open>DecodeBody\<close>; on an undecodable body \<open>Classify\<close> reports the error and
  every predicate is false.\<close>

theorem Classify_agrees_with_predicates:
  "case Classify body of
     Inr (d, decoded) \<Rightarrow>
       DecodeBody body = Inr decoded \<and>
       (IsRegisterRequest body \<longleftrightarrow> d = DialectRegisterRequest) \<and>
       (IsHeartBeatRequest body \<longleftrightarrow> d = DialectHeartBeatRequest) \<and>
       (IsCheckFileRequest body \<longleftrightarrow> d = DialectCheckFileRequest) \<and>
       (IsCheckEventRequest body \<longleftrightarrow> d = DialectCheckEventRequest)
   | Inl e \<Rightarrow>
       (\<exists>err. DecodeBody body = Inl err) \<and>
       \<not> IsRegisterRequest body \<and> \<not> IsHeartBeatRequest body \<and>
       \<not> IsCheckFileRequest body \<and> \<not> IsCheckEventRequest body"
proof (cases "DecodeBody body")
  case (Inl err)
  then show ?thesis
    by (simp add: Classify_def rootElementIs_def IsRegisterRequest_def IsHeartBeatRequest_def
        IsCheckFileRequest_def IsCheckEventRequest_def)
next
  case (Inr decoded)
  note u = rootIs_unique [of decoded]
  show ?thesis
    using Inr u [of "''RegisterRequest''" "''HeartBeatRequest''"]
      u [of "''RegisterRequest''" "''CheckFileRequest''"] u [of "''RegisterRequest''" "''CheckEventRequest''"]
      u [of "''HeartBeatRequest''" "''CheckFileRequest''"] u [of "''HeartBeatRequest''" "''CheckEventRequest''"]
      u [of "''CheckFileRequest''" "''CheckEventRequest''"]
    by (auto simp: Classify_def classifyDecoded_def rootElementIs_def IsRegisterRequest_def
        IsHeartBeatRequest_def IsCheckFileRequest_def IsCheckEventRequest_def root_names_def)
qed

end
