(* ===== verification/Go_Strconv.thy ===== *)
theory Go_Strconv
  imports Go_Strings
begin

text \<open>
  The parts of Go's \<^verbatim>\<open>strconv\<close> that the program uses, with the results Go
  returns beside the error: \<^verbatim>\<open>ParseUint\<close> gives 0 on a syntax error and the
  largest value on a range error, \<^verbatim>\<open>ParseInt\<close> saturates.  A
  \<^verbatim>\<open>uint64\<close> is a \<^typ>\<open>64 word\<close> and an \<^verbatim>\<open>int64\<close> an \<^typ>\<open>int\<close> with its bounds
  proved.
\<close>

section \<open>Parsing\<close>

datatype num_error = ErrSyntax | ErrRange

type_synonym u64 = "64 word"

text \<open>The value of a digit in any base up to 36; \<^verbatim>\<open>lower(c)\<close> is \<^verbatim>\<open>c | 0x20\<close>.\<close>

definition digit_val :: "char \<Rightarrow> nat option" where
  "digit_val c =
     (let n = byte_val c in
      if 48 \<le> n \<and> n \<le> 57 then Some (n - 48)
      else if 97 \<le> n \<and> n \<le> 122 then Some (n - 97 + 10)
      else if 65 \<le> n \<and> n \<le> 90 then Some (n - 65 + 10)
      else None)"

definition uint_cutoff :: "nat \<Rightarrow> u64" where
  "uint_cutoff base = of_nat ((2 ^ 64 - 1) div base + 1)"

text \<open>The loop of \<^verbatim>\<open>ParseUint\<close> with its two overflow tests: \<^verbatim>\<open>n >= cutoff\<close> before
  the multiplication, \<^verbatim>\<open>n1 < n\<close> after the addition wrapped.\<close>

fun parse_uint_loop :: "nat \<Rightarrow> u64 \<Rightarrow> string \<Rightarrow> u64 \<times> num_error option" where
  "parse_uint_loop base n [] = (n, None)"
| "parse_uint_loop base n (c # cs) =
     (case digit_val c of
        None \<Rightarrow> (0, Some ErrSyntax)
      | Some d \<Rightarrow>
          if base \<le> d then (0, Some ErrSyntax)
          else if uint_cutoff base \<le> n then (- 1, Some ErrRange)
          else let n' = n * of_nat base; n1 = n' + of_nat d in
               if n1 < n' then (- 1, Some ErrRange)
               else parse_uint_loop base n1 cs)"

definition ParseUint :: "string \<Rightarrow> nat \<Rightarrow> u64 \<times> num_error option" where
  "ParseUint s base = (if s = [] then (0, Some ErrSyntax) else parse_uint_loop base 0 s)"

definition signed_result :: "bool \<Rightarrow> u64 \<times> num_error option \<Rightarrow> int \<times> num_error option" where
  "signed_result neg r =
     (case r of (un, err) \<Rightarrow>
        if err = Some ErrSyntax then (0, err)
        else if \<not> neg \<and> 2 ^ 63 \<le> uint un then (2 ^ 63 - 1, Some ErrRange)
        else if neg \<and> 2 ^ 63 < uint un then (- (2 ^ 63), Some ErrRange)
        else (if neg then - uint un else uint un, None))"

definition ParseInt :: "string \<Rightarrow> nat \<Rightarrow> int \<times> num_error option" where
  "ParseInt s base =
     (case s of
        [] \<Rightarrow> (0, Some ErrSyntax)
      | c # cs \<Rightarrow>
          signed_result (c = CHR ''-'')
            (ParseUint (if c = CHR ''+'' \<or> c = CHR ''-'' then cs else s) base))"

text \<open>\<^verbatim>\<open>Atoi\<close> is \<^verbatim>\<open>ParseInt(s, 10, 64)\<close> on a 64-bit platform.\<close>

definition Atoi :: "string \<Rightarrow> int \<times> num_error option" where
  "Atoi s = ParseInt s 10"

section \<open>Formatting\<close>

definition digit_char :: "nat \<Rightarrow> char" where
  "digit_char d = (if d < 10 then char_of (48 + d) else char_of (87 + d))"

fun format_nat :: "nat \<Rightarrow> nat \<Rightarrow> string" where
  "format_nat base n =
     (if base < 2 \<or> n < base then [digit_char n]
      else format_nat base (n div base) @ [digit_char (n mod base)])"

declare format_nat.simps [simp del]

text \<open>\<^verbatim>\<open>strconv.Itoa\<close>, \<^verbatim>\<open>strconv.AppendInt(_, n, 10)\<close> and the verb \<^verbatim>\<open>%d\<close>;
  \<^verbatim>\<open>strconv.FormatUint(n, 10)\<close>; the verb \<^verbatim>\<open>%x\<close>.\<close>

definition Itoa :: "int \<Rightarrow> string" where
  "Itoa n = (if n < 0 then CHR ''-'' # format_nat 10 (nat (- n)) else format_nat 10 (nat n))"

definition FormatUint10 :: "u64 \<Rightarrow> string" where
  "FormatUint10 n = format_nat 10 (unat n)"

definition format_hex :: "int \<Rightarrow> string" where
  "format_hex n = (if n < 0 then CHR ''-'' # format_nat 16 (nat (- n)) else format_nat 16 (nat n))"

section \<open>The reference value of a numeral\<close>

fun numeral_val :: "nat \<Rightarrow> nat \<Rightarrow> string \<Rightarrow> nat option" where
  "numeral_val base acc [] = Some acc"
| "numeral_val base acc (c # cs) =
     (case digit_val c of
        None \<Rightarrow> None
      | Some d \<Rightarrow> if base \<le> d then None else numeral_val base (acc * base + d) cs)"

lemma numeral_val_append:
  "numeral_val base acc (s @ t) = Option.bind (numeral_val base acc s) (\<lambda>v. numeral_val base v t)"
  by (induction s arbitrary: acc) (auto split: option.split)

lemma numeral_val_ge: "numeral_val base acc s = Some v \<Longrightarrow> 1 \<le> base \<Longrightarrow> acc \<le> v"
proof (induction s arbitrary: acc)
  case (Cons c cs)
  then obtain d where "numeral_val base (acc * base + d) cs = Some v"
    by (auto split: option.splits if_splits)
  then have "acc * base + d \<le> v" using Cons by blast
  moreover have "acc \<le> acc * base" using Cons.prems(2) by simp
  ultimately show ?case by linarith
qed simp

lemma parse_uint_loop_step:
  assumes "2 \<le> base" "base \<le> 36" "d < base"
  shows "(if uint_cutoff base \<le> n then True
          else n * of_nat base + of_nat d < n * of_nat base) \<longleftrightarrow> 2 ^ 64 \<le> unat n * base + d"
    and "\<not> 2 ^ 64 \<le> unat n * base + d \<Longrightarrow>
          unat (n * of_nat base + of_nat d) = unat n * base + d"
proof -
  let ?M = "2 ^ 64 :: nat"
  have cut: "unat (uint_cutoff base) = (?M - 1) div base + 1"
  proof -
    have "(?M - 1) div base + 1 < ?M"
      using assms(1) div_le_mono2 [of 2 base "?M - 1"] by simp
    then show ?thesis unfolding uint_cutoff_def by (subst unat_of_nat) simp
  qed
  have ge: "uint_cutoff base \<le> n \<longleftrightarrow> ?M \<le> unat n * base"
  proof -
    have "uint_cutoff base \<le> n \<longleftrightarrow> (?M - 1) div base < unat n"
      by (simp add: word_le_nat_alt cut Suc_le_eq)
    also have "\<dots> \<longleftrightarrow> ?M - 1 < unat n * base"
      using assms(1) by (subst div_less_iff_less_mult) simp_all
    also have "\<dots> \<longleftrightarrow> ?M \<le> unat n * base" by auto
    finally show ?thesis .
  qed
  have small: "unat n * base < ?M \<Longrightarrow> unat (n * of_nat base) = unat n * base"
    using assms(2) by (simp add: unat_word_ariths unat_of_nat)
  have d: "unat (of_nat d :: u64) = d" using assms by (simp add: unat_of_nat)
  have sum: "unat n * base < ?M \<Longrightarrow>
      unat (n * of_nat base + of_nat d) = (unat n * base + d) mod ?M"
    using small d by (simp add: unat_word_ariths)
  show "(if uint_cutoff base \<le> n then True
          else n * of_nat base + of_nat d < n * of_nat base) \<longleftrightarrow> ?M \<le> unat n * base + d"
  proof (cases "unat n * base < ?M")
    case True
    then have "n * of_nat base + of_nat d < n * of_nat base \<longleftrightarrow> (unat n * base + d) mod ?M < unat n * base"
      by (simp only: word_less_nat_alt sum small)
    also have "\<dots> \<longleftrightarrow> ?M \<le> unat n * base + d"
    proof (cases "unat n * base + d < ?M")
      case False
      then have "(unat n * base + d) mod ?M = unat n * base + d - ?M"
        using True assms by (subst le_mod_geq) simp_all
      moreover have "unat n * base + d - ?M < unat n * base"
        using False True assms by (simp add: less_diff_conv2)
      ultimately show ?thesis using False by simp
    qed simp
    finally show ?thesis using True ge by simp
  qed (use ge in simp)
  show "\<not> ?M \<le> unat n * base + d \<Longrightarrow>
          unat (n * of_nat base + of_nat d) = unat n * base + d"
    using sum by simp
qed

text \<open>The word-sized loop computes the numeral's value exactly when it fits.\<close>

lemma parse_uint_loop_ok:
  assumes "2 \<le> base" "base \<le> 36"
  shows "numeral_val base (unat n) s = Some v \<Longrightarrow>
    parse_uint_loop base n s = (if v < 2 ^ 64 then (of_nat v, None) else (- 1, Some ErrRange))"
proof (induction s arbitrary: n)
  case Nil
  then show ?case using unsigned_less [of n] by auto
next
  case (Cons c cs)
  then obtain d where d: "digit_val c = Some d" "d < base"
    and v: "numeral_val base (unat n * base + d) cs = Some v"
    by (auto split: option.splits if_splits)
  note step = parse_uint_loop_step [OF assms d(2), of n]
  show ?case
  proof (cases "2 ^ 64 \<le> unat n * base + d")
    case True
    moreover have "unat n * base + d \<le> v" using numeral_val_ge [OF v] assms by simp
    ultimately have "\<not> v < 2 ^ 64" by linarith
    moreover have "parse_uint_loop base n (c # cs) = (- 1, Some ErrRange)"
      using step(1) True d by (auto simp: Let_def split: if_splits)
    ultimately show ?thesis by simp
  next
    case False
    then have u: "unat (n * of_nat base + of_nat d) = unat n * base + d" by (rule step(2))
    have "parse_uint_loop base n (c # cs) = parse_uint_loop base (n * of_nat base + of_nat d) cs"
      using step(1) False d by (auto simp: Let_def split: if_splits)
    also have "\<dots> = (if v < 2 ^ 64 then (of_nat v, None) else (- 1, Some ErrRange))"
      by (rule Cons.IH) (simp add: u v)
    finally show ?thesis .
  qed
qed

lemma parse_uint_loop_None:
  assumes "2 \<le> base" "base \<le> 36"
  shows "numeral_val base (unat n) s = None \<Longrightarrow> snd (parse_uint_loop base n s) \<noteq> None"
proof (induction s arbitrary: n)
  case (Cons c cs)
  show ?case
  proof (cases "digit_val c")
    case (Some d)
    show ?thesis
    proof (cases "base \<le> d \<or> 2 ^ 64 \<le> unat n * base + d")
      case True
      then show ?thesis using parse_uint_loop_step(1) [OF assms, of d n] Some
        by (auto simp: Let_def split: if_splits)
    next
      case False
      then have u: "unat (n * of_nat base + of_nat d) = unat n * base + d"
        using parse_uint_loop_step(2) [OF assms, of d n] by simp
      have "snd (parse_uint_loop base (n * of_nat base + of_nat d) cs) \<noteq> None"
        by (rule Cons.IH) (use Cons.prems False Some u in simp)
      then show ?thesis using parse_uint_loop_step(1) [OF assms, of d n] Some False
        by (auto simp: Let_def split: if_splits)
    qed
  qed simp
qed simp

lemma ParseUint_ok:
  assumes "2 \<le> base" "base \<le> 36" "s \<noteq> []" "numeral_val base 0 s = Some v"
  shows "ParseUint s base = (if v < 2 ^ 64 then (of_nat v, None) else (- 1, Some ErrRange))"
  using parse_uint_loop_ok [OF assms(1,2), of 0 s v] assms by (simp add: ParseUint_def)

lemma ParseUint_None_iff:
  assumes "2 \<le> base" "base \<le> 36"
  shows "ParseUint s base = (w, None) \<longleftrightarrow>
    s \<noteq> [] \<and> (\<exists>v. numeral_val base 0 s = Some v \<and> v < 2 ^ 64 \<and> w = of_nat v)"
proof (cases "s = [] \<or> numeral_val base 0 s = None")
  case True
  then show ?thesis using parse_uint_loop_None [OF assms, of 0 s]
    by (cases "parse_uint_loop base 0 s") (auto simp: ParseUint_def)
next
  case False
  then show ?thesis using ParseUint_ok [OF assms] by (auto split: if_splits)
qed

lemma digit_val_digit_char: "d < 36 \<Longrightarrow> digit_val (digit_char d) = Some d"
  by (auto simp: digit_val_def digit_char_def Let_def)

lemma format_nat_not_Nil [simp]: "format_nat base n \<noteq> []"
  by (subst format_nat.simps) simp

lemma numeral_val_format_nat:
  "2 \<le> base \<Longrightarrow> base \<le> 36 \<Longrightarrow> numeral_val base 0 (format_nat base n) = Some n"
proof (induction base n rule: format_nat.induct)
  case (1 base n)
  show ?case
  proof (cases "n < base")
    case True
    then show ?thesis using "1.prems"
      by (simp add: format_nat.simps [of base n] digit_val_digit_char)
  next
    case False
    then have "numeral_val base 0 (format_nat base (n div base)) = Some (n div base)"
      using 1 by simp
    moreover have "\<not> base \<le> n mod base" using "1.prems" by (simp add: not_le)
    moreover have "n mod base < 36" by (rule order.strict_trans2 [OF mod_less_divisor]) (use "1.prems" in simp_all)
    ultimately show ?thesis using False "1.prems"
      by (simp add: format_nat.simps [of base n] numeral_val_append digit_val_digit_char)
  qed
qed

lemma ParseUint_format_nat:
  "2 \<le> base \<Longrightarrow> base \<le> 36 \<Longrightarrow> n < 2 ^ 64 \<Longrightarrow> ParseUint (format_nat base n) base = (of_nat n, None)"
  by (simp add: ParseUint_ok numeral_val_format_nat)

lemma digit_char_not_sign: "d < 36 \<Longrightarrow> digit_char d \<noteq> CHR ''-'' \<and> digit_char d \<noteq> CHR ''+''"
  by (auto simp: digit_char_def of_char_eq_iff [symmetric, where 'a = nat] simp del: of_char_eq_iff)

lemma format_nat_hd:
  "2 \<le> base \<Longrightarrow> base \<le> 36 \<Longrightarrow> \<exists>d cs. d < base \<and> format_nat base n = digit_char d # cs"
proof (induction base n rule: format_nat.induct)
  case (1 base n)
  show ?case
  proof (cases "n < base")
    case True
    then show ?thesis using "1.prems" by (auto simp: format_nat.simps [of base n])
  next
    case False
    then obtain d cs where "d < base" "format_nat base (n div base) = digit_char d # cs"
      using 1 by auto
    then show ?thesis using False "1.prems" by (auto simp: format_nat.simps [of base n])
  qed
qed

lemma signed_result_bounds: "- (2 ^ 63) \<le> fst (signed_result neg r) \<and> fst (signed_result neg r) < 2 ^ 63"
proof (cases r)
  case (Pair un err)
  obtain k where "uint un = k" "0 \<le> k" by simp
  then show ?thesis using Pair by (simp add: signed_result_def)
qed

lemma ParseInt_bounds: "- (2 ^ 63) \<le> fst (ParseInt s b) \<and> fst (ParseInt s b) < 2 ^ 63"
proof (cases s)
  case (Cons c cs)
  then show ?thesis unfolding ParseInt_def by (simp only: list.case signed_result_bounds)
qed (simp add: ParseInt_def)

lemma ParseInt_Itoa:
  assumes "- (2 ^ 63) \<le> n" "n < 2 ^ 63"
  shows "ParseInt (Itoa n) 10 = (n, None)"
proof -
  have p: "ParseUint (format_nat 10 k) 10 = (of_nat k, None)" if "k < 2 ^ 64" for k
    using that by (simp add: ParseUint_format_nat)
  have u: "uint (of_nat k :: u64) = int k" if "k < 2 ^ 64" for k
    using that by (simp add: uint_nat unat_of_nat)
  obtain d cs where f: "d < 10" "format_nat 10 (nat n) = digit_char d # cs"
    using format_nat_hd [of 10 "nat n"] by auto
  show ?thesis
  proof (cases "n < 0")
    case True
    then show ?thesis using assms p [of "nat (- n)"] u [of "nat (- n)"]
      by (simp add: Itoa_def ParseInt_def signed_result_def)
  next
    case False
    then show ?thesis using assms p [of "nat n"] u [of "nat n"] f digit_char_not_sign [of d]
      by (simp add: Itoa_def ParseInt_def signed_result_def)
  qed
qed

text \<open>A numeral outside the range is clamped.\<close>

lemma ParseInt_Itoa_clamp: "fst (ParseInt (Itoa n) 10) = max (- (2 ^ 63)) (min n (2 ^ 63 - 1))"
proof -
  have p: "ParseUint (format_nat 10 k) 10 =
      (if k < 2 ^ 64 then (of_nat k, None) else (- 1, Some ErrRange))" for k
    by (simp add: ParseUint_ok numeral_val_format_nat)
  have u: "uint (of_nat k :: u64) = int k" if "k < 2 ^ 64" for k
    using that by (simp add: uint_nat unat_of_nat)
  have m: "uint (- 1 :: u64) = 2 ^ 64 - 1" by (simp add: unsigned_minus_1_eq_mask mask_eq_exp_minus_1)
  obtain d cs where f: "d < 10" "format_nat 10 (nat n) = digit_char d # cs"
    using format_nat_hd [of 10 "nat n"] by auto
  show ?thesis
  proof (cases "n < 0")
    case True
    then show ?thesis using p [of "nat (- n)"] u [of "nat (- n)"] m
      by (cases "nat (- n) < 2 ^ 64") (auto simp: Itoa_def ParseInt_def signed_result_def)
  next
    case False
    then show ?thesis using p [of "nat n"] u [of "nat n"] m f digit_char_not_sign [of d]
      by (cases "nat n < 2 ^ 64") (auto simp: Itoa_def ParseInt_def signed_result_def)
  qed
qed

definition parse_int_result :: "string \<Rightarrow> num_error + int" where
  "parse_int_result s = (case ParseInt s 10 of (v, None) \<Rightarrow> Inr v | (_, Some e) \<Rightarrow> Inl e)"

interpretation decimal: codec Itoa parse_int_result "\<lambda>n. - (2 ^ 63) \<le> n \<and> n < 2 ^ 63"
  by unfold_locales (simp add: parse_int_result_def ParseInt_Itoa)

end
