(* ===== verification/Go_Time.thy ===== *)
theory Go_Time
  imports Go_Strconv
begin

text \<open>
  The part of Go's \<^verbatim>\<open>time\<close> package the program uses: instants, \<^verbatim>\<open>time.Unix\<close>,
  \<^verbatim>\<open>UnixNano\<close>, \<^verbatim>\<open>time.Parse\<close> for the layouts of \<^verbatim>\<open>tsFormats\<close>, and the two output
  layouts.  An instant is its Unix second and its nanosecond; the location is left out,
  since every use formats in UTC or reads only the instant.
\<close>

section \<open>Instants\<close>

record gotime =
  unix_sec :: int
  nsec :: nat

definition mk_time :: "int \<Rightarrow> nat \<Rightarrow> gotime" where
  "mk_time s n = \<lparr>unix_sec = s, nsec = n\<rparr>"

lemma mk_time_simps [simp]:
  "unix_sec (mk_time s n) = s" "nsec (mk_time s n) = n" "mk_time (unix_sec t) (nsec t) = t"
  by (simp_all add: mk_time_def)

definition time_ok :: "gotime \<Rightarrow> bool" where
  "time_ok t \<longleftrightarrow> nsec t < 1000000000"

text \<open>\<^verbatim>\<open>time.Unix(sec, nsec)\<close> normalises the nanoseconds into one second.\<close>

definition Unix :: "int \<Rightarrow> int \<Rightarrow> gotime" where
  "Unix s ns = mk_time (s + ns div 1000000000) (nat (ns mod 1000000000))"

lemma Unix_ok [simp]: "time_ok (Unix s ns)"
  by (simp add: Unix_def time_ok_def nat_less_iff)

text \<open>\<^verbatim>\<open>UnixNano\<close> is an \<open>int64\<close>: it wraps for instants outside the years 1678 to 2262.\<close>

definition UnixNano :: "gotime \<Rightarrow> 64 word" where
  "UnixNano t = word_of_int (unix_sec t * 1000000000 + int (nsec t))"

section \<open>The calendar\<close>

text \<open>The proleptic Gregorian calendar, with days counted from 1 January 1970.\<close>

definition is_leap :: "int \<Rightarrow> bool" where
  "is_leap y \<longleftrightarrow> y mod 4 = 0 \<and> (y mod 100 \<noteq> 0 \<or> y mod 400 = 0)"

definition days_in :: "nat \<Rightarrow> int \<Rightarrow> nat" where
  "days_in m y =
     (if m = 2 then (if is_leap y then 29 else 28)
      else if m \<in> {4, 6, 9, 11} then 30 else 31)"

text \<open>Days before 1 January of year \<open>y\<close>, from 1 January of year 0.\<close>

definition days_before_year :: "int \<Rightarrow> int" where
  "days_before_year y = 365 * y + (y + 3) div 4 - (y + 99) div 100 + (y + 399) div 400"

definition days_before_month :: "nat \<Rightarrow> int \<Rightarrow> nat" where
  "days_before_month m y = sum_list (map (\<lambda>k. days_in k y) [1..<m])"

definition epoch_days :: "int \<Rightarrow> nat \<Rightarrow> nat \<Rightarrow> int" where
  "epoch_days y m d = days_before_year y + int (days_before_month m y) + int d - 1 - 719528"

definition date_time :: "int \<Rightarrow> nat \<Rightarrow> nat \<Rightarrow> nat \<Rightarrow> nat \<Rightarrow> nat \<Rightarrow> nat \<Rightarrow> int \<Rightarrow> gotime" where
  "date_time y mo d h mi s ns off =
     mk_time (epoch_days y mo d * 86400 + int (h * 3600 + mi * 60 + s) - off) ns"

section \<open>Parsing\<close>

definition is_digit :: "char \<Rightarrow> bool" where
  "is_digit c \<longleftrightarrow> 48 \<le> byte_val c \<and> byte_val c \<le> 57"

definition dig :: "char \<Rightarrow> nat" where
  "dig c = byte_val c - 48"

definition dec_val :: "string \<Rightarrow> nat" where
  "dec_val ds = foldl (\<lambda>n c. n * 10 + dig c) 0 ds"

fun getnum :: "string \<Rightarrow> bool \<Rightarrow> (nat \<times> string) option" where
  "getnum (c0 # c1 # cs) fixed =
     (if \<not> is_digit c0 then None
      else if is_digit c1 then Some (dig c0 * 10 + dig c1, cs)
      else if fixed then None else Some (dig c0, c1 # cs))"
| "getnum [c0] fixed = (if is_digit c0 \<and> \<not> fixed then Some (dig c0, []) else None)"
| "getnum [] fixed = None"

text \<open>Literal text of a layout; a space in the layout matches any run of spaces.\<close>

function skip :: "string \<Rightarrow> string \<Rightarrow> string option" where
  "skip [] v = Some v"
| "skip (p # ps) v =
     (if p = CHR '' ''
      then if v \<noteq> [] \<and> hd v \<noteq> CHR '' '' then None
           else skip (dropWhile (\<lambda>c. c = CHR '' '') ps) (dropWhile (\<lambda>c. c = CHR '' '') v)
      else case v of [] \<Rightarrow> None | c # cs \<Rightarrow> if c = p then skip ps cs else None)"
  by pat_completeness auto
termination
  by (relation "measure (length \<circ> fst)") (auto simp: le_imp_less_Suc length_dropWhile_le)

text \<open>A fraction: a period or comma, and digits, of which nine count.\<close>

definition fraction :: "string \<Rightarrow> nat \<times> string" where
  "fraction v =
     (case v of
        p # c # cs \<Rightarrow>
          if (p = CHR ''.'' \<or> p = CHR '','') \<and> is_digit c then
            (let ds = takeWhile is_digit (c # cs);
                 used = take 9 ds in
             (dec_val used * 10 ^ (9 - length used), drop (length ds) (c # cs)))
          else (0, v)
      | _ \<Rightarrow> (0, v))"

text \<open>\<^verbatim>\<open>Z07:00\<close>: \<open>Z\<close> or a signed offset, in seconds east of UTC.\<close>

definition zone :: "string \<Rightarrow> (int \<times> string) option" where
  "zone v =
     (if starts_with ''Z'' v then Some (0, tl v)
      else case v of
        sign # h1 # h2 # colon # m1 # m2 # rest \<Rightarrow>
          if colon \<noteq> CHR '':'' then None
          else (case (getnum [h1, h2] True, getnum [m1, m2] True) of
            (Some (hr, _), Some (mm, _)) \<Rightarrow>
              if hr > 24 \<or> mm > 60 then None
              else if sign = CHR ''+'' then Some (int ((hr * 60 + mm) * 60), rest)
              else if sign = CHR ''-'' then Some (- int ((hr * 60 + mm) * 60), rest)
              else None
          | _ \<Rightarrow> None)
      | _ \<Rightarrow> None)"

datatype layout_part = Lit string | Year4 | Month2 | Day2 | Hour | Minute2 | Second2 | Frac9 | Zone

text \<open>The fields read so far.\<close>

record fields =
  f_year :: nat
  f_month :: nat
  f_day :: nat
  f_hour :: nat
  f_min :: nat
  f_sec :: nat
  f_nsec :: nat
  f_off :: int

definition no_fields :: fields where
  "no_fields = \<lparr>f_year = 0, f_month = 0, f_day = 0, f_hour = 0, f_min = 0, f_sec = 0,
     f_nsec = 0, f_off = 0\<rparr>"

text \<open>After the seconds a fraction is accepted even where the layout names none; where
  the layout does name one, its own part reads it.\<close>

fun parse_parts :: "layout_part list \<Rightarrow> string \<Rightarrow> fields \<Rightarrow> (string \<times> fields) option" where
  "parse_parts [] v f = Some (v, f)"
| "parse_parts (Lit p # ps) v f =
     (case skip p v of None \<Rightarrow> None | Some v' \<Rightarrow> parse_parts ps v' f)"
| "parse_parts (Year4 # ps) v f =
     (if length v < 4 \<or> \<not> list_all is_digit (take 4 v) then None
      else parse_parts ps (drop 4 v) (f\<lparr>f_year := dec_val (take 4 v)\<rparr>))"
| "parse_parts (Month2 # ps) v f =
     (case getnum v True of
        Some (n, v') \<Rightarrow> if n = 0 \<or> 12 < n then None else parse_parts ps v' (f\<lparr>f_month := n\<rparr>)
      | None \<Rightarrow> None)"
| "parse_parts (Day2 # ps) v f =
     (case getnum v True of
        Some (n, v') \<Rightarrow> parse_parts ps v' (f\<lparr>f_day := n\<rparr>)
      | None \<Rightarrow> None)"
| "parse_parts (Hour # ps) v f =
     (case getnum v False of
        Some (n, v') \<Rightarrow> if 24 \<le> n then None else parse_parts ps v' (f\<lparr>f_hour := n\<rparr>)
      | None \<Rightarrow> None)"
| "parse_parts (Minute2 # ps) v f =
     (case getnum v True of
        Some (n, v') \<Rightarrow> if 60 \<le> n then None else parse_parts ps v' (f\<lparr>f_min := n\<rparr>)
      | None \<Rightarrow> None)"
| "parse_parts (Second2 # ps) v f =
     (case getnum v True of
        Some (n, v') \<Rightarrow>
          if 60 \<le> n then None
          else if ps \<noteq> [] \<and> hd ps = Frac9 then parse_parts ps v' (f\<lparr>f_sec := n\<rparr>)
          else (case fraction v' of (ns, v'') \<Rightarrow>
                  parse_parts ps v'' (f\<lparr>f_sec := n, f_nsec := ns\<rparr>))
      | None \<Rightarrow> None)"
| "parse_parts (Frac9 # ps) v f =
     (case fraction v of (ns, v') \<Rightarrow> parse_parts ps v' (f\<lparr>f_nsec := ns\<rparr>))"
| "parse_parts (Zone # ps) v f =
     (case zone v of Some (z, v') \<Rightarrow> parse_parts ps v' (f\<lparr>f_off := z\<rparr>) | None \<Rightarrow> None)"

definition time_Parse :: "layout_part list \<Rightarrow> string \<Rightarrow> gotime option" where
  "time_Parse layout v =
     (case parse_parts layout v no_fields of
        Some ([], f) \<Rightarrow>
          if f_day f < 1 \<or> days_in (f_month f) (int (f_year f)) < f_day f then None
          else Some (date_time (int (f_year f)) (f_month f) (f_day f) (f_hour f) (f_min f)
                 (f_sec f) (f_nsec f) (f_off f))
      | _ \<Rightarrow> None)"

definition date_parts :: "layout_part list" where
  "date_parts = [Year4, Lit ''-'', Month2, Lit ''-'', Day2]"

definition clock_parts :: "layout_part list" where
  "clock_parts = [Hour, Lit '':'', Minute2, Lit '':'', Second2]"

definition RFC3339 :: "layout_part list" where
  "RFC3339 = date_parts @ [Lit ''T''] @ clock_parts @ [Zone]"

definition RFC3339Nano :: "layout_part list" where
  "RFC3339Nano = date_parts @ [Lit ''T''] @ clock_parts @ [Frac9, Zone]"

section \<open>Formatting\<close>

definition year_of_day :: "int \<Rightarrow> int" where
  "year_of_day n =
     (let y = n * 400 div 146097 in
      if n < days_before_year y then y - 1
      else if days_before_year (y + 1) \<le> n then y + 1 else y)"

definition month_of_day :: "nat \<Rightarrow> int \<Rightarrow> nat" where
  "month_of_day k y =
     (case find (\<lambda>m. k < days_before_month (m + 1) y) [1..<12] of Some m \<Rightarrow> m | None \<Rightarrow> 12)"

definition civil :: "int \<Rightarrow> int \<times> nat \<times> nat" where
  "civil n =
     (let y = year_of_day (n + 719528);
          k = nat (n + 719528 - days_before_year y);
          m = month_of_day k y in
      (y, m, k - days_before_month m y + 1))"

text \<open>Zero-padded decimal, and a year, which is negative before year 0.\<close>

definition padded :: "nat \<Rightarrow> nat \<Rightarrow> string" where
  "padded w n = replicate (w - length (format_nat 10 n)) CHR ''0'' @ format_nat 10 n"

definition padded_year :: "int \<Rightarrow> string" where
  "padded_year y = (if y < 0 then ''-'' @ padded 4 (nat (- y)) else padded 4 (nat y))"

definition format_date :: "gotime \<Rightarrow> string" where
  "format_date t =
     (case civil (unix_sec t div 86400) of (y, m, d) \<Rightarrow>
        padded_year y @ ''-'' @ padded 2 m @ ''-'' @ padded 2 d)"

definition format_clock :: "gotime \<Rightarrow> string" where
  "format_clock t =
     (let k = nat (unix_sec t mod 86400) in
      padded 2 (k div 3600) @ '':'' @ padded 2 (k div 60 mod 60) @ '':'' @ padded 2 (k mod 60))"

definition format_fraction :: "nat \<Rightarrow> string" where
  "format_fraction n =
     (let ds = rev (dropWhile (\<lambda>c. c = CHR ''0'') (rev (padded 9 n))) in
      if ds = [] then [] else ''.'' @ ds)"

definition format_RFC3339 :: "gotime \<Rightarrow> string" where
  "format_RFC3339 t = format_date t @ ''T'' @ format_clock t @ ''Z''"

definition format_RFC3339Nano :: "gotime \<Rightarrow> string" where
  "format_RFC3339Nano t = format_date t @ ''T'' @ format_clock t @ format_fraction (nsec t) @ ''Z''"

section \<open>Digits\<close>

lemma is_digit_digit_char: "d < 10 \<Longrightarrow> is_digit (digit_char d) \<and> dig (digit_char d) = d"
  by (simp add: is_digit_def dig_def digit_char_def)

lemma dec_val_append: "dec_val (s @ t) = dec_val s * 10 ^ length t + dec_val t"
proof -
  have f: "foldl (\<lambda>n c. n * 10 + dig c) a t = a * 10 ^ length t + dec_val t" for a
    unfolding dec_val_def
  proof (induction t rule: rev_induct)
    case (snoc x xs)
    then show ?case by (simp add: algebra_simps)
  qed simp
  have "dec_val (s @ t) = foldl (\<lambda>n c. n * 10 + dig c) (dec_val s) t" by (simp add: dec_val_def)
  then show ?thesis by (simp only: f)
qed

lemma dec_val_zeros: "dec_val (replicate k CHR ''0'') = 0"
  by (induction k) (simp_all add: dec_val_def dig_def)

lemma dec_val_format_nat: "dec_val (format_nat 10 n) = n"
proof (induction n rule: less_induct)
  case (less n)
  have "dec_val [c] = dig c" for c by (simp add: dec_val_def)
  then show ?case using less.IH [of "n div 10"]
    by (simp add: format_nat.simps [of 10 n] dec_val_append is_digit_digit_char)
qed

lemma format_nat_digits: "list_all is_digit (format_nat 10 n)"
proof (induction n rule: less_induct)
  case (less n)
  then show ?case by (simp add: format_nat.simps [of 10 n] is_digit_digit_char)
qed

lemma format_nat_length: "n < 10 ^ w \<Longrightarrow> 0 < w \<Longrightarrow> length (format_nat 10 n) \<le> w"
proof (induction w arbitrary: n)
  case (Suc w)
  show ?case
  proof (cases "n < 10")
    case False
    then have "n div 10 < 10 ^ w" "0 < w" using Suc.prems by (auto intro: Nat.gr0I)
    then show ?thesis using Suc.IH by (simp add: format_nat.simps [of 10 n])
  qed (simp add: format_nat.simps [of 10 n])
qed simp

lemma padded_digits:
  assumes "n < 10 ^ w" "0 < w"
  shows "length (padded w n) = w \<and> list_all is_digit (padded w n) \<and> dec_val (padded w n) = n"
proof -
  have "list_all is_digit (replicate k CHR ''0'')" for k
    by (induction k) (simp_all add: is_digit_def)
  then show ?thesis using format_nat_length [OF assms]
    by (simp add: padded_def format_nat_digits dec_val_append dec_val_zeros dec_val_format_nat)
qed

lemma getnum_padded: "n < 100 \<Longrightarrow> getnum (padded 2 n @ r) fixed = Some (n, r)"
proof -
  assume "n < 100"
  then have p: "length (padded 2 n) = 2" "list_all is_digit (padded 2 n)" "dec_val (padded 2 n) = n"
    using padded_digits [of n 2] by auto
  then obtain a b where "padded 2 n = [a, b]"
    by (auto simp: numeral_2_eq_2 length_Suc_conv)
  then show ?thesis using p by (simp add: dec_val_def)
qed

lemma takeWhile_digits: "list_all is_digit ds \<Longrightarrow> takeWhile is_digit (ds @ ''Z'') = ds"
proof (induction ds)
  case Nil
  have "\<not> is_digit CHR ''Z''" by (simp add: is_digit_def)
  then show ?case by simp
qed simp

lemma fraction_format:
  assumes "n < 1000000000"
  shows "fraction (format_fraction n @ ''Z'') = (n, ''Z'')"
proof -
  let ?p = "padded 9 n"
  let ?z = "\<lambda>c. c = CHR ''0''"
  define ds where "ds = rev (dropWhile ?z (rev ?p))"
  have p: "length ?p = 9" "list_all is_digit ?p" "dec_val ?p = n"
    using padded_digits [of n 9] assms by simp_all
  define k where "k = length (takeWhile ?z (rev ?p))"
  have "takeWhile ?z (rev ?p) = replicate k CHR ''0''"
    unfolding k_def by (intro replicate_eqI [OF refl]) (blast dest: set_takeWhileD)
  then have split: "?p = ds @ replicate k CHR ''0''"
    unfolding ds_def by (metis rev_append rev_replicate rev_rev_ident takeWhile_dropWhile_id)
  then have len: "length ds + k = 9" and dig: "list_all is_digit ds"
    and val: "dec_val ds * 10 ^ k = n"
    using p by (auto simp: dec_val_append dec_val_zeros dest: arg_cong [of _ _ length])
  have f: "format_fraction n = (if ds = [] then [] else ''.'' @ ds)"
    by (simp add: format_fraction_def ds_def Let_def)
  show ?thesis
  proof (cases ds)
    case Nil
    then show ?thesis using val f by (simp add: fraction_def dec_val_def)
  next
    case (Cons c cs)
    have "takeWhile is_digit (ds @ ''Z'') = ds" by (rule takeWhile_digits [OF dig])
    then have "takeWhile is_digit (c # cs @ ''Z'') = c # cs" by (simp add: Cons)
    moreover have "9 - length (c # cs) = k" "take 9 (c # cs) = c # cs" using len Cons by auto
    ultimately show ?thesis using f dig val Cons by (simp add: fraction_def)
  qed
qed

section \<open>The calendar is consistent\<close>

lemma ceil_div:
  fixes y k :: int
  assumes k: "0 < k" "j + 1 = k"
  shows "(y + j) div k = y div k + (if y mod k = 0 then 0 else 1)"
proof -
  let ?r = "y mod k"
  have r: "0 \<le> ?r" "?r < k" using k pos_mod_sign [of k y] pos_mod_bound [of k y] by simp_all
  have "(y + j) div k = (?r + j + k * (y div k)) div k"
    using mult_div_mod_eq [of k y] by (simp add: algebra_simps)
  also have "\<dots> = y div k + (?r + j) div k" using k by (simp only: div_mult_self2)
  also have "(?r + j) div k = (if ?r = 0 then 0 else 1)"
  proof (cases "?r = 0")
    case True
    then show ?thesis using r k by (simp add: div_pos_pos_trivial)
  next
    case False
    then have "(?r + j) div k = 1"
      using r k by (intro int_div_pos_eq [of _ _ _ "?r - 1"]) linarith+
    then show ?thesis using False by simp
  qed
  finally show ?thesis .
qed

lemma year_length: "days_before_year (y + 1) = days_before_year y + (if is_leap y then 366 else 365)"
proof -
  have c: "(y + 3) div 4 = y div 4 + (if y mod 4 = 0 then 0 else 1)"
    "(y + 99) div 100 = y div 100 + (if y mod 100 = 0 then 0 else 1)"
    "(y + 399) div 400 = y div 400 + (if y mod 400 = 0 then 0 else 1)"
    by (rule ceil_div; simp)+
  have s: "(y + 1 + 3) div 4 = y div 4 + 1" "(y + 1 + 99) div 100 = y div 100 + 1"
    "(y + 1 + 399) div 400 = y div 400 + 1"
    using div_add_self2 [of 4 y] div_add_self2 [of 100 y] div_add_self2 [of 400 y]
    by (simp_all add: add.assoc)
  have "y mod 400 = 0 \<Longrightarrow> y mod 100 = 0" "y mod 100 = 0 \<Longrightarrow> y mod 4 = 0"
    by (simp_all only: mod_eq_0_iff_dvd) (erule dvd_trans [rotated], simp)+
  then show ?thesis unfolding days_before_year_def c s is_leap_def by auto
qed

lemma days_before_year_bounds:
  "146097 * y - 400 \<le> 400 * days_before_year y \<and> 400 * days_before_year y \<le> 146097 * y + 800"
proof -
  define a b c where "a = (y + 3) div 4" and "b = (y + 99) div 100" and "c = (y + 399) div 400"
  have "4 * a \<le> y + 3" "y \<le> 4 * a" "100 * b \<le> y + 99" "y \<le> 100 * b"
    "400 * c \<le> y + 399" "y \<le> 400 * c"
    unfolding a_def b_def c_def by linarith+
  then show ?thesis
    unfolding days_before_year_def a_def [symmetric] b_def [symmetric] c_def [symmetric]
    by simp
qed

lemma year_of_day:
  "days_before_year (year_of_day n) \<le> n \<and> n < days_before_year (year_of_day n + 1)"
proof -
  define y where "y = n * 400 div 146097"
  have y: "146097 * y \<le> n * 400" "n * 400 < 146097 * y + 146097"
    unfolding y_def by linarith+
  have "days_before_year (y - 1) \<le> n" using y days_before_year_bounds [of "y - 1"] by simp
  moreover have "n < days_before_year (y + 2)" using y days_before_year_bounds [of "y + 2"] by simp
  ultimately show ?thesis by (simp add: year_of_day_def add.commute flip: y_def)
qed

lemma days_before_month_Suc: "0 < m \<Longrightarrow> days_before_month (Suc m) y = days_before_month m y + days_in m y"
  by (simp add: days_before_month_def)

lemma days_before_month_1: "days_before_month (Suc 0) y = 0"
  by (simp add: days_before_month_def)

lemma days_in_year: "days_before_month 13 y = (if is_leap y then 366 else 365)"
  by (simp add: days_before_month_def days_in_def upt_rec)

lemma month_of_day_bounds:
  assumes "k < days_before_month 13 y"
  defines "m \<equiv> month_of_day k y"
  shows "1 \<le> m \<and> m \<le> 12 \<and> k < days_before_month (Suc m) y \<and>
    (\<forall>j. 1 \<le> j \<and> j < m \<longrightarrow> days_before_month (Suc j) y \<le> k)"
proof (cases "find (\<lambda>m. k < days_before_month (m + 1) y) [1..<12]")
  case None
  have "m = 12" unfolding m_def month_of_day_def None by simp
  moreover have "\<forall>j \<in> {1..<12}. days_before_month (Suc j) y \<le> k"
    using None by (auto simp: find_None_iff not_less)
  ultimately show ?thesis using assms(1) by auto
next
  case (Some x)
  then obtain i where i: "i < 11" "k < days_before_month (Suc (Suc i)) y" "x = Suc i"
    "\<forall>j < i. \<not> k < days_before_month (Suc (Suc j)) y"
    by (auto simp: find_Some_iff)
  moreover have "m = Suc i" unfolding m_def month_of_day_def Some using i by simp
  ultimately show ?thesis by (auto simp: not_less Suc_le_eq gr0_conv_Suc)
qed

lemma month_of_day:
  assumes "k < days_before_month 13 y"
  defines "m \<equiv> month_of_day k y"
  shows "1 \<le> m \<and> m \<le> 12 \<and> days_before_month m y \<le> k \<and> k < days_before_month m y + days_in m y"
proof -
  have r: "1 \<le> m" "m \<le> 12" "k < days_before_month (Suc m) y"
    and low: "1 \<le> j \<Longrightarrow> j < m \<Longrightarrow> days_before_month (Suc j) y \<le> k" for j
    using month_of_day_bounds [OF assms(1)] by (auto simp: m_def)
  have "days_before_month m y \<le> k"
  proof (cases "m = 1")
    case False
    then show ?thesis using low [of "m - 1"] r by simp
  qed (simp add: days_before_month_1)
  then show ?thesis using r days_before_month_Suc [of m y] by simp
qed

lemma civil_ok:
  assumes "civil n = (y, m, d)"
  shows "1 \<le> m \<and> m \<le> 12 \<and> 1 \<le> d \<and> d \<le> days_in m y \<and> epoch_days y m d = n"
proof -
  let ?n = "n + 719528"
  have y: "year_of_day ?n = y" using assms by (simp add: civil_def Let_def)
  define k where "k = nat (?n - days_before_year y)"
  have m: "m = month_of_day k y" and d: "d = k - days_before_month m y + 1"
    using assms unfolding civil_def Let_def y k_def [symmetric] by auto
  have b: "days_before_year y \<le> ?n" "?n < days_before_year y + (if is_leap y then 366 else 365)"
    using year_of_day [of ?n] year_length [of y] unfolding y by simp_all
  then have "k < days_before_month 13 y" unfolding k_def days_in_year by auto
  from month_of_day [OF this] have mk: "1 \<le> m" "m \<le> 12" "days_before_month m y \<le> k"
    "k < days_before_month m y + days_in m y"
    by (simp_all add: m)
  moreover have "int k = ?n - days_before_year y" using b by (simp add: k_def)
  ultimately show ?thesis by (simp add: d epoch_days_def)
qed

section \<open>Reading back what was written\<close>

lemma skip_lit [simp]: "c \<noteq> CHR '' '' \<Longrightarrow> skip [c] (c # s) = Some s"
  by (simp add: skip.simps)

lemma parse_year: "n < 10000 \<Longrightarrow>
    parse_parts (Year4 # ps) (padded 4 n @ r) f = parse_parts ps r (f\<lparr>f_year := n\<rparr>)"
  using padded_digits [of n 4] by simp

lemma zone_Z: "zone ''Z'' = Some (0, [])"
  by (simp add: zone_def)

lemma days_in_less: "days_in m y < 100"
  by (simp add: days_in_def)

definition year_in_range :: "gotime \<Rightarrow> bool" where
  "year_in_range t \<longleftrightarrow> (let y = fst (civil (unix_sec t div 86400)) in 0 \<le> y \<and> y < 10000)"

lemma time_Parse_format:
  assumes t: "time_ok t" "year_in_range t"
  shows "time_Parse RFC3339Nano (format_RFC3339Nano t) = Some t"
proof -
  obtain y m d where c: "civil (unix_sec t div 86400) = (y, m, d)" by (metis prod_cases3)
  have yr: "0 \<le> y" "y < 10000" using t(2) c by (simp_all add: year_in_range_def)
  have md: "1 \<le> m" "m \<le> 12" "1 \<le> d" "d \<le> days_in m y" "epoch_days y m d = unix_sec t div 86400"
    using civil_ok [OF c] by auto
  define k where "k = nat (unix_sec t mod 86400)"
  have k: "int k = unix_sec t mod 86400" "k < 86400"
    unfolding k_def by (simp_all add: nat_less_iff)
  have hms: "\<not> 24 \<le> k div 3600" "\<not> 60 \<le> k div 60 mod 60" "\<not> 60 \<le> k mod 60"
    "k div 3600 < 100" "k div 60 mod 60 < 100" "k mod 60 < 100"
    using k(2) less_mult_imp_div_less [of k 24 3600] mod_less_divisor [of 60 "k div 60"]
      mod_less_divisor [of 60 k] by linarith+
  have sum: "k div 3600 * 3600 + k div 60 mod 60 * 60 + k mod 60 = k"
  proof -
    have "k div 3600 = k div 60 div 60" by (simp only: div_mult2_eq [symmetric]) simp
    then show ?thesis using div_mult_mod_eq [of k 60] div_mult_mod_eq [of "k div 60" 60] by linarith
  qed
  have d: "d < 100" using md(4) days_in_less [of m y] by simp
  have sec: "unix_sec t div 86400 * 86400 + int k = unix_sec t"
    using div_mult_mod_eq [of "unix_sec t" 86400] k(1) by simp
  have y: "nat y < 10000" "int (nat y) = y" "padded_year y = padded 4 (nat y)"
    using yr by (simp_all add: padded_year_def)
  have ns: "fraction (format_fraction (nsec t) @ ''Z'') = (nsec t, ''Z'')"
    using t(1) fraction_format by (simp add: time_ok_def)
  show ?thesis
    using md hms d y(1,2) ns
    by (simp add: time_Parse_def RFC3339Nano_def date_parts_def clock_parts_def
        format_RFC3339Nano_def format_date_def format_clock_def c y(3) Let_def parse_year
        getnum_padded zone_Z date_time_def no_fields_def sum sec del: parse_parts.simps(3) flip: k_def)
qed

lemma time_Parse_second:
  assumes "nsec t = 0" "year_in_range t"
  shows "format_RFC3339Nano t = format_RFC3339 t"
proof -
  have "char_of (48 :: nat) = CHR ''0''" by (rule of_char_eq_iff [where 'a = nat, THEN iffD1]) simp
  then have "format_nat 10 0 = ''0''" by (simp add: format_nat.simps [of 10 0] digit_char_def)
  then have "format_fraction 0 = []" by (simp add: format_fraction_def padded_def numeral_eq_Suc)
  then show ?thesis using assms(1) by (simp add: format_RFC3339Nano_def format_RFC3339_def)
qed

end
