(* ===== verification/Cee_Codes.thy ===== *)
theory Cee_Codes
  imports Go_Strings Go_Strconv Go_Time
begin

text \<open>
  The numeric codes of \<^verbatim>\<open>pkg/parser/checkevent.go\<close>: \<^verbatim>\<open>parseCEENum\<close>, the event table, the
  protocol table and the packed timestamp.
\<close>

section \<open>The source\<close>

definition unmappedCEEPrefix :: string where
  "unmappedCEEPrefix = ''CEPP_CEE_UNMAPPED_''"

definition ceeEventType :: "(nat \<times> string) list" where
  "ceeEventType =
     [(0x000001, ''CEPP_OPEN_FILE_NOACCESS''),
      (0x000002, ''CEPP_OPEN_FILE_READ''),
      (0x000004, ''CEPP_OPEN_FILE_WRITE''),
      (0x000008, ''CEPP_CREATE_FILE''),
      (0x000010, ''CEPP_CREATE_DIRECTORY''),
      (0x000020, ''CEPP_DELETE_FILE''),
      (0x000040, ''CEPP_DELETE_DIRECTORY''),
      (0x000080, ''CEPP_CLOSE_MODIFIED''),
      (0x000100, ''CEPP_CLOSE_UNMODIFIED''),
      (0x000200, ''CEPP_RENAME_FILE''),
      (0x000400, ''CEPP_RENAME_DIRECTORY''),
      (0x000800, ''CEPP_SETACL_FILE''),
      (0x001000, ''CEPP_SETACL_DIRECTORY''),
      (0x002000, ''CEPP_OPEN_DIRECTORY''),
      (0x004000, ''CEPP_CLOSE_DIRECTORY''),
      (0x008000, ''CEPP_FILE_READ''),
      (0x010000, ''CEPP_FILE_WRITE''),
      (0x020000, ''CEPP_SETSEC_FILE''),
      (0x040000, ''CEPP_SETSEC_DIRECTORY''),
      (0x080000, ''CEPP_OPEN_FILE_READ''),
      (0x100000, ''CEPP_OPEN_FILE_WRITE'')]"

definition parseCEENum :: "string \<Rightarrow> nat \<Rightarrow> go_error + u64" where
  "parseCEENum raw unprefixedBase =
     (let s = TrimSpace raw in
      if s = [] then Inl ErrEmptyValue
      else case (if starts_with ''0x'' s \<or> starts_with ''0X'' s
                 then ParseUint (drop 2 s) 16 else ParseUint s unprefixedBase) of
             (n, None) \<Rightarrow> Inr n
           | (n, Some e) \<Rightarrow> Inl ErrNumber)"

definition parseCEEHex :: "string \<Rightarrow> go_error + u64" where
  "parseCEEHex raw = parseCEENum raw 16"

definition ceeEventTypeName :: "string \<Rightarrow> string" where
  "ceeEventTypeName raw =
     (case parseCEEHex raw of
        Inl err \<Rightarrow> unmappedCEEPrefix @ ''INVALID''
      | Inr n \<Rightarrow>
          (case map_of ceeEventType (unat n) of
             Some name \<Rightarrow> name
           | None \<Rightarrow> unmappedCEEPrefix @ FormatUint10 n))"

definition IsUnmappedCEEEventType :: "string \<Rightarrow> bool" where
  "IsUnmappedCEEEventType eventType = starts_with unmappedCEEPrefix eventType"

definition ceeTimestamp :: "string \<Rightarrow> gotime \<Rightarrow> gotime" where
  "ceeTimestamp raw fallback =
     (let s = TrimSpace raw in
      if s = [] then fallback
      else case parseCEENum s 10 of
             Inl err \<Rightarrow> fallback
           | Inr n \<Rightarrow>
               if n = 0 then fallback
               else let n' = (if 0xFFFFFFFF < n then drop_bit 32 n else n) in
                    Unix (sint n') 0)"

definition ceeProtocolNames :: "(nat \<times> string) list" where
  "ceeProtocolNames = [(0, ''CIFS''), (1, ''NFS''), (2, ''FTP''), (3, ''Unknown'')]"

definition ceeProtocolName :: "string \<Rightarrow> string" where
  "ceeProtocolName raw =
     (case parseCEENum raw 10 of
        Inl err \<Rightarrow> ''Unknown''
      | Inr n \<Rightarrow>
          (case map_of ceeProtocolNames (unat n) of Some name \<Rightarrow> name | None \<Rightarrow> ''Unknown''))"

section \<open>Lemmas\<close>

text \<open>The names of the event table are bits: entry \<open>k\<close> is code \<open>2 ^ k\<close>.\<close>

lemma ceeEventType_bits: "map fst ceeEventType = map (\<lambda>k. 2 ^ k) [0..<21]"
  by (simp add: ceeEventType_def upt_rec)

lemma ceeEventType_distinct: "distinct (map fst ceeEventType)"
  by (simp add: ceeEventType_def)

lemma ceeEventType_mapped: "map_of ceeEventType k = Some name \<Longrightarrow> \<not> IsUnmappedCEEEventType name"
  by (drule map_of_SomeD)
     (auto simp: ceeEventType_def IsUnmappedCEEEventType_def unmappedCEEPrefix_def)

lemma ceeEventType_domain: "map_of ceeEventType n \<noteq> None \<longleftrightarrow> (\<exists>k < 21. n = 2 ^ k)"
proof -
  have "map_of ceeEventType n \<noteq> None \<longleftrightarrow> n \<in> set (map fst ceeEventType)"
    by (simp add: map_of_eq_None_iff)
  then show ?thesis unfolding ceeEventType_bits by auto
qed

text \<open>A value printed the way CEE prints it is read back: hexadecimal after \<open>0x\<close>.\<close>

lemma hex_digits_nonspace: "d < 16 \<Longrightarrow> ascii_nonspace (digit_char d)"
  by (auto simp: ascii_nonspace_def digit_char_def)

lemma format_nat_nonspace:
  "2 \<le> base \<Longrightarrow> base \<le> 16 \<Longrightarrow> list_all ascii_nonspace (format_nat base n)"
proof (induction base n rule: format_nat.induct)
  case (1 base n)
  have "n mod base < base" using "1.prems" by simp
  then have "n mod base < 16" using "1.prems"(2) by linarith
  then show ?case using 1 by (subst format_nat.simps) (auto simp: hex_digits_nonspace)
qed

lemma list_all_last: "list_all P s \<Longrightarrow> s \<noteq> [] \<Longrightarrow> P (last s)"
  by (simp add: list_all_iff)

lemma list_all_hd: "list_all P s \<Longrightarrow> s \<noteq> [] \<Longrightarrow> P (hd s)"
  by (cases s) simp_all

lemma unat_of_nat64: "n < 2 ^ 64 \<Longrightarrow> unat (of_nat n :: u64) = n"
  by (simp add: unat_of_nat)

lemma uint_of_nat64: "n < 2 ^ 64 \<Longrightarrow> uint (of_nat n :: u64) = int n"
  by (simp add: uint_nat unat_of_nat64)

lemma parseCEENum_hex:
  assumes "n < 2 ^ 64"
  shows "parseCEENum (''0x'' @ format_nat 16 n) base = Inr (of_nat n)"
proof -
  have ns: "list_all ascii_nonspace (''0x'' @ format_nat 16 n)"
    using format_nat_nonspace [of 16 n] by (simp add: ascii_nonspace_def)
  have "TrimSpace (''0x'' @ format_nat 16 n) = ''0x'' @ format_nat 16 n"
    using list_all_hd [OF ns] list_all_last [OF ns] by (intro TrimSpace_id) simp_all
  then show ?thesis using assms by (simp add: parseCEENum_def Let_def ParseUint_format_nat)
qed

lemma parseCEENum_dec:
  assumes "n < 2 ^ 64"
  shows "parseCEENum (format_nat 10 n) 10 = Inr (of_nat n)"
proof -
  have ns: "list_all ascii_nonspace (format_nat 10 n)" using format_nat_nonspace [of 10 n] by simp
  have "TrimSpace (format_nat 10 n) = format_nat 10 n"
    using list_all_hd [OF ns] list_all_last [OF ns] by (intro TrimSpace_id) simp_all
  moreover have "\<not> starts_with ''0x'' (format_nat 10 n)" "\<not> starts_with ''0X'' (format_nat 10 n)"
    using format_nat_digits [of n] by (auto simp: starts_with_iff is_digit_def)
  ultimately show ?thesis using assms by (simp add: parseCEENum_def Let_def ParseUint_format_nat)
qed

lemma ceeEventTypeName_hex:
  assumes "n < 2 ^ 64"
  shows "ceeEventTypeName (''0x'' @ format_nat 16 n) =
    (case map_of ceeEventType n of Some name \<Rightarrow> name | None \<Rightarrow> unmappedCEEPrefix @ format_nat 10 n)"
proof -
  have "unat (of_nat n :: u64) = n" using assms by (simp add: unat_of_nat64)
  then show ?thesis using parseCEENum_hex [OF assms, of 16]
    by (simp add: ceeEventTypeName_def parseCEEHex_def FormatUint10_def split: option.split)
qed

lemma signed_take_bit_small: "0 \<le> x \<Longrightarrow> x < 2 ^ 63 \<Longrightarrow> signed_take_bit 63 x = x" for x :: int
  by (rule signed_take_bit_int_eq_self) simp_all

lemma ceeTimestamp_value:
  assumes "parseCEENum (TrimSpace raw) 10 = Inr n" "TrimSpace raw \<noteq> []" "n \<noteq> 0"
  shows "ceeTimestamp raw fb = Unix (if 2 ^ 32 \<le> uint n then uint n div 2 ^ 32 else uint n) 0"
proof -
  have "0xFFFFFFFF < n \<longleftrightarrow> (0xFFFFFFFF :: int) < uint n" by (simp add: word_less_alt)
  moreover have "(0xFFFFFFFF :: int) < uint n \<longleftrightarrow> 2 ^ 32 \<le> uint n" by auto
  ultimately have big: "0xFFFFFFFF < n \<longleftrightarrow> 2 ^ 32 \<le> uint n" by (rule trans)
  have "uint n < 2 ^ 64" using uint_bounded [of n] by simp
  then have b2: "uint n div 2 ^ 32 < 2 ^ 63" by auto
  have b1: "0 \<le> uint n div 2 ^ 32" by (simp add: pos_imp_zdiv_nonneg_iff)
  have "uint (drop_bit 32 n) = uint n div 2 ^ 32"
    by (simp add: drop_bit_eq_div uint_div)
  then have "sint (drop_bit 32 n) = uint n div 2 ^ 32"
    using signed_take_bit_small [OF b1 b2] by (simp add: sint_uint)
  moreover have "uint n < 2 ^ 32 \<Longrightarrow> sint n = uint n"
    by (simp add: sint_uint signed_take_bit_small)
  ultimately show ?thesis using assms big by (auto simp: ceeTimestamp_def Let_def)
qed

section \<open>Properties\<close>

text \<open>Every event code CEE can send, printed as CEE prints it, is either one of the
  twenty-one single-bit codes of the table and resolves to its documented name, or it
  resolves to an explicitly unmapped label from which the code can be read back.  No
  code is silently given a name it does not have.\<close>

theorem ceeEventTypeName_codes:
  assumes "n < 2 ^ 64"
  shows "if \<exists>k < 21. n = 2 ^ k
    then map_of ceeEventType n = Some (ceeEventTypeName (''0x'' @ format_nat 16 n)) \<and>
         \<not> IsUnmappedCEEEventType (ceeEventTypeName (''0x'' @ format_nat 16 n))
    else IsUnmappedCEEEventType (ceeEventTypeName (''0x'' @ format_nat 16 n)) \<and>
         ParseUint (drop (length unmappedCEEPrefix) (ceeEventTypeName (''0x'' @ format_nat 16 n))) 10
           = (of_nat n, None)"
  using ceeEventTypeName_hex [OF assms] ceeEventType_domain [of n] ceeEventType_mapped [of n] assms
  by (cases "map_of ceeEventType n")
     (auto simp: IsUnmappedCEEEventType_def ParseUint_format_nat)

theorem ceeEventTypeName_codes_witness:
  "ceeEventTypeName (''0x'' @ format_nat 16 2048) = ''CEPP_SETACL_FILE'' \<and>
   IsUnmappedCEEEventType (ceeEventTypeName (''0x'' @ format_nat 16 3))"
proof
  have "\<exists>k < 21. (2048 :: nat) = 2 ^ k" by (rule exI [of _ 11]) simp
  then show "ceeEventTypeName (''0x'' @ format_nat 16 2048) = ''CEPP_SETACL_FILE''"
    using ceeEventTypeName_codes [of 2048] by (simp add: ceeEventType_def)
  have "\<not> (\<exists>k < 21. (3 :: nat) = 2 ^ k)"
  proof
    assume "\<exists>k < 21. (3 :: nat) = 2 ^ k"
    then obtain k where "(3 :: nat) = 2 ^ k" by blast
    then show False by (cases k) (simp_all, presburger)
  qed
  moreover have "(3 :: nat) < 2 ^ 64" by simp
  ultimately show "IsUnmappedCEEEventType (ceeEventTypeName (''0x'' @ format_nat 16 3))"
    using ceeEventTypeName_codes [of 3] by presburger
qed

text \<open>Whatever stands in the timestamp attribute, the result is the receive time or a
  whole second inside the 32-bit epoch range: neither a packed value nor an absurd plain
  one can date a record before 1970 or after 2106.\<close>

theorem ceeTimestamp_in_range:
  "ceeTimestamp raw fb = fb \<or>
   (\<exists>s. ceeTimestamp raw fb = mk_time s 0 \<and> 1 \<le> s \<and> s < 2 ^ 32)"
proof (cases "parseCEENum (TrimSpace raw) 10")
  case (Inl e)
  then show ?thesis by (simp add: ceeTimestamp_def Let_def)
next
  case (Inr n)
  show ?thesis
  proof (cases "TrimSpace raw = [] \<or> n = 0")
    case True
    then show ?thesis using Inr by (auto simp: ceeTimestamp_def Let_def)
  next
    case False
    define s where "s = (if 2 ^ 32 \<le> uint n then uint n div 2 ^ 32 else uint n)"
    have "ceeTimestamp raw fb = mk_time s 0"
      using ceeTimestamp_value [OF Inr] False by (simp add: s_def Unix_def)
    moreover have "1 \<le> s \<and> s < 2 ^ 32"
    proof -
      have "0 < uint n" using False by (simp add: word_less_alt [of 0 n, simplified, symmetric] word_neq_0_conv)
      moreover have "uint n < 2 ^ 64" using uint_bounded [of n] by simp
      ultimately show ?thesis by (auto simp: s_def)
    qed
    ultimately show ?thesis by blast
  qed
qed

text \<open>The two forms of the timestamp agree: a packed value, the epoch second in its
  high word and anything in its low word, denotes the same instant as that second in
  plain decimal, over the whole 32-bit range of seconds (so also after 2038, when bit 63
  of the packed value is set).\<close>

theorem ceeTimestamp_packed:
  assumes "0 < s" "s < 2 ^ 32" "w < 2 ^ 32"
  shows "ceeTimestamp (''0x'' @ format_nat 16 (s * 2 ^ 32 + w)) fb = mk_time (int s) 0 \<and>
    ceeTimestamp (format_nat 10 s) fb = mk_time (int s) 0"
proof
  have trim: "TrimSpace x = x" if "list_all ascii_nonspace x" "x \<noteq> []" for x
    using that list_all_hd list_all_last TrimSpace_id by blast
  let ?n = "s * 2 ^ 32 + w"
  have lt: "?n < 2 ^ 64" using assms by simp
  have u: "uint (of_nat ?n :: u64) = int ?n" using lt by (rule uint_of_nat64)
  have ns: "list_all ascii_nonspace (''0x'' @ format_nat 16 ?n)"
    using format_nat_nonspace [of 16 ?n] by (simp add: ascii_nonspace_def)
  have "(of_nat ?n :: u64) \<noteq> 0" using u assms(1) by (metis uint_0_eq of_nat_eq_0_iff add_is_0 mult_is_0 power_not_zero zero_neq_numeral not_less_zero)
  then have "ceeTimestamp (''0x'' @ format_nat 16 ?n) fb = Unix (int ?n div 2 ^ 32) 0"
    using ceeTimestamp_value [of "''0x'' @ format_nat 16 ?n" "of_nat ?n" fb] parseCEENum_hex [OF lt, of 10]
      trim [OF ns] u assms(1) by (simp del: of_nat_add)
  moreover have "int ?n div 2 ^ 32 = int s" using assms(3) by simp
  ultimately show "ceeTimestamp (''0x'' @ format_nat 16 ?n) fb = mk_time (int s) 0" by (simp add: Unix_def)
  have us: "uint (of_nat s :: u64) = int s" using assms(2) by (intro uint_of_nat64) simp
  have "(of_nat s :: u64) \<noteq> 0" using us assms(1) by auto
  then have "ceeTimestamp (format_nat 10 s) fb = Unix (int s) 0"
    using ceeTimestamp_value [of "format_nat 10 s" "of_nat s" fb] parseCEENum_dec [of s]
      trim [OF format_nat_nonspace [of 10 s]] us assms(2) by simp
  then show "ceeTimestamp (format_nat 10 s) fb = mk_time (int s) 0" by (simp add: Unix_def)
qed

theorem ceeTimestamp_packed_witness:
  "ceeTimestamp (''0x'' @ format_nat 16 (4000000000 * 2 ^ 32 + 554591)) (mk_time 7 0) = mk_time 4000000000 0"
  using ceeTimestamp_packed [of 4000000000 554591 "mk_time 7 0"] by simp

text \<open>A protocol label is never empty, whatever the attribute holds, so it can serve
  as a metric label; an unknown code never merges with a known one.\<close>

theorem ceeProtocolName_label:
  "ceeProtocolName raw \<in> {''CIFS'', ''NFS'', ''FTP'', ''Unknown''}"
  by (auto simp: ceeProtocolName_def ceeProtocolNames_def split: sum.splits option.splits if_splits)

end
