(* ===== verification/Go_Xml.thy ===== *)
theory Go_Xml
  imports Go_Strings Go_Strconv
begin

text \<open>
  The reader of \<^verbatim>\<open>encoding/xml\<close> as \<^verbatim>\<open>xml.Unmarshal\<close> uses it: the strict tokenizer, the
  stack that matches end tags to start tags, and the element tree that the struct
  fields are filled from.  Reading stops at the end of the root element, as
  \<^verbatim>\<open>Decode\<close> does, so what follows the root is not examined.  Every syntax error is one
  value (\<open>None\<close>), because the program only ever asks whether there was one.

  The Unicode tables of letters that may stand in a name are an argument of the reader;
  the ASCII part is written out.
\<close>

section \<open>Characters and names\<close>

record name_tables =
  name_first :: "rune \<Rightarrow> bool"
  name_second :: "rune \<Rightarrow> bool"

definition ascii_tables :: name_tables where
  "ascii_tables = \<lparr>name_first = \<lambda>_. False, name_second = \<lambda>_. False\<rparr>"

definition in_char_range :: "rune \<Rightarrow> bool" where
  "in_char_range r \<longleftrightarrow>
     r = 0x09 \<or> r = 0x0A \<or> r = 0x0D \<or> 0x20 \<le> r \<and> r \<le> 0xD7FF \<or>
     0xE000 \<le> r \<and> r \<le> 0xFFFD \<or> 0x10000 \<le> r \<and> r \<le> 0x10FFFF"

definition xml_chars :: "bytes \<Rightarrow> bool" where
  "xml_chars s \<longleftrightarrow> valid_utf8 s \<and> list_all in_char_range (runes_of s)"

definition is_name_byte :: "char \<Rightarrow> bool" where
  "is_name_byte c \<longleftrightarrow>
     (let n = byte_val c in
      0x80 \<le> n \<or> 65 \<le> n \<and> n \<le> 90 \<or> 97 \<le> n \<and> n \<le> 122 \<or> 48 \<le> n \<and> n \<le> 57 \<or>
      c \<in> {CHR ''_'', CHR '':'', CHR ''.'', CHR ''-''})"

definition first_rune :: "name_tables \<Rightarrow> rune \<Rightarrow> bool" where
  "first_rune nt r \<longleftrightarrow>
     (if r < 0x80 then 65 \<le> r \<and> r \<le> 90 \<or> 97 \<le> r \<and> r \<le> 122 \<or> r = 58 \<or> r = 95
      else name_first nt r)"

definition second_rune :: "name_tables \<Rightarrow> rune \<Rightarrow> bool" where
  "second_rune nt r \<longleftrightarrow>
     (if r < 0x80 then 48 \<le> r \<and> r \<le> 57 \<or> r = 45 \<or> r = 46 else name_second nt r)"

definition isName :: "name_tables \<Rightarrow> bytes \<Rightarrow> bool" where
  "isName nt s \<longleftrightarrow>
     valid_utf8 s \<and>
     (case runes_of s of
        [] \<Rightarrow> False
      | r # rs \<Rightarrow> first_rune nt r \<and> list_all (\<lambda>x. first_rune nt x \<or> second_rune nt x) rs)"

text \<open>A name is read up to the first byte that cannot be in one; the input may not end
  there.\<close>

definition read_name :: "name_tables \<Rightarrow> bytes \<Rightarrow> (bytes \<times> bytes) option" where
  "read_name nt s =
     (let n = takeWhile is_name_byte s; r = dropWhile is_name_byte s in
      if r = [] \<or> \<not> isName nt n then None else Some (n, r))"

type_synonym qname = "string \<times> string"

text \<open>\<^verbatim>\<open>nsname\<close>: prefix and local part, unless one of them is selfc; two colons are an
  error.\<close>

definition split_name :: "bytes \<Rightarrow> qname option" where
  "split_name n =
     (if 1 < length (filter (\<lambda>c. c = CHR '':'') n) then None
      else (let sp = takeWhile (\<lambda>c. c \<noteq> CHR '':'') n; rest = dropWhile (\<lambda>c. c \<noteq> CHR '':'') n in
        if rest = [] \<or> sp = [] \<or> tl rest = [] then Some ([], n) else Some (sp, tl rest)))"

definition read_qname :: "name_tables \<Rightarrow> bytes \<Rightarrow> (qname \<times> bytes) option" where
  "read_qname nt s =
     (case read_name nt s of
        Some (n, r) \<Rightarrow> map_option (\<lambda>q. (q, r)) (split_name n)
      | None \<Rightarrow> None)"

definition xml_space :: "char \<Rightarrow> bool" where
  "xml_space c \<longleftrightarrow> c \<in> {CHR '' '', CHR 0x0D, CHR 0x0A, CHR 0x09}"

abbreviation skip_space :: "bytes \<Rightarrow> bytes" where
  "skip_space s \<equiv> dropWhile xml_space s"

section \<open>Text\<close>

definition base_digit :: "nat \<Rightarrow> char \<Rightarrow> bool" where
  "base_digit base c \<longleftrightarrow>
     (let n = byte_val c in
      48 \<le> n \<and> n \<le> 57 \<or> base = 16 \<and> (97 \<le> n \<and> n \<le> 102 \<or> 65 \<le> n \<and> n \<le> 70))"

definition entity_names :: "(string \<times> char) list" where
  "entity_names =
     [(''lt'', CHR ''<''), (''gt'', CHR ''>''), (''amp'', CHR ''&''),
      (''apos'', CHR 0x27), (''quot'', CHR 0x22)]"

text \<open>What follows an ampersand: the replacement text and the input after the semicolon.\<close>

definition entity :: "bytes \<Rightarrow> (bytes \<times> bytes) option" where
  "entity s =
     (if starts_with ''#'' s then
        (let hex = starts_with ''#x'' s;
             base = (if hex then 16 else 10);
             s' = drop (if hex then 2 else 1) s;
             r = dropWhile (base_digit base) s' in
         if starts_with '';'' r then
           (case ParseUint (takeWhile (base_digit base) s') base of
              (n, None) \<Rightarrow> if unat n \<le> 0x10FFFF then Some (append_rune (unat n), tl r) else None
            | (n, Some e) \<Rightarrow> None)
         else None)
      else
        (let r = dropWhile is_name_byte s in
         if starts_with '';'' r then
           map_option (\<lambda>c. ([c], tl r)) (map_of entity_names (takeWhile is_name_byte s))
         else None))"

lemma length_dropWhile_drop: "length (dropWhile P (drop k s)) \<le> length s"
  using length_dropWhile_le [of P "drop k s"] by simp

lemma entity_shorter: "entity s = Some (t, r) \<Longrightarrow> length r < length s"
proof -
  assume e: "entity s = Some (t, r)"
  have "\<exists>P k. r = tl (dropWhile P (drop k s)) \<and> starts_with '';'' (dropWhile P (drop k s))"
  proof (cases "starts_with ''#'' s")
    case True
    then show ?thesis using e
      unfolding entity_def Let_def
      by (auto split: if_splits prod.splits option.splits)
  next
    case False
    then have "r = tl (dropWhile is_name_byte (drop 0 s))"
      "starts_with '';'' (dropWhile is_name_byte (drop 0 s))"
      using e unfolding entity_def Let_def by (auto split: if_splits)
    then show ?thesis by blast
  qed
  then obtain P k where r: "r = tl (dropWhile P (drop k s))" "starts_with '';'' (dropWhile P (drop k s))"
    by blast
  then have "length r < length (dropWhile P (drop k s))" by (cases "dropWhile P (drop k s)") auto
  then show ?thesis using length_dropWhile_drop [of P k s] by simp
qed

text \<open>
  \<^verbatim>\<open>d.text(quote, cdata)\<close>: \<open>q\<close> is the quote that ends the text (\<open>None\<close> for character
  data), \<open>b0\<close> and \<open>b1\<close> the two bytes read before, \<open>acc\<close> the output, reversed.  At the end
  of the input the text read so far is returned, which every caller but the one of
  character data then rejects.
\<close>

function text_loop ::
  "char option \<Rightarrow> bool \<Rightarrow> char \<Rightarrow> char \<Rightarrow> bytes \<Rightarrow> bytes \<Rightarrow> (bytes \<times> bytes) option" where
  "text_loop q cdata b0 b1 acc [] = (if cdata then None else Some (rev acc, []))"
| "text_loop q cdata b0 b1 acc (b # s) =
     (if q = None \<and> b0 = CHR '']'' \<and> b1 = CHR '']'' \<and> b = CHR ''>'' then
        (if cdata then Some (rev (drop 2 acc), s) else None)
      else if b = CHR ''<'' \<and> \<not> cdata then
        (if q \<noteq> None then None else Some (rev acc, b # s))
      else if q = Some b then Some (rev acc, s)
      else if b = CHR ''&'' \<and> \<not> cdata then
        (case entity s of
           Some (t, r) \<Rightarrow> text_loop q cdata (CHR 0x00) (CHR 0x00) (rev t @ acc) r
         | None \<Rightarrow> None)
      else if b = CHR 0x0D then text_loop q cdata b1 b (CHR 0x0A # acc) s
      else if b1 = CHR 0x0D \<and> b = CHR 0x0A then text_loop q cdata b1 b acc s
      else text_loop q cdata b1 b (b # acc) s)"
  by pat_completeness auto
termination
  by (relation "measure (\<lambda>(q, c, b0, b1, acc, s). length s)")
     (auto dest!: entity_shorter)

definition read_text :: "char option \<Rightarrow> bool \<Rightarrow> bytes \<Rightarrow> (bytes \<times> bytes) option" where
  "read_text q cdata s =
     (case text_loop q cdata (CHR 0x00) (CHR 0x00) [] s of
        Some (t, r) \<Rightarrow> if xml_chars t then Some (t, r) else None
      | None \<Rightarrow> None)"

lemma text_loop_shorter:
  "text_loop q cdata b0 b1 acc s = Some (t, r) \<Longrightarrow>
    length r \<le> length s \<and> (s \<noteq> [] \<and> (hd s \<noteq> CHR ''<'' \<or> cdata) \<longrightarrow> length r < length s)"
proof (induction q cdata b0 b1 acc s rule: text_loop.induct)
  case (2 q cdata b0 b1 acc b s)
  show ?case
  proof (cases "b = CHR ''&'' \<and> \<not> cdata \<and> q \<noteq> Some b")
    case True
    then obtain t' r' where e: "entity s = Some (t', r')"
      using "2.prems" by (auto split: option.splits)
    have "text_loop q cdata (CHR 0x00) (CHR 0x00) (rev t' @ acc) r' = Some (t, r)"
      using "2.prems" True e by auto
    then have "length r \<le> length r'" using "2.IH"(1) True e by auto
    then show ?thesis using entity_shorter [OF e] by simp
  next
    case False
    then show ?thesis using "2.prems" "2.IH"(2-4) by (auto split: if_splits)
  qed
qed (auto split: if_splits)

lemma read_text_shorter:
  "read_text q cdata s = Some (t, r) \<Longrightarrow>
    length r \<le> length s \<and> (s \<noteq> [] \<and> (hd s \<noteq> CHR ''<'' \<or> cdata) \<longrightarrow> length r < length s)"
  unfolding read_text_def by (auto dest: text_loop_shorter split: option.splits if_splits)

lemma read_qname_shorter: "read_qname nt s = Some (n, r) \<Longrightarrow> length r \<le> length s"
  unfolding read_qname_def read_name_def Let_def
  by (auto split: if_splits option.splits simp: length_dropWhile_le)

section \<open>Tokens\<close>

type_synonym attrs = "(qname \<times> string) list"

datatype xtoken =
    StartTok qname attrs bool
  | EndTok qname
  | TextTok bytes
  | OtherTok

text \<open>The attributes of a start tag, up to its \<open>>\<close> (\<open>False\<close>) or \<open>/>\<close> (\<open>True\<close>).\<close>

function read_attrs :: "name_tables \<Rightarrow> attrs \<Rightarrow> bytes \<Rightarrow> ((attrs \<times> bool) \<times> bytes) option" where
  "read_attrs nt acc s0 =
     (let s = skip_space s0 in
      if starts_with ''/'' s then
        (if starts_with ''/>'' s then Some ((rev acc, True), drop 2 s) else None)
      else if starts_with ''>'' s then Some ((rev acc, False), tl s)
      else case read_qname nt s of
        None \<Rightarrow> None
      | Some (n, r) \<Rightarrow>
          (case skip_space r of
             [] \<Rightarrow> None
           | e # r1 \<Rightarrow>
               if e \<noteq> CHR ''='' then None
               else (case skip_space r1 of
                  [] \<Rightarrow> None
                | quote # r2 \<Rightarrow>
                    if quote \<noteq> CHR 0x22 \<and> quote \<noteq> CHR 0x27 then None
                    else (case read_text (Some quote) False r2 of
                       None \<Rightarrow> None
                     | Some (v, r3) \<Rightarrow> read_attrs nt ((n, v) # acc) r3))))"
  by pat_completeness auto
termination
proof (relation "measure (\<lambda>(nt, acc, s). length s)", goal_cases)
  case (2 nt acc s0 s q n r e r1 quote r2 vr v r3)
  have "length s \<le> length s0" "length r \<le> length s" "length (e # r1) \<le> length r"
    "length (quote # r2) \<le> length r1" "length r3 \<le> length r2"
    using 2 read_qname_shorter read_text_shorter length_dropWhile_le by metis+
  then show ?case by simp
qed simp

declare read_attrs.simps [simp del]

lemma read_attrs_shorter: "read_attrs nt acc s = Some (a, r) \<Longrightarrow> length r < length s"
proof (induction nt acc s rule: read_attrs.induct)
  case (1 nt acc s0)
  let ?s = "skip_space s0"
  have s: "length ?s \<le> length s0" by (rule length_dropWhile_le)
  show ?case
  proof (cases "starts_with ''/'' ?s \<or> starts_with ''>'' ?s")
    case True
    then show ?thesis using "1.prems" s
      by (subst (asm) read_attrs.simps) (cases ?s; auto simp: Let_def split: if_splits)
  next
    case False
    then obtain n r1 e r2 quote r3 v r4 where
      q: "read_qname nt ?s = Some (n, r1)" "skip_space r1 = e # r2" "skip_space r2 = quote # r3"
      "read_text (Some quote) False r3 = Some (v, r4)" "e = CHR ''=''"
      "quote = CHR 0x22 \<or> quote = CHR 0x27" "read_attrs nt ((n, v) # acc) r4 = Some (a, r)"
      using "1.prems" by (subst (asm) read_attrs.simps)
        (auto simp: Let_def split: option.splits list.splits if_splits)
    have "length r < length r4"
      using "1.IH" [OF refl _ _ q(1) refl q(2) _ q(3) _ q(4) refl q(7)] False q(5,6) by auto
    moreover have "length r1 \<le> length ?s" "length (e # r2) \<le> length r1"
      "length (quote # r3) \<le> length r2" "length r4 \<le> length r3"
      using q read_qname_shorter read_text_shorter length_dropWhile_le by metis+
    ultimately show ?thesis using s by simp
  qed
qed

text \<open>A processing instruction; an XML declaration must announce version 1.0 and UTF-8,
  since no \<^verbatim>\<open>CharsetReader\<close> is installed.  \<open>proc_inst\<close> looks a pseudo-attribute up.\<close>

fun proc_inst_loop :: "nat \<Rightarrow> string \<Rightarrow> string \<Rightarrow> string" where
  "proc_inst_loop 0 param s = []"
| "proc_inst_loop (Suc n) param s =
     (case index_of param s of
        None \<Rightarrow> []
      | Some k \<Rightarrow>
          (case drop (k + length param) s of
             [] \<Rightarrow> []
           | c # rest \<Rightarrow>
               if c = CHR 0x27 \<or> c = CHR 0x22 then
                 (if c \<in> set rest then takeWhile (\<lambda>x. x \<noteq> c) rest else [])
               else proc_inst_loop n param rest))"

definition proc_inst :: "string \<Rightarrow> string \<Rightarrow> string" where
  "proc_inst param s = proc_inst_loop (length s) (param @ ''='') s"

definition lower_ascii :: "char \<Rightarrow> char" where
  "lower_ascii c = (let n = byte_val c in if 65 \<le> n \<and> n \<le> 90 then char_of (n + 32) else c)"

definition read_pi :: "name_tables \<Rightarrow> bytes \<Rightarrow> (xtoken \<times> bytes) option" where
  "read_pi nt s =
     (case read_name nt s of
        None \<Rightarrow> None
      | Some (target, r) \<Rightarrow>
          (case index_of ''?>'' (skip_space r) of
             None \<Rightarrow> None
           | Some i \<Rightarrow>
               let content = take i (skip_space r);
                   ver = proc_inst ''version'' content;
                   enc = proc_inst ''encoding'' content in
               if target = ''xml'' \<and> (ver \<noteq> [] \<and> ver \<noteq> ''1.0'' \<or>
                    enc \<noteq> [] \<and> map lower_ascii enc \<noteq> ''utf-8'')
               then None
               else Some (OtherTok, drop (i + 2) (skip_space r))))"

definition read_comment :: "bytes \<Rightarrow> (xtoken \<times> bytes) option" where
  "read_comment s =
     (case index_of ''--'' s of
        None \<Rightarrow> None
      | Some i \<Rightarrow>
          let r = drop (i + 2) s in
          if starts_with ''>'' r then Some (OtherTok, tl r) else None)"

function read_directive :: "char option \<Rightarrow> nat \<Rightarrow> bytes \<Rightarrow> bytes option" where
  "read_directive inq d [] = None"
| "read_directive inq d (b # s) =
     (if inq = None \<and> b = CHR ''>'' \<and> d = 0 then Some s
      else if inq = Some b then read_directive None d s
      else if inq \<noteq> None then read_directive inq d s
      else if b = CHR 0x27 \<or> b = CHR 0x22 then read_directive (Some b) d s
      else if b = CHR ''>'' then read_directive None (d - 1) s
      else if b = CHR ''<'' then
        (if starts_with ''!--'' s then
           (case index_of ''-->'' (drop 3 s) of
              None \<Rightarrow> None
            | Some i \<Rightarrow> read_directive None d (drop (i + 6) s))
         else read_directive None (d + 1) s)
      else read_directive None d s)"
  by pat_completeness auto
termination
  by (relation "measure (\<lambda>(q, d, s). length s)") auto

lemma read_directive_shorter: "read_directive inq d s = Some r \<Longrightarrow> length r < length s"
  by (induction inq d s rule: read_directive.induct)
     (auto split: if_splits option.splits simp: less_SucI)

definition cdata_open :: string where
  "cdata_open = ''CDATA[''"

definition raw_token :: "name_tables \<Rightarrow> bytes \<Rightarrow> (xtoken \<times> bytes) option" where
  "raw_token nt s =
     (case s of
        [] \<Rightarrow> None
      | b # s1 \<Rightarrow>
          if b \<noteq> CHR ''<'' then map_option (\<lambda>(t, r). (TextTok t, r)) (read_text None False s)
          else (case s1 of
             [] \<Rightarrow> None
           | c # s2 \<Rightarrow>
               if c = CHR ''/'' then
                 (case read_qname nt s2 of
                    None \<Rightarrow> None
                  | Some (n, r) \<Rightarrow>
                      let r' = skip_space r in
                      if starts_with ''>'' r' then Some (EndTok n, tl r') else None)
               else if c = CHR ''?'' then read_pi nt s2
               else if c = CHR ''!'' then
                 (case s2 of
                    [] \<Rightarrow> None
                  | d # s3 \<Rightarrow>
                      if d = CHR ''-'' then
                        (if starts_with ''-'' s3 then read_comment (tl s3) else None)
                      else if d = CHR ''['' then
                        (if starts_with cdata_open s3
                         then map_option (\<lambda>(t, r). (TextTok t, r)) (read_text None True (drop 6 s3))
                         else None)
                      else map_option (\<lambda>r. (OtherTok, r)) (read_directive None 0 s3))
               else
                 (case read_qname nt s1 of
                    None \<Rightarrow> None
                  | Some (n, r) \<Rightarrow>
                      map_option (\<lambda>((as, selfc), r'). (StartTok n as selfc, r')) (read_attrs nt [] r))))"

lemma read_comment_shorter: "read_comment s = Some (t, r) \<Longrightarrow> length r \<le> length s"
  by (auto simp: read_comment_def Let_def split: option.splits if_splits)

lemma read_pi_shorter: "read_pi nt s = Some (t, r) \<Longrightarrow> length r \<le> length s"
proof -
  assume "read_pi nt s = Some (t, r)"
  then obtain n r1 i where "read_name nt s = Some (n, r1)" "r = drop (i + 2) (skip_space r1)"
    by (auto simp: read_pi_def Let_def split: option.splits if_splits)
  moreover have "length r1 \<le> length s"
    using calculation(1) by (auto simp: read_name_def Let_def length_dropWhile_le split: if_splits)
  moreover have "length (skip_space r1) \<le> length r1" by (rule length_dropWhile_le)
  ultimately show ?thesis by simp
qed

text \<open>Every token consumes input.\<close>

lemma raw_token_shorter: "raw_token nt s = Some (tok, r) \<Longrightarrow> length r < length s"
proof -
  assume t: "raw_token nt s = Some (tok, r)"
  then obtain b s1 where s: "s = b # s1" by (cases s) (auto simp: raw_token_def)
  show ?thesis
  proof (cases "b = CHR ''<''")
    case False
    then show ?thesis using t s by (auto simp: raw_token_def dest: read_text_shorter)
  next
    case True
    then obtain c s2 where s1: "s1 = c # s2" using t s by (cases s1) (auto simp: raw_token_def)
    have dt: "length x \<le> k \<Longrightarrow> length (skip_space x) - Suc 0 < Suc (Suc k)" for x k
      using length_dropWhile_le [of xml_space x] by linarith
    note short = read_qname_shorter read_pi_shorter read_comment_shorter read_directive_shorter
      read_text_shorter read_attrs_shorter
    show ?thesis using t True s s1
      by (auto simp: raw_token_def Let_def dt split: option.splits list.splits if_splits dest!: short)
  qed
qed

section \<open>The element tree\<close>

datatype xnode = Elem qname attrs "xnode list" | Chars bytes

text \<open>An open element: its name, its attributes and its content so far, reversed.\<close>

type_synonym open_elem = "qname \<times> attrs \<times> xnode list"

definition add_child :: "xnode \<Rightarrow> open_elem \<Rightarrow> open_elem" where
  "add_child n e = (case e of (q, as, ch) \<Rightarrow> (q, as, n # ch))"

definition close_elem :: "open_elem \<Rightarrow> xnode" where
  "close_elem e = (case e of (q, as, ch) \<Rightarrow> Elem q as (rev ch))"

text \<open>The tokens up to the end tag of the outermost open element, which is the last of
  the stack.\<close>

function read_tree ::
  "name_tables \<Rightarrow> open_elem \<Rightarrow> open_elem list \<Rightarrow> bytes \<Rightarrow> (xnode \<times> bytes) option" where
  "read_tree nt cur outer s =
     (case raw_token nt s of
        None \<Rightarrow> None
      | Some (OtherTok, r) \<Rightarrow> read_tree nt cur outer r
      | Some (TextTok t, r) \<Rightarrow> read_tree nt (add_child (Chars t) cur) outer r
      | Some (StartTok n as selfc, r) \<Rightarrow>
          if selfc then read_tree nt (add_child (Elem n as []) cur) outer r
          else read_tree nt (n, as, []) (cur # outer) r
      | Some (EndTok n, r) \<Rightarrow>
          if n \<noteq> fst cur then None
          else (case outer of
             [] \<Rightarrow> Some (close_elem cur, r)
           | encl # outer' \<Rightarrow> read_tree nt (add_child (close_elem cur) encl) outer' r))"
  by pat_completeness auto
termination
  by (relation "measure (\<lambda>(nt, cur, outer, s). length s)") (auto dest: raw_token_shorter)

declare read_tree.simps [simp del]

text \<open>Everything before the first start tag is skipped; an end tag there is an error.\<close>

function read_root :: "name_tables \<Rightarrow> bytes \<Rightarrow> (xnode \<times> bytes) option" where
  "read_root nt s =
     (case raw_token nt s of
        None \<Rightarrow> None
      | Some (StartTok n as selfc, r) \<Rightarrow>
          if selfc then Some (Elem n as [], r) else read_tree nt (n, as, []) [] r
      | Some (EndTok n, r) \<Rightarrow> None
      | Some (TextTok t, r) \<Rightarrow> read_root nt r
      | Some (OtherTok, r) \<Rightarrow> read_root nt r)"
  by pat_completeness auto
termination
  by (relation "measure (\<lambda>(nt, s). length s)") (auto dest: raw_token_shorter)

declare read_root.simps [simp del]

section \<open>Filling struct fields\<close>

text \<open>Names are compared by their local part.  A field that several attributes or
  elements name holds the last of them; a string element holds the character data
  directly inside it.\<close>

definition attr_field :: "string \<Rightarrow> attrs \<Rightarrow> string \<Rightarrow> string" where
  "attr_field name as cur = foldl (\<lambda>v ((p, l), x). if l = name then x else v) cur as"

definition node_text :: "xnode list \<Rightarrow> bytes" where
  "node_text ch = concat (map (\<lambda>n. case n of Chars t \<Rightarrow> t | Elem q as c \<Rightarrow> []) ch)"

definition elements :: "string \<Rightarrow> xnode list \<Rightarrow> (attrs \<times> xnode list) list" where
  "elements name ch =
     concat (map (\<lambda>n. case n of Elem (p, l) as c \<Rightarrow> if l = name then [(as, c)] else [] | Chars t \<Rightarrow> []) ch)"

definition string_field :: "string \<Rightarrow> xnode list \<Rightarrow> string \<Rightarrow> string" where
  "string_field name ch cur =
     foldl (\<lambda>v (as, c). node_text c) cur (elements name ch)"

text \<open>\<^verbatim>\<open>xml.Unmarshal\<close> into a struct with a named root: the attributes and the content of
  the root element.\<close>

definition Unmarshal :: "name_tables \<Rightarrow> string \<Rightarrow> bytes \<Rightarrow> go_error + attrs \<times> xnode list" where
  "Unmarshal nt name s =
     (case read_root nt s of
        Some (Elem (p, l) as ch, r) \<Rightarrow> if l = name then Inr (as, ch) else Inl ErrXml
      | _ \<Rightarrow> Inl ErrXml)"

end
