(* ===== verification/Xml_Print.thy ===== *)
theory Xml_Print
  imports Go_Xml
begin

text \<open>
  A reference printer for element trees and the proof that the reader of \<open>Go_Xml\<close>
  reads its output back.  The escaping of values is a locale, because the program has
  its own (\<open>escapeAttr\<close>) beside the one of the reference printer.
\<close>

section \<open>Names\<close>

definition plain_name :: "string \<Rightarrow> bool" where
  "plain_name n \<longleftrightarrow>
     (case n of
        [] \<Rightarrow> False
      | c # cs \<Rightarrow> (65 \<le> byte_val c \<and> byte_val c \<le> 90 \<or> 97 \<le> byte_val c \<and> byte_val c \<le> 122 \<or> c = CHR ''_'') \<and>
          list_all (\<lambda>x. is_name_byte x \<and> byte_val x < 0x80 \<and> x \<noteq> CHR '':'') cs)"

lemma plain_name_bytes:
  assumes "plain_name n"
  shows "list_all (\<lambda>x. is_name_byte x \<and> byte_val x < 0x80 \<and> x \<noteq> CHR '':'') n"
  using assms by (auto simp: plain_name_def is_name_byte_def Let_def split: list.splits)

lemma runes_of_all_ascii: "list_all (\<lambda>x. byte_val x < 0x80) n \<Longrightarrow> runes_of n = map byte_val n"
  by (induction n) simp_all

lemma isName_plain:
  assumes "plain_name n"
  shows "isName nt n"
proof -
  note b = plain_name_bytes [OF assms]
  have r: "runes_of n = map byte_val n"
    by (rule runes_of_all_ascii) (use b in \<open>auto simp: list_all_iff\<close>)
  have v: "valid_utf8 n" using b by (intro valid_utf8_all_ascii) (auto simp: list_all_iff)
  have d: "is_name_byte x \<and> byte_val x < 0x80 \<Longrightarrow>
      first_rune nt (byte_val x) \<or> second_rune nt (byte_val x)" for x
    by (auto simp: is_name_byte_def Let_def first_rune_def second_rune_def)
  obtain c cs where n: "n = c # cs" using assms by (cases n) (auto simp: plain_name_def)
  have "first_rune nt (byte_val c)"
    using assms n by (auto simp: plain_name_def first_rune_def)
  then show ?thesis using v r n b d by (auto simp: isName_def list_all_iff)
qed

lemma takeWhile_plain:
  assumes "plain_name n" "\<not> is_name_byte c"
  shows "takeWhile is_name_byte (n @ c # r) = n" "dropWhile is_name_byte (n @ c # r) = c # r"
  using plain_name_bytes [OF assms(1)] assms(2)
  by (induction n) simp_all

lemma read_qname_plain:
  assumes "plain_name n" "\<not> is_name_byte c"
  shows "read_qname nt (n @ c # r) = Some (([], n), c # r)"
proof -
  have "filter (\<lambda>c. c = CHR '':'') n = []" "dropWhile (\<lambda>c. c \<noteq> CHR '':'') n = []"
    using plain_name_bytes [OF assms(1)] by (auto simp: filter_empty_conv list_all_iff)
  then show ?thesis
    using assms isName_plain [OF assms(1)] takeWhile_plain [OF assms]
    by (simp add: read_qname_def read_name_def split_name_def)
qed

lemma plain_name_hd: "plain_name n \<Longrightarrow> \<exists>c cs. n = c # cs \<and> is_name_byte c \<and>
    \<not> xml_space c \<and> c \<noteq> CHR ''/'' \<and> c \<noteq> CHR ''>'' \<and> c \<noteq> CHR ''!'' \<and> c \<noteq> CHR ''?''"
  by (cases n) (auto simp: plain_name_def is_name_byte_def Let_def xml_space_def)

section \<open>Escaped text\<close>

locale text_escape =
  fixes esc :: "char \<Rightarrow> string" and okc :: "char \<Rightarrow> bool"
  assumes esc_char: "okc c \<Longrightarrow>
    esc c = [c] \<and> c \<notin> {CHR ''<'', CHR ''>'', CHR ''&'', CHR 0x22, CHR 0x27, CHR 0x0D} \<or>
    (\<exists>e. esc c = CHR ''&'' # e \<and> (\<forall>r. entity (e @ r) = Some ([c], r)))"
begin

definition escape :: "bytes \<Rightarrow> string" where
  "escape v = concat (map esc v)"

lemma text_loop_escape:
  assumes "list_all okc v" "b1 \<noteq> CHR 0x0D" "q \<in> {None, Some CHR 0x22, Some CHR 0x27}"
  shows "\<exists>b0' b1'. b1' \<noteq> CHR 0x0D \<and>
    text_loop q False b0 b1 acc (escape v @ r) = text_loop q False b0' b1' (rev v @ acc) r"
  using assms
proof (induction v arbitrary: b0 b1 acc)
  case Nil
  then show ?case by (auto simp: escape_def)
next
  case (Cons c v)
  have c: "okc c" using Cons.prems(1) by simp
  have step: "\<exists>b0' b1'. b1' \<noteq> CHR 0x0D \<and> text_loop q False b0 b1 acc (esc c @ s)
      = text_loop q False b0' b1' (c # acc) s" for s
    using esc_char [OF c]
  proof
    assume "esc c = [c] \<and> c \<notin> {CHR ''<'', CHR ''>'', CHR ''&'', CHR 0x22, CHR 0x27, CHR 0x0D}"
    then show ?thesis using Cons.prems(2,3) by (intro exI [of _ b1] exI [of _ c]) auto
  next
    assume "\<exists>e. esc c = CHR ''&'' # e \<and> (\<forall>r. entity (e @ r) = Some ([c], r))"
    then obtain e where "esc c = CHR ''&'' # e" "\<And>r. entity (e @ r) = Some ([c], r)" by blast
    then show ?thesis using Cons.prems(3)
      by (intro exI [of _ "CHR 0x00"]) auto
  qed
  obtain b2 b3 where b: "b3 \<noteq> CHR 0x0D"
    "text_loop q False b0 b1 acc (esc c @ escape v @ r) = text_loop q False b2 b3 (c # acc) (escape v @ r)"
    using step [of "escape v @ r"] by (elim exE conjE)
  have ok: "list_all okc v" using Cons.prems(1) by simp
  obtain b4 b5 where b': "b5 \<noteq> CHR 0x0D"
    "text_loop q False b2 b3 (c # acc) (escape v @ r) = text_loop q False b4 b5 (rev v @ c # acc) r"
    using Cons.IH [OF ok b(1) Cons.prems(3), where ?b0.0 = b2 and acc = "c # acc"] by (elim exE conjE)
  have "escape (c # v) @ r = esc c @ escape v @ r" "rev (c # v) @ acc = rev v @ c # acc"
    by (simp_all add: escape_def)
  then show ?case using b b' by metis
qed

lemma read_text_quoted:
  assumes "list_all okc v" "xml_chars v" "q = CHR 0x22 \<or> q = CHR 0x27"
  shows "read_text (Some q) False (escape v @ q # r) = Some (v, r)"
proof -
  have q: "Some q \<in> {None, Some CHR 0x22, Some CHR 0x27}" using assms(3) by auto
  have z: "CHR 0x00 \<noteq> CHR 0x0D" by simp
  obtain b0' b1' where
    "text_loop (Some q) False (CHR 0x00) (CHR 0x00) [] (escape v @ q # r)
      = text_loop (Some q) False b0' b1' (rev v @ []) (q # r)"
    using text_loop_escape [OF assms(1) z q, where r = "q # r" and acc = "[]" and ?b0.0 = "CHR 0x00"]
    by (elim exE conjE)
  then show ?thesis using assms(2,3) by (auto simp: read_text_def)
qed

lemma read_text_chardata:
  assumes "list_all okc v" "xml_chars v"
  shows "read_text None False (escape v @ CHR ''<'' # r) = Some (v, CHR ''<'' # r)"
proof -
  have z: "CHR 0x00 \<noteq> CHR 0x0D" by simp
  obtain b0' b1' where
    "text_loop None False (CHR 0x00) (CHR 0x00) [] (escape v @ CHR ''<'' # r)
      = text_loop None False b0' b1' (rev v @ []) (CHR ''<'' # r)"
    using text_loop_escape [OF assms(1) z insertI1, where r = "CHR ''<'' # r" and acc = "[]" and ?b0.0 = "CHR 0x00"]
    by (elim exE conjE)
  then show ?thesis using assms(2) by (simp add: read_text_def)
qed

lemma escape_hd:
  assumes "list_all okc v" "v \<noteq> []"
  shows "\<exists>c s. escape v = c # s \<and> c \<noteq> CHR ''<''"
proof -
  obtain c cs where v: "v = c # cs" using assms(2) by (cases v) auto
  then have "okc c" using assms(1) by simp
  from esc_char [OF this] show ?thesis by (auto simp: v escape_def)
qed

end

text \<open>The escaping of \<^verbatim>\<open>xml.EscapeText\<close> on valid text.\<close>

definition escape_char :: "char \<Rightarrow> string" where
  "escape_char c =
     (if c = CHR 0x22 then ''&#34;'' else if c = CHR 0x27 then ''&#39;''
      else if c = CHR ''&'' then ''&amp;'' else if c = CHR ''<'' then ''&lt;''
      else if c = CHR ''>'' then ''&gt;'' else if c = CHR 0x09 then ''&#x9;''
      else if c = CHR 0x0A then ''&#xA;'' else if c = CHR 0x0D then ''&#xD;'' else [c])"

definition EscapeText :: "bytes \<Rightarrow> string" where
  "EscapeText v = concat (map escape_char v)"

lemma entity_amp: "entity (''amp;'' @ r) = Some (''&'', r)"
  and entity_lt: "entity (''lt;'' @ r) = Some (''<'', r)"
  and entity_gt: "entity (''gt;'' @ r) = Some (''>'', r)"
  and entity_quot: "entity (''quot;'' @ r) = Some ([CHR 0x22], r)"
  and entity_apos: "entity (''apos;'' @ r) = Some ([CHR 0x27], r)"
  by (simp_all add: entity_def is_name_byte_def Let_def entity_names_def)

lemma append_rune_9: "append_rune 9 = [CHR 0x09]" "append_rune 10 = [CHR 0x0A]"
  "append_rune 13 = [CHR 0x0D]" "append_rune 34 = [CHR 0x22]" "append_rune 39 = [CHR 0x27]"
  by (simp_all add: append_rune_ascii of_char_eq_iff [where 'a = nat, symmetric] del: of_char_eq_iff)

lemma parse_char_refs:
  "ParseUint ''9'' 16 = (9, None)" "ParseUint ''A'' 16 = (10, None)" "ParseUint ''D'' 16 = (13, None)"
  "ParseUint ''34'' 10 = (34, None)" "ParseUint ''39'' 10 = (39, None)"
  by (simp_all add: ParseUint_ok digit_val_def Let_def)

lemma entity_refs:
  "entity (''#34;'' @ r) = Some ([CHR 0x22], r)"
  "entity (''#39;'' @ r) = Some ([CHR 0x27], r)"
  "entity (''#x9;'' @ r) = Some ([CHR 0x09], r)"
  "entity (''#xA;'' @ r) = Some ([CHR 0x0A], r)"
  "entity (''#xD;'' @ r) = Some ([CHR 0x0D], r)"
  by (simp_all add: entity_def base_digit_def Let_def parse_char_refs append_rune_9)

interpretation xml_text: text_escape escape_char "\<lambda>_. True"
proof (unfold_locales, goal_cases)
  case (1 c)
  show ?case unfolding escape_char_def
    using entity_amp entity_lt entity_gt entity_refs by auto
qed

lemma EscapeText_escape: "EscapeText = xml_text.escape"
  by (rule ext) (simp add: EscapeText_def xml_text.escape_def)

section \<open>Printing a tree\<close>

fun print_attrs :: "attrs \<Rightarrow> string" where
  "print_attrs [] = []"
| "print_attrs (((p, l), v) # as) =
     '' '' @ l @ ''='' @ [CHR 0x22] @ EscapeText v @ [CHR 0x22] @ print_attrs as"

fun print_node :: "xnode \<Rightarrow> string" where
  "print_node (Chars t) = EscapeText t"
| "print_node (Elem (p, l) as ch) =
     ''<'' @ l @ print_attrs as @ ''>'' @ concat (map print_node ch) @ ''</'' @ l @ ''>''"

text \<open>Trees the printer is meant for: plain unprefixed names, legal characters, and no
  empty or adjacent character data, which the text of a document cannot tell apart.\<close>

fun is_chars :: "xnode \<Rightarrow> bool" where
  "is_chars (Chars t) = True"
| "is_chars (Elem q as ch) = False"

fun no_adjacent :: "xnode list \<Rightarrow> bool" where
  "no_adjacent (a # b # ns) = (\<not> (is_chars a \<and> is_chars b) \<and> no_adjacent (b # ns))"
| "no_adjacent _ = True"

definition ok_attrs :: "attrs \<Rightarrow> bool" where
  "ok_attrs as \<longleftrightarrow> list_all (\<lambda>((p, l), v). p = [] \<and> plain_name l \<and> xml_chars v) as"

fun ok_node :: "xnode \<Rightarrow> bool" where
  "ok_node (Chars t) = (t \<noteq> [] \<and> xml_chars t)"
| "ok_node (Elem (p, l) as ch) =
     (p = [] \<and> plain_name l \<and> ok_attrs as \<and> list_all ok_node ch \<and> no_adjacent ch)"

lemma skip_space_plain: "plain_name l \<Longrightarrow> skip_space (l @ r) = l @ r"
  using plain_name_hd by fastforce

lemma read_attrs_print:
  assumes "ok_attrs as"
  shows "read_attrs nt acc (print_attrs as @ ''>'' @ r) = Some ((rev acc @ as, False), r)"
  using assms
proof (induction as arbitrary: acc)
  case Nil
  show ?case by (subst read_attrs.simps) (simp add: xml_space_def Let_def)
next
  case (Cons a as)
  obtain p l v where a: "a = ((p, l), v)" by (metis prod.collapse)
  have ok: "p = []" "plain_name l" "xml_chars v" "ok_attrs as"
    using Cons.prems a by (auto simp: ok_attrs_def)
  let ?t = "CHR 0x22 # EscapeText v @ CHR 0x22 # print_attrs as @ ''>'' @ r"
  have sp: "skip_space (CHR '' '' # l @ CHR ''='' # ?t) = l @ CHR ''='' # ?t"
    using skip_space_plain [OF ok(2)] by (simp add: xml_space_def)
  have hd: "\<not> starts_with ''/'' (l @ CHR ''='' # ?t)" "\<not> starts_with ''>'' (l @ CHR ''='' # ?t)"
    using plain_name_hd [OF ok(2)] by auto
  have q: "read_qname nt (l @ CHR ''='' # ?t) = Some (([], l), CHR ''='' # ?t)"
    by (rule read_qname_plain [OF ok(2)]) (simp add: is_name_byte_def Let_def)
  have v: "read_text (Some CHR 0x22) False (EscapeText v @ CHR 0x22 # print_attrs as @ ''>'' @ r) =
      Some (v, print_attrs as @ ''>'' @ r)"
    unfolding EscapeText_escape
    by (rule xml_text.read_text_quoted) (use ok(3) in \<open>auto simp: list_all_iff\<close>)
  have "read_attrs nt acc (print_attrs (a # as) @ ''>'' @ r) =
      read_attrs nt ((([], l), v) # acc) (print_attrs as @ ''>'' @ r)"
    using sp hd q v by (subst read_attrs.simps) (simp add: a Let_def xml_space_def)
  also have "\<dots> = Some ((rev acc @ a # as, False), r)"
    using Cons.IH [OF ok(4)] a ok(1) by simp
  finally show ?case .
qed

lemma raw_token_start:
  assumes "plain_name l" "ok_attrs as"
  shows "raw_token nt (''<'' @ l @ print_attrs as @ ''>'' @ r) = Some (StartTok ([], l) as False, r)"
proof -
  obtain c cs where l: "l = c # cs" "c \<noteq> CHR ''/''" "c \<noteq> CHR ''!''" "c \<noteq> CHR ''?''"
    using plain_name_hd [OF assms(1)] by blast
  obtain d t where d: "print_attrs as @ ''>'' @ r = d # t" "\<not> is_name_byte d"
    by (cases as rule: print_attrs.cases) (auto simp: is_name_byte_def Let_def)
  have "read_qname nt (c # cs @ print_attrs as @ ''>'' @ r) =
      Some (([], l), print_attrs as @ ''>'' @ r)"
    using read_qname_plain [OF assms(1) d(2), of nt t] d(1) l(1) by simp
  then show ?thesis
    using l read_attrs_print [OF assms(2), of nt "[]" r] by (simp add: raw_token_def)
qed

lemma raw_token_end:
  assumes "plain_name l"
  shows "raw_token nt (''</'' @ l @ ''>'' @ r) = Some (EndTok ([], l), r)"
proof -
  have "\<not> is_name_byte CHR ''>''" by (simp add: is_name_byte_def Let_def)
  then have "read_qname nt (l @ ''>'' @ r) = Some (([], l), CHR ''>'' # r)"
    using read_qname_plain [OF assms] by simp
  then show ?thesis by (simp add: raw_token_def xml_space_def)
qed

lemma raw_token_chars:
  assumes "xml_chars t" "t \<noteq> []"
  shows "raw_token nt (EscapeText t @ CHR ''<'' # r) = Some (TextTok t, CHR ''<'' # r)"
proof -
  have ok: "list_all (\<lambda>_. True) t" by (simp add: list_all_iff)
  obtain c s where "EscapeText t = c # s" "c \<noteq> CHR ''<''"
    using xml_text.escape_hd [OF ok assms(2)] by (auto simp: EscapeText_escape)
  then show ?thesis
    using xml_text.read_text_chardata [OF ok assms(1), of r]
    by (simp add: raw_token_def EscapeText_escape [symmetric])
qed

lemma ok_print_hd: "ok_node n \<Longrightarrow> \<not> is_chars n \<Longrightarrow> \<exists>s. print_node n = CHR ''<'' # s"
  by (cases n) auto

lemma read_tree_nodes:
  assumes "\<And>n outer q as acc r. n \<in> set ch \<Longrightarrow> ok_node n \<Longrightarrow> is_chars n \<longrightarrow> (\<exists>s. r = CHR ''<'' # s) \<Longrightarrow>
      read_tree nt (q, as, acc) outer (print_node n @ r) = read_tree nt (q, as, n # acc) outer r"
    and "list_all ok_node ch" "no_adjacent ch"
  shows "read_tree nt (q, as, acc) outer (concat (map print_node ch) @ CHR ''<'' # r) =
    read_tree nt (q, as, rev ch @ acc) outer (CHR ''<'' # r)"
  using assms
proof (induction ch arbitrary: acc)
  case (Cons n ns)
  let ?rest = "concat (map print_node ns) @ CHR ''<'' # r"
  have nx: "is_chars n \<longrightarrow> (\<exists>s. ?rest = CHR ''<'' # s)"
    using Cons.prems(2,3) ok_print_hd by (cases ns) fastforce+
  have "read_tree nt (q, as, acc) outer (print_node n @ ?rest) = read_tree nt (q, as, n # acc) outer ?rest"
    using Cons.prems(1) [of n ?rest] Cons.prems(2) nx by simp
  moreover have "no_adjacent ns" using Cons.prems(3) by (cases ns) simp_all
  ultimately show ?case
    using Cons.IH [of "n # acc"] Cons.prems(1,2) by simp
qed simp

lemma read_tree_node:
  "ok_node n \<Longrightarrow> is_chars n \<longrightarrow> (\<exists>s. r = CHR ''<'' # s) \<Longrightarrow>
    read_tree nt (q, as, acc) outer (print_node n @ r) = read_tree nt (q, as, n # acc) outer r"
proof (induction n arbitrary: outer q as acc r)
  case (Chars t)
  then show ?case using raw_token_chars [of t nt]
    by (subst read_tree.simps) (auto simp: add_child_def)
next
  case (Elem pl bs ch)
  obtain l where pl: "pl = ([], l)" and ok: "plain_name l" "ok_attrs bs" "list_all ok_node ch" "no_adjacent ch"
    using Elem.prems(1) by (cases pl) auto
  let ?stop = "''</'' @ l @ ''>'' @ r"
  let ?body = "concat (map print_node ch) @ ?stop"
  have "read_tree nt (q, as, acc) outer (print_node (Elem pl bs ch) @ r)
      = read_tree nt (pl, bs, []) ((q, as, acc) # outer) ?body"
    using raw_token_start [OF ok(1,2), of nt ?body]
    by (subst read_tree.simps) (simp add: pl)
  also have "\<dots> = read_tree nt (pl, bs, rev ch @ []) ((q, as, acc) # outer) ?stop"
    using read_tree_nodes [of ch nt pl bs "[]" "(q, as, acc) # outer" "CHR ''/'' # l @ ''>'' @ r"]
      Elem.IH ok(3,4) by simp
  also have "\<dots> = read_tree nt (q, as, Elem pl bs ch # acc) outer r"
    using raw_token_end [OF ok(1), of nt r]
    by (subst read_tree.simps) (simp add: pl close_elem_def add_child_def)
  finally show ?case .
qed

lemma read_root_print:
  assumes "ok_node (Elem pl as ch)"
  shows "read_root nt (print_node (Elem pl as ch) @ r) = Some (Elem pl as ch, r)"
proof -
  obtain l where pl: "pl = ([], l)" and ok: "plain_name l" "ok_attrs as" "list_all ok_node ch" "no_adjacent ch"
    using assms by (cases pl) auto
  let ?stop = "''</'' @ l @ ''>'' @ r"
  let ?body = "concat (map print_node ch) @ ?stop"
  have "read_root nt (print_node (Elem pl as ch) @ r) = read_tree nt (pl, as, []) [] ?body"
    using raw_token_start [OF ok(1,2), of nt ?body] by (subst read_root.simps) (simp add: pl)
  also have "\<dots> = read_tree nt (pl, as, rev ch @ []) [] ?stop"
    using read_tree_nodes [of ch nt pl as "[]" "[]" "CHR ''/'' # l @ ''>'' @ r"]
      read_tree_node ok(3,4) by simp
  also have "\<dots> = Some (Elem pl as ch, r)"
    using raw_token_end [OF ok(1), of nt r]
    by (subst read_tree.simps) (simp add: pl close_elem_def)
  finally show ?thesis .
qed

text \<open>So unmarshalling a printed document yields its root's attributes and content,
  whatever follows the document.\<close>

lemma Unmarshal_print:
  assumes "ok_node (Elem ([], l) as ch)"
  shows "Unmarshal nt name (print_node (Elem ([], l) as ch) @ r) =
    (if l = name then Inr (as, ch) else Inl ErrXml)"
  using read_root_print [OF assms, of nt r] by (simp add: Unmarshal_def del: print_node.simps)

lemma Unmarshal_ok_name:
  "Unmarshal nt name s = Inr c \<Longrightarrow> Unmarshal nt name' s = Inr c' \<Longrightarrow> name = name' \<and> c = c'"
  by (auto simp: Unmarshal_def split: option.splits xnode.splits prod.splits if_splits)

section \<open>Printed documents are text\<close>

definition special_chars :: "char set" where
  "special_chars =
     {CHR 0x22, CHR 0x27, CHR ''&'', CHR ''<'', CHR ''>'', CHR 0x09, CHR 0x0A, CHR 0x0D}"

lemma special_chars_ascii: "\<forall>c \<in> special_chars. byte_val c < 0x80"
  by (simp add: special_chars_def)

lemma escape_char_id: "c \<notin> special_chars \<Longrightarrow> escape_char c = [c]"
  by (simp add: escape_char_def special_chars_def)

lemma escape_char_high: "0x80 \<le> byte_val c \<Longrightarrow> escape_char c = [c]"
  using special_chars_ascii by (intro escape_char_id) auto

lemma set_escape_char: "set (escape_char c) \<subseteq> insert c (set ''&#;349xADamptlg'')"
  by (simp add: escape_char_def)

lemma escape_char_ascii: "byte_val c < 0x80 \<Longrightarrow> d \<in> set (escape_char c) \<Longrightarrow> byte_val d < 0x80"
  using set_escape_char [of c] by auto

text \<open>An escaping that keeps the bytes above ASCII and maps ASCII to ASCII keeps valid text
  valid.\<close>

lemma valid_escaped:
  assumes high: "\<And>c. 0x80 \<le> byte_val c \<Longrightarrow> f c = [c]"
    and low: "\<And>c d. byte_val c < 0x80 \<Longrightarrow> d \<in> set (f c) \<Longrightarrow> byte_val d < 0x80"
    and "valid_utf8 v"
  shows "valid_utf8 (concat (map f v))"
proof -
  have id: "\<forall>c \<in> set s. 0x80 \<le> byte_val c \<Longrightarrow> concat (map f s) = s" for s
    by (induction s) (simp_all add: high)
  have "valid_utf8 (concat (map f (utf8_encode rs)))" for rs
  proof (induction rs)
    case (Cons r rs)
    have "valid_utf8 (concat (map f (append_rune r)) @ s) = valid_utf8 s" for s
    proof (cases "r < 0x80")
      case True
      then have "concat (map f (append_rune r)) = f (char_of r)" by (simp add: append_rune_ascii)
      moreover have "valid_utf8 (f (char_of r))"
        by (rule valid_utf8_all_ascii) (use True low [of "char_of r"] in auto)
      ultimately show ?thesis by (simp add: valid_utf8_append)
    next
      case False
      then have "concat (map f (append_rune r)) = append_rune r"
        using append_rune_high [of r] by (intro id) auto
      then show ?thesis by simp
    qed
    then show ?case using Cons by simp
  qed simp
  then show ?thesis using assms(3) by (auto simp: valid_utf8_iff)
qed

lemma valid_EscapeText_chars: "xml_chars v \<Longrightarrow> valid_utf8 (EscapeText v)"
  unfolding EscapeText_def xml_chars_def
  using escape_char_high escape_char_ascii by (intro valid_escaped) auto

lemma valid_plain_name: "plain_name l \<Longrightarrow> valid_utf8 l"
  using plain_name_bytes by (intro valid_utf8_all_ascii) (auto simp: list_all_iff)

lemma valid_print_attrs: "ok_attrs as \<Longrightarrow> valid_utf8 (print_attrs as)"
proof (induction as)
  case (Cons a as)
  obtain p l v where a: "a = ((p, l), v)" by (metis prod.collapse)
  have "valid_utf8 l" "valid_utf8 (EscapeText v)" "valid_utf8 (print_attrs as)"
    using Cons a valid_plain_name valid_EscapeText_chars by (auto simp: ok_attrs_def)
  then show ?case by (simp add: a valid_utf8_append)
qed simp

lemma valid_print_node: "ok_node n \<Longrightarrow> valid_utf8 (print_node n)"
proof (induction n)
  case (Elem pl as ch)
  obtain l where pl: "pl = ([], l)" and ok: "plain_name l" "ok_attrs as" "list_all ok_node ch"
    using Elem.prems by (cases pl) auto
  have c: "valid_utf8 (concat (map print_node ns) @ s) = valid_utf8 s" if "set ns \<subseteq> set ch" for ns s
    using that
  proof (induction ns)
    case (Cons n ns)
    then have "valid_utf8 (print_node n)" using Elem.IH ok(3) by (auto simp: list_all_iff)
    then show ?case using Cons by (simp add: valid_utf8_append)
  qed simp
  show ?case
    using valid_plain_name [OF ok(1)] valid_print_attrs [OF ok(2)] c [of ch]
    by (simp add: pl valid_utf8_append)
qed (simp add: valid_EscapeText_chars)

end
