(* ===== verification/Cepa_Event.thy ===== *)
theory Cepa_Event
  imports Cee_Codes Classify Xml_Print
begin

text \<open>
  \<^verbatim>\<open>pkg/parser/parser.go\<close>: the normalised event every dialect produces, and the VCAPS
  dialect: a batch of \<^verbatim>\<open>CEEEvent\<close> elements, or a single one.
\<close>

section \<open>The source\<close>

record CEPAEvent =
  EventType :: string
  FilePath :: string
  Username :: string
  Domain :: string
  UserSID :: string
  LogonID :: string
  ClientAddr :: string
  Protocol :: string
  Server :: string
  Timestamp :: gotime
  BytesRead :: int
  BytesWritten :: int
  NumberOfReads :: int
  NumberOfWrites :: int

record rawEvent =
  r_EventType :: string
  r_Timestamp :: string
  r_FilePath :: string
  r_UserSID :: string
  r_Username :: string
  r_Domain :: string
  r_LogonID :: string
  r_ClientAddress :: string
  r_BytesRead :: string
  r_BytesWritten :: string
  r_NumberOfReads :: string
  r_NumberOfWrites :: string

text \<open>The zero value of \<^verbatim>\<open>rawEvent\<close> and what unmarshalling makes of it: each field holds
  the text of the child element of its name.\<close>

definition unmarshal_rawEvent :: "xnode list \<Rightarrow> rawEvent" where
  "unmarshal_rawEvent ch =
     \<lparr>r_EventType = string_field ''EventType'' ch [],
      r_Timestamp = string_field ''Timestamp'' ch [],
      r_FilePath = string_field ''FilePath'' ch [],
      r_UserSID = string_field ''UserSID'' ch [],
      r_Username = string_field ''Username'' ch [],
      r_Domain = string_field ''Domain'' ch [],
      r_LogonID = string_field ''LogonID'' ch [],
      r_ClientAddress = string_field ''ClientAddress'' ch [],
      r_BytesRead = string_field ''BytesRead'' ch [],
      r_BytesWritten = string_field ''BytesWritten'' ch [],
      r_NumberOfReads = string_field ''NumberOfReads'' ch [],
      r_NumberOfWrites = string_field ''NumberOfWrites'' ch []\<rparr>"

definition unmarshal_rawBatch :: "name_tables \<Rightarrow> bytes \<Rightarrow> go_error + rawEvent list" where
  "unmarshal_rawBatch nt body =
     (case Unmarshal nt ''EventBatch'' body of
        Inl e \<Rightarrow> Inl e
      | Inr (as, ch) \<Rightarrow> Inr (map (\<lambda>(as', ch'). unmarshal_rawEvent ch') (elements ''CEEEvent'' ch)))"

definition unmarshal_rawSingle :: "name_tables \<Rightarrow> bytes \<Rightarrow> go_error + rawEvent" where
  "unmarshal_rawSingle nt body =
     (case Unmarshal nt ''CEEEvent'' body of
        Inl e \<Rightarrow> Inl e
      | Inr (as, ch) \<Rightarrow> Inr (unmarshal_rawEvent ch))"

definition tsFormats :: "layout_part list list" where
  "tsFormats =
     [RFC3339Nano,
      RFC3339,
      date_parts @ [Lit ''T''] @ clock_parts,
      date_parts @ [Lit '' ''] @ clock_parts,
      [Year4, Month2, Day2, Hour, Minute2, Second2]]"

fun first_format :: "layout_part list list \<Rightarrow> string \<Rightarrow> gotime option" where
  "first_format [] s = None"
| "first_format (f # fs) s = (case time_Parse f s of Some t \<Rightarrow> Some t | None \<Rightarrow> first_format fs s)"

definition parseTimestamp :: "string \<Rightarrow> gotime \<Rightarrow> gotime" where
  "parseTimestamp s fallback =
     (if s = [] then fallback
      else case first_format tsFormats s of Some t \<Rightarrow> t | None \<Rightarrow> fallback)"

definition parseInt64 :: "string \<Rightarrow> int" where
  "parseInt64 s = (if s = [] then 0 else fst (ParseInt (TrimSpace s) 10))"

definition truncate_to :: "string \<Rightarrow> nat \<Rightarrow> string" where
  "truncate_to s n = (if length s \<le> n then s else take n s)"

definition convert :: "rawEvent \<Rightarrow> gotime \<Rightarrow> CEPAEvent" where
  "convert r fallback =
     \<lparr>EventType = r_EventType r,
      FilePath = r_FilePath r,
      Username = r_Username r,
      Domain = r_Domain r,
      UserSID = r_UserSID r,
      LogonID = r_LogonID r,
      ClientAddr = r_ClientAddress r,
      Protocol = ceeProtocolName [],
      Server = [],
      Timestamp = parseTimestamp (r_Timestamp r) fallback,
      BytesRead = parseInt64 (r_BytesRead r),
      BytesWritten = parseInt64 (r_BytesWritten r),
      NumberOfReads = parseInt64 (r_NumberOfReads r),
      NumberOfWrites = parseInt64 (r_NumberOfWrites r)\<rparr>"

definition convertAll :: "rawEvent list \<Rightarrow> gotime \<Rightarrow> CEPAEvent list" where
  "convertAll raws fallback = map (\<lambda>r. convert r fallback) raws"

definition parseDecoded :: "name_tables \<Rightarrow> bytes \<Rightarrow> gotime \<Rightarrow> go_error + CEPAEvent list" where
  "parseDecoded nt body receiveTime =
     (let try_single =
        (case unmarshal_rawSingle nt body of
           Inr single \<Rightarrow>
             if r_EventType single \<noteq> [] then Inr [convert single receiveTime]
             else Inl (ErrUnrecognised (truncate_to body 120))
         | Inl err \<Rightarrow> Inl (ErrUnrecognised (truncate_to body 120)))
      in case unmarshal_rawBatch nt body of
           Inr events \<Rightarrow> if 0 < length events then Inr (convertAll events receiveTime) else try_single
         | Inl err \<Rightarrow> try_single)"

definition Parse :: "name_tables \<Rightarrow> bytes \<Rightarrow> gotime \<Rightarrow> go_error + CEPAEvent list" where
  "Parse nt body receiveTime =
     (if body = [] then Inl ErrEmptyPayload
      else case DecodeBody body of
             Inl err \<Rightarrow> Inl (ErrWrapped ''decoding CEPA payload'' err)
           | Inr decoded \<Rightarrow> parseDecoded nt decoded receiveTime)"

text \<open>\<^verbatim>\<open>CheckFileAction\<close>: the action of the last \<^verbatim>\<open>Args\<close> that carries one.\<close>

definition args_attr :: "string \<Rightarrow> xnode list \<Rightarrow> string" where
  "args_attr name ch = foldl (\<lambda>v (as, c). attr_field name as v) [] (elements ''Args'' ch)"

definition checkFileActionDecoded :: "name_tables \<Rightarrow> bytes \<Rightarrow> string" where
  "checkFileActionDecoded nt decoded =
     (case Unmarshal nt ''CheckFileRequest'' decoded of
        Inl err \<Rightarrow> []
      | Inr (as, ch) \<Rightarrow> args_attr ''action'' ch)"

definition CheckFileAction :: "name_tables \<Rightarrow> bytes \<Rightarrow> string" where
  "CheckFileAction nt body =
     (case DecodeBody body of Inl err \<Rightarrow> [] | Inr decoded \<Rightarrow> checkFileActionDecoded nt decoded)"

definition OneFSHeartbeatAction :: string where
  "OneFSHeartbeatAction = ''9''"

definition OneFSEventAction :: string where
  "OneFSEventAction = ''11''"

section \<open>Documents\<close>

text \<open>A body that a printed document travels as: the UTF-8 text or its UTF-16LE form.\<close>

lemma DecodeBody_print:
  assumes "ok_node (Elem ([], l) as ch)"
  shows "DecodeBody (print_node (Elem ([], l) as ch)) = Inr (print_node (Elem ([], l) as ch))"
    and "DecodeBody (EncodeUTF16LE (print_node (Elem ([], l) as ch))) =
      Inr (print_node (Elem ([], l) as ch))"
proof -
  have "plain_name l" using assms by simp
  then obtain c cs where l: "l = c # cs" "byte_val c \<noteq> 0" using assms
    by (cases l) (auto simp: plain_name_def)
  let ?d = "print_node (Elem ([], l) as ch)"
  obtain s where d: "?d = CHR ''<'' # c # s" using l by simp
  show "DecodeBody ?d = Inr ?d" unfolding d by (rule DecodeBody_xml_fixed [OF l(2)])
  have v: "valid_utf8 ?d" by (rule valid_print_node [OF assms])
  have "runes_of ?d = 60 # runes_of (c # s)" unfolding d by simp
  from DecodeBody_le(1) [OF v this] show "DecodeBody (EncodeUTF16LE ?d) = Inr ?d" by simp
qed

text \<open>A text element, empty when its text is.\<close>

definition text_elem :: "string \<times> string \<Rightarrow> xnode" where
  "text_elem p = Elem ([], fst p) [] (if snd p = [] then [] else [Chars (snd p)])"

lemma ok_text_elem: "plain_name n \<Longrightarrow> xml_chars v \<Longrightarrow> ok_node (text_elem (n, v))"
  by (simp add: text_elem_def ok_attrs_def)

lemma no_adjacent_elems: "list_all (\<lambda>n. \<not> is_chars n) ns \<Longrightarrow> no_adjacent ns"
  by (induction ns rule: no_adjacent.induct) simp_all

lemma text_elem_not_chars [simp]: "\<not> is_chars (text_elem p)"
  by (simp add: text_elem_def)

lemma string_field_text_elems:
  assumes "distinct (map fst fs)" "map_of fs n = Some v"
  shows "string_field n (map text_elem fs) cur = v"
proof -
  have none: "n \<notin> set (map fst gs) \<Longrightarrow> elements n (map text_elem gs) = []" for gs
    by (induction gs) (auto simp: elements_def text_elem_def)
  have "elements n (map text_elem fs) = [([], if v = [] then [] else [Chars v])]"
    using assms
  proof (induction fs)
    case (Cons f fs)
    show ?case
    proof (cases "fst f = n")
      case True
      then have "elements n (map text_elem fs) = []" using none Cons.prems(1) by auto
      then show ?thesis using True Cons.prems by (auto simp: elements_def text_elem_def)
    next
      case False
      then show ?thesis using Cons by (auto simp: elements_def text_elem_def split: if_splits)
    qed
  qed simp
  then show ?thesis by (simp add: string_field_def node_text_def)
qed

section \<open>The VCAPS document of a list of events\<close>

definition raw_fields :: "rawEvent \<Rightarrow> (string \<times> string) list" where
  "raw_fields r =
     [(''EventType'', r_EventType r), (''Timestamp'', r_Timestamp r), (''FilePath'', r_FilePath r),
      (''UserSID'', r_UserSID r), (''Username'', r_Username r), (''Domain'', r_Domain r),
      (''LogonID'', r_LogonID r), (''ClientAddress'', r_ClientAddress r),
      (''BytesRead'', r_BytesRead r), (''BytesWritten'', r_BytesWritten r),
      (''NumberOfReads'', r_NumberOfReads r), (''NumberOfWrites'', r_NumberOfWrites r)]"

definition raw_ok :: "rawEvent \<Rightarrow> bool" where
  "raw_ok r \<longleftrightarrow> list_all (\<lambda>(n, v). xml_chars v) (raw_fields r)"

definition vcaps_event :: "rawEvent \<Rightarrow> xnode" where
  "vcaps_event r = Elem ([], ''CEEEvent'') [] (map text_elem (raw_fields r))"

definition vcaps_batch :: "rawEvent list \<Rightarrow> xnode" where
  "vcaps_batch rs = Elem ([], ''EventBatch'') [] (map vcaps_event rs)"

lemma raw_fields_distinct: "distinct (map fst (raw_fields r))"
  by (simp add: raw_fields_def)

lemma raw_fields_names: "(n, v) \<in> set (raw_fields r) \<Longrightarrow> plain_name n"
  by (auto simp: raw_fields_def plain_name_def is_name_byte_def Let_def)

lemma ok_vcaps_event: "raw_ok r \<Longrightarrow> ok_node (vcaps_event r)"
  using raw_fields_names [of _ _ r] ok_text_elem
  by (auto simp: vcaps_event_def raw_ok_def list_all_iff plain_name_def is_name_byte_def Let_def
      ok_attrs_def intro!: no_adjacent_elems)

lemma unmarshal_vcaps_event: "unmarshal_rawEvent (map text_elem (raw_fields r)) = r"
proof -
  have f: "map_of (raw_fields r) n = Some v \<Longrightarrow> string_field n (map text_elem (raw_fields r)) [] = v" for n v
    by (rule string_field_text_elems [OF raw_fields_distinct])
  have v:
    "map_of (raw_fields r) ''EventType'' = Some (r_EventType r)"
    "map_of (raw_fields r) ''Timestamp'' = Some (r_Timestamp r)"
    "map_of (raw_fields r) ''FilePath'' = Some (r_FilePath r)"
    "map_of (raw_fields r) ''UserSID'' = Some (r_UserSID r)"
    "map_of (raw_fields r) ''Username'' = Some (r_Username r)"
    "map_of (raw_fields r) ''Domain'' = Some (r_Domain r)"
    "map_of (raw_fields r) ''LogonID'' = Some (r_LogonID r)"
    "map_of (raw_fields r) ''ClientAddress'' = Some (r_ClientAddress r)"
    "map_of (raw_fields r) ''BytesRead'' = Some (r_BytesRead r)"
    "map_of (raw_fields r) ''BytesWritten'' = Some (r_BytesWritten r)"
    "map_of (raw_fields r) ''NumberOfReads'' = Some (r_NumberOfReads r)"
    "map_of (raw_fields r) ''NumberOfWrites'' = Some (r_NumberOfWrites r)"
    by (simp_all add: raw_fields_def)
  show ?thesis unfolding unmarshal_rawEvent_def by (simp add: v [THEN f])
qed

lemma ok_vcaps_batch: "list_all raw_ok rs \<Longrightarrow> ok_node (vcaps_batch rs)"
  using ok_vcaps_event
  by (auto simp: vcaps_batch_def list_all_iff plain_name_def is_name_byte_def Let_def ok_attrs_def
      vcaps_event_def intro!: no_adjacent_elems)

lemma elements_vcaps_batch:
  "elements ''CEEEvent'' (map vcaps_event rs) = map (\<lambda>r. ([], map text_elem (raw_fields r))) rs"
  by (induction rs) (simp_all add: elements_def vcaps_event_def)

lemma parseDecoded_batch:
  assumes "list_all raw_ok rs" "rs \<noteq> []"
  shows "parseDecoded nt (print_node (vcaps_batch rs)) t = Inr (convertAll rs t)"
proof -
  have "Unmarshal nt ''EventBatch'' (print_node (vcaps_batch rs)) = Inr ([], map vcaps_event rs)"
    using Unmarshal_print [of "''EventBatch''" "[]" "map vcaps_event rs" nt "''EventBatch''" "[]"]
      ok_vcaps_batch [OF assms(1)] by (simp add: vcaps_batch_def del: print_node.simps)
  then have "unmarshal_rawBatch nt (print_node (vcaps_batch rs)) = Inr rs"
    by (simp add: unmarshal_rawBatch_def elements_vcaps_batch unmarshal_vcaps_event o_def)
  then show ?thesis using assms(2) by (simp add: parseDecoded_def)
qed

lemma parseDecoded_single:
  assumes "raw_ok r" "r_EventType r \<noteq> []"
  shows "parseDecoded nt (print_node (vcaps_event r)) t = Inr [convert r t]"
proof -
  have u: "Unmarshal nt n (print_node (vcaps_event r)) =
      (if ''CEEEvent'' = n then Inr ([], map text_elem (raw_fields r)) else Inl ErrXml)" for n
    using Unmarshal_print [of "''CEEEvent''" "[]" "map text_elem (raw_fields r)" nt n "[]"]
      ok_vcaps_event [OF assms(1)] by (simp add: vcaps_event_def del: print_node.simps)
  show ?thesis using assms(2)
    by (simp add: parseDecoded_def unmarshal_rawBatch_def unmarshal_rawSingle_def u
        unmarshal_vcaps_event)
qed

lemma print_node_not_Nil: "\<not> is_chars n \<Longrightarrow> print_node n \<noteq> []"
  by (cases n) auto

lemma EncodeUTF16LE_not_Nil: "DecodeBody (EncodeUTF16LE d) = Inr d \<Longrightarrow> d \<noteq> [] \<Longrightarrow> EncodeUTF16LE d \<noteq> []"
  by (auto simp: DecodeBody_def IsUTF16_def)

lemma Itoa_nonspace: "list_all ascii_nonspace (Itoa n) \<and> Itoa n \<noteq> []"
  using format_nat_nonspace [of 10] by (simp add: Itoa_def ascii_nonspace_def)

section \<open>Properties\<close>

text \<open>C10: No event of a VCAPS batch is lost, reordered or altered.  For every non-empty
  list of events with legal text, the batch document printed from it parses, in UTF-8 and
  in the UTF-16LE form CEE sends, to the conversion of exactly those events in order.\<close>

theorem Parse_batch:
  assumes "list_all raw_ok rs" "rs \<noteq> []"
  shows "Parse nt (print_node (vcaps_batch rs)) t = Inr (map (\<lambda>r. convert r t) rs) \<and>
    Parse nt (EncodeUTF16LE (print_node (vcaps_batch rs))) t = Inr (map (\<lambda>r. convert r t) rs)"
proof -
  let ?d = "print_node (vcaps_batch rs)"
  have ok: "ok_node (Elem ([], ''EventBatch'') [] (map vcaps_event rs))"
    using ok_vcaps_batch [OF assms(1)] by (simp add: vcaps_batch_def)
  note dec = DecodeBody_print [OF ok, folded vcaps_batch_def]
  have "?d \<noteq> []" by (rule print_node_not_Nil) (simp add: vcaps_batch_def)
  then show ?thesis
    using dec parseDecoded_batch [OF assms, of nt t] EncodeUTF16LE_not_Nil [OF dec(2)]
    by (simp add: Parse_def convertAll_def)
qed

definition sample_raw :: rawEvent where
  "sample_raw =
     \<lparr>r_EventType = ''CEPP_DELETE_FILE'', r_Timestamp = ''2026-08-14T20:35:21Z'',
      r_FilePath = ''/a<b>&c'', r_UserSID = ''S-1-5'', r_Username = ''bob'', r_Domain = [],
      r_LogonID = [], r_ClientAddress = ''10.0.0.1'', r_BytesRead = [], r_BytesWritten = ''12'',
      r_NumberOfReads = [], r_NumberOfWrites = ''x''\<rparr>"

lemma sample_raw_ok: "raw_ok sample_raw"
  by (simp add: raw_ok_def raw_fields_def sample_raw_def xml_chars_def in_char_range_def)

theorem Parse_batch_witness:
  "Parse ascii_tables (print_node (vcaps_batch [sample_raw, sample_raw])) (mk_time 0 0) =
     Inr [convert sample_raw (mk_time 0 0), convert sample_raw (mk_time 0 0)]"
  using Parse_batch [of "[sample_raw, sample_raw]" ascii_tables "mk_time 0 0"] sample_raw_ok by simp

text \<open>A lone \<^verbatim>\<open>CEEEvent\<close> document parses to its one event, through the fallback after
  the batch attempt; the same document without an event type is an error and produces no
  event.\<close>

theorem Parse_single:
  assumes "raw_ok r"
  shows "Parse nt (print_node (vcaps_event r)) t =
    (if r_EventType r \<noteq> [] then Inr [convert r t]
     else Inl (ErrUnrecognised (truncate_to (print_node (vcaps_event r)) 120)))"
proof -
  let ?d = "print_node (vcaps_event r)"
  have ok: "ok_node (Elem ([], ''CEEEvent'') [] (map text_elem (raw_fields r)))"
    using ok_vcaps_event [OF assms] by (simp add: vcaps_event_def)
  note dec = DecodeBody_print [OF ok, folded vcaps_event_def]
  have ne: "?d \<noteq> []" by (rule print_node_not_Nil) (simp add: vcaps_event_def)
  have u: "Unmarshal nt n ?d =
      (if ''CEEEvent'' = n then Inr ([], map text_elem (raw_fields r)) else Inl ErrXml)" for n
    using Unmarshal_print [OF ok, of nt n "[]"] by (simp add: vcaps_event_def del: print_node.simps)
  show ?thesis using ne dec(1) parseDecoded_single [OF assms, of nt t]
    by (simp add: Parse_def parseDecoded_def unmarshal_rawBatch_def unmarshal_rawSingle_def u
        unmarshal_vcaps_event)
qed

theorem Parse_single_witness:
  "Parse ascii_tables (print_node (vcaps_event sample_raw)) (mk_time 0 0) =
     Inr [convert sample_raw (mk_time 0 0)]"
  using Parse_single [OF sample_raw_ok, of ascii_tables "mk_time 0 0"] by (simp add: sample_raw_def)

text \<open>The I/O counters saturate instead of wrapping: the decimal numeral of any
  integer, however long, reads as that integer clamped to the signed 64-bit range, and
  text that is no numeral still gives a 64-bit value.\<close>

theorem parseInt64_saturates:
  "parseInt64 (Itoa n) = max (- (2 ^ 63)) (min n (2 ^ 63 - 1)) \<and>
   - (2 ^ 63) \<le> parseInt64 s \<and> parseInt64 s < 2 ^ 63"
proof -
  have "TrimSpace (Itoa n) = Itoa n"
    using Itoa_nonspace [of n] list_all_hd list_all_last by (intro TrimSpace_id) blast+
  then have "parseInt64 (Itoa n) = max (- (2 ^ 63)) (min n (2 ^ 63 - 1))"
    using Itoa_nonspace [of n] ParseInt_Itoa_clamp [of n] by (simp add: parseInt64_def)
  moreover have "- (2 ^ 63) \<le> parseInt64 s \<and> parseInt64 s < 2 ^ 63"
    using ParseInt_bounds [of "TrimSpace s" 10] by (simp add: parseInt64_def)
  ultimately show ?thesis by blast
qed

text \<open>A VCAPS timestamp written in RFC 3339 with nanoseconds is read back as the same
  instant, for every instant of the years 0 to 9999; text that no layout matches gives
  the receive time.\<close>

theorem parseTimestamp_RFC3339Nano:
  assumes "time_ok t" "year_in_range t"
  shows "parseTimestamp (format_RFC3339Nano t) fb = t"
  using time_Parse_format [OF assms]
  by (simp add: parseTimestamp_def tsFormats_def format_RFC3339Nano_def)

theorem parseTimestamp_RFC3339Nano_witness:
  "parseTimestamp (format_RFC3339Nano (mk_time 1786739721 250000000)) (mk_time 0 0) = mk_time 1786739721 250000000"
proof -
  have "year_in_range (mk_time 1786739721 250000000)"
    by (simp add: year_in_range_def civil_def Let_def year_of_day_def days_before_year_def)
  then show ?thesis by (intro parseTimestamp_RFC3339Nano) (simp_all add: time_ok_def)
qed

end
