(* ===== verification/Go_Base64.thy ===== *)
theory Go_Base64
  imports Prelude
begin

text \<open>
  \<^verbatim>\<open>base64.StdEncoding.DecodeString\<close>, the standard alphabet with padding.  Go
  ignores carriage returns and line feeds wherever they stand, takes the padding
  only at the end, and (the encoding is not strict) ignores the unused bits of the
  last group.  The encoder is the reference the arrays implement; the program only
  decodes.
\<close>

definition b64_alphabet :: string where
  "b64_alphabet = ''ABCDEFGHIJKLMNOPQRSTUVWXYZabcdefghijklmnopqrstuvwxyz0123456789+/''"

definition b64_val :: "char \<Rightarrow> nat option" where
  "b64_val c =
     (let n = byte_val c in
      if 65 \<le> n \<and> n \<le> 90 then Some (n - 65)
      else if 97 \<le> n \<and> n \<le> 122 then Some (n - 71)
      else if 48 \<le> n \<and> n \<le> 57 then Some (n + 4)
      else if n = 43 then Some 62
      else if n = 47 then Some 63
      else None)"

definition quantum :: "nat \<Rightarrow> nat \<Rightarrow> nat \<Rightarrow> nat \<Rightarrow> bytes" where
  "quantum d0 d1 d2 d3 =
     (let v = d0 * 262144 + d1 * 4096 + d2 * 64 + d3 in
      [char_of (v div 65536), char_of (v div 256), char_of v])"

fun b64_quanta :: "string \<Rightarrow> bytes option" where
  "b64_quanta [] = Some []"
| "b64_quanta (c0 # c1 # c2 # c3 # cs) =
     (case (b64_val c0, b64_val c1) of
        (Some d0, Some d1) \<Rightarrow>
          (case b64_val c2 of
             Some d2 \<Rightarrow>
               (case b64_val c3 of
                  Some d3 \<Rightarrow> map_option ((@) (quantum d0 d1 d2 d3)) (b64_quanta cs)
                | None \<Rightarrow>
                    if c3 = CHR ''='' \<and> cs = [] then Some (take 2 (quantum d0 d1 d2 0)) else None)
           | None \<Rightarrow>
               if c2 = CHR ''='' \<and> c3 = CHR ''='' \<and> cs = []
               then Some (take 1 (quantum d0 d1 0 0)) else None)
      | _ \<Rightarrow> None)"
| "b64_quanta _ = None"

definition DecodeString :: "string \<Rightarrow> go_error + bytes" where
  "DecodeString s =
     (case b64_quanta (filter (\<lambda>c. c \<noteq> CHR 0x0A \<and> c \<noteq> CHR 0x0D) s) of
        Some bs \<Rightarrow> Inr bs
      | None \<Rightarrow> Inl ErrBase64)"

section \<open>The reference encoder\<close>

definition b64_char :: "nat \<Rightarrow> char" where
  "b64_char d =
     (if d < 26 then char_of (65 + d) else if d < 52 then char_of (71 + d)
      else if d < 62 then char_of (d - 4) else if d = 62 then CHR ''+'' else CHR ''/'')"

fun b64_encode :: "bytes \<Rightarrow> string" where
  "b64_encode [] = []"
| "b64_encode [b0] =
     (let v = byte_val b0 * 65536 in
      [b64_char (v div 262144), b64_char (v div 4096 mod 64), CHR ''='', CHR ''=''])"
| "b64_encode [b0, b1] =
     (let v = byte_val b0 * 65536 + byte_val b1 * 256 in
      [b64_char (v div 262144), b64_char (v div 4096 mod 64), b64_char (v div 64 mod 64), CHR ''=''])"
| "b64_encode (b0 # b1 # b2 # bs) =
     (let v = byte_val b0 * 65536 + byte_val b1 * 256 + byte_val b2 in
      [b64_char (v div 262144), b64_char (v div 4096 mod 64), b64_char (v div 64 mod 64),
       b64_char (v mod 64)] @ b64_encode bs)"

lemma b64_val_char: "d < 64 \<Longrightarrow> b64_val (b64_char d) = Some d"
  by (auto simp: b64_val_def b64_char_def Let_def)

lemma b64_char_not_newline: "b64_char d \<noteq> CHR 0x0A \<and> b64_char d \<noteq> CHR 0x0D"
proof -
  have "byte_val (b64_char d) \<ge> 43" by (auto simp: b64_char_def)
  then show ?thesis by (auto simp: b64_char_def)
qed

text \<open>Four base-64 digits are three base-256 digits.\<close>

lemma four_digits:
  "a * 64 + r = v \<Longrightarrow> b * 64 + s = a \<Longrightarrow> c * 64 + t = b \<Longrightarrow>
    c * 262144 + t * 4096 + s * 64 + r = v" for v :: nat
  by simp

lemma v_digits:
  fixes v :: nat
  shows "v div 262144 * 262144 + v div 4096 mod 64 * 4096 + v div 64 mod 64 * 64 + v mod 64 = v"
proof -
  have "v div 262144 = v div 64 div 64 div 64" "v div 4096 = v div 64 div 64"
    by (simp_all only: div_mult2_eq [symmetric]) simp_all
  then show ?thesis
    using four_digits [OF div_mult_mod_eq div_mult_mod_eq div_mult_mod_eq, of v] by metis
qed

lemma div_mod_256: "z < 256 \<Longrightarrow> (q * 256 + z) div 256 = q \<and> (q * 256 + z) mod 256 = z" for q z :: nat
  by simp

lemma quantum_bytes:
  assumes "v = byte_val b0 * 65536 + byte_val b1 * 256 + byte_val b2"
  shows "quantum (v div 262144) (v div 4096 mod 64) (v div 64 mod 64) (v mod 64) = [b0, b1, b2]"
proof -
  have v: "v = (byte_val b0 * 256 + byte_val b1) * 256 + byte_val b2" using assms by simp
  have d1: "v div 256 = byte_val b0 * 256 + byte_val b1" "v mod 256 = byte_val b2"
    unfolding v using div_mod_256 byte_val_less by blast+
  have d2: "v div 256 div 256 = byte_val b0" "v div 256 mod 256 = byte_val b1"
    unfolding d1(1) using div_mod_256 byte_val_less by blast+
  have "v div 65536 = byte_val b0" using d2(1) by (simp only: div_mult2_eq [symmetric]) simp
  moreover have "char_of (v div 256) = b1" using d2(2) by (metis char_of_mod_256 char_of_char)
  moreover have "char_of v = b2" using d1(2) by (metis char_of_mod_256 char_of_char)
  ultimately show ?thesis by (simp add: quantum_def v_digits)
qed

lemma v_top: "(byte_val b0 * 65536 + byte_val b1 * 256 + byte_val b2) div 262144 < 64"
  using byte_val_less [of b0] byte_val_less [of b1] byte_val_less [of b2]
  by (intro less_mult_imp_div_less) linarith

lemma low_digits: "(x * 64) mod 64 = 0" "(x * 4096) div 64 mod 64 = 0" for x :: nat
proof -
  have "(x * 4096) div 64 = x * 64" by simp
  then show "(x * 4096) div 64 mod 64 = 0" by simp
qed simp

lemma b64_quanta_encode: "b64_quanta (b64_encode bs) = Some bs"
proof (induction bs rule: b64_encode.induct)
  case (2 b0)
  define v where "v = byte_val b0 * 65536"
  have v: "v = byte_val b0 * 65536 + byte_val (char_of (0 :: nat)) * 256 + byte_val (char_of (0 :: nat))"
    by (simp add: v_def)
  have z: "v mod 64 = 0" "v div 64 mod 64 = 0"
    using low_digits(1) [of "byte_val b0 * 1024"] low_digits(2) [of "byte_val b0 * 16"]
    by (simp_all add: v_def)
  have t: "v div 262144 < 64" unfolding v by (rule v_top)
  show ?case using quantum_bytes [OF v] z t
    by (simp add: b64_val_char flip: v_def) (simp add: b64_val_def)
next
  case (3 b0 b1)
  define v where "v = byte_val b0 * 65536 + byte_val b1 * 256"
  have v: "v = byte_val b0 * 65536 + byte_val b1 * 256 + byte_val (char_of (0 :: nat))"
    by (simp add: v_def)
  have "v = (byte_val b0 * 1024 + byte_val b1 * 4) * 64" by (simp add: v_def)
  then have z: "v mod 64 = 0" using low_digits(1) by simp
  have t: "v div 262144 < 64" unfolding v by (rule v_top)
  show ?case using quantum_bytes [OF v] z t
    by (simp add: b64_val_char flip: v_def) (simp add: b64_val_def)
next
  case (4 b0 b1 b2 bs)
  define v where "v = byte_val b0 * 65536 + byte_val b1 * 256 + byte_val b2"
  have t: "v div 262144 < 64" unfolding v_def by (rule v_top)
  show ?case using 4 quantum_bytes [OF v_def] t
    by (simp add: b64_val_char flip: v_def)
qed simp

lemma b64_encode_no_newline: "c \<in> set (b64_encode bs) \<Longrightarrow> c \<noteq> CHR 0x0A \<and> c \<noteq> CHR 0x0D"
  by (induction bs rule: b64_encode.induct) (auto simp: Let_def b64_char_not_newline)

lemma DecodeString_encode [go_codec]: "DecodeString (b64_encode bs) = Inr bs"
  using b64_encode_no_newline [of _ bs] b64_quanta_encode [of bs]
  by (simp add: DecodeString_def filter_id_conv)

interpretation base64: codec b64_encode DecodeString "\<lambda>_. True"
  by unfold_locales (simp add: DecodeString_encode)

end
