(* ===== verification/One_FS.thy ===== *)
theory One_FS
  imports Cepa_Event Go_Base64
begin

text \<open>
  \<^verbatim>\<open>pkg/parser/onefs.go\<close>: the OneFS dialect, one NFS event per
  \<^verbatim>\<open>CheckFileRequest\<close>, with its names in base64 of UTF-16LE.
\<close>

section \<open>The source\<close>

definition unmappedPrefix :: string where
  "unmappedPrefix = ''CEPP_ONEFS_UNMAPPED_''"

definition onefsEventType :: "(int \<times> string) list" where
  "onefsEventType =
     [(8, ''CEPP_CREATE_FILE''),
      (32, ''CEPP_DELETE_FILE''),
      (128, ''CEPP_CLOSE_MODIFIED''),
      (256, ''CEPP_CLOSE_UNMODIFIED''),
      (512, ''CEPP_RENAME_FILE''),
      (2048, ''CEPP_SETACL_FILE'')]"

definition IsUnmappedOneFSEventType :: "string \<Rightarrow> bool" where
  "IsUnmappedOneFSEventType eventType = starts_with unmappedPrefix eventType"

record onefsNFSEventArgs =
  n_EventType :: string
  n_DesiredAccess :: string
  n_CreateDispo :: string
  n_NumberOfWrites :: string
  n_NumberOfReads :: string
  n_BytesRead :: string
  n_BytesWritten :: string
  n_UserSid :: string
  n_ClientIP :: string
  n_ServerName :: string
  n_TimeStamp :: string
  n_TimeStampMicroSeconds :: string

record onefsRequest =
  a_Action :: string
  a_SourceIP :: string
  a_Name :: string
  a_Protocol :: string
  NFS :: "onefsNFSEventArgs option"

definition nfs_attrs :: "attrs \<Rightarrow> onefsNFSEventArgs \<Rightarrow> onefsNFSEventArgs" where
  "nfs_attrs as n =
     \<lparr>n_EventType = attr_field ''eventType'' as (n_EventType n),
      n_DesiredAccess = attr_field ''desiredAccess'' as (n_DesiredAccess n),
      n_CreateDispo = attr_field ''createDispo'' as (n_CreateDispo n),
      n_NumberOfWrites = attr_field ''numberOfWrites'' as (n_NumberOfWrites n),
      n_NumberOfReads = attr_field ''numberOfReads'' as (n_NumberOfReads n),
      n_BytesRead = attr_field ''bytesRead'' as (n_BytesRead n),
      n_BytesWritten = attr_field ''bytesWritten'' as (n_BytesWritten n),
      n_UserSid = attr_field ''userSid'' as (n_UserSid n),
      n_ClientIP = attr_field ''clientIP'' as (n_ClientIP n),
      n_ServerName = attr_field ''serverName'' as (n_ServerName n),
      n_TimeStamp = attr_field ''timeStamp'' as (n_TimeStamp n),
      n_TimeStampMicroSeconds = attr_field ''timeStampMicroSeconds'' as (n_TimeStampMicroSeconds n)\<rparr>"

definition no_nfs :: onefsNFSEventArgs where
  "no_nfs = \<lparr>n_EventType = [], n_DesiredAccess = [], n_CreateDispo = [], n_NumberOfWrites = [],
     n_NumberOfReads = [], n_BytesRead = [], n_BytesWritten = [], n_UserSid = [], n_ClientIP = [],
     n_ServerName = [], n_TimeStamp = [], n_TimeStampMicroSeconds = []\<rparr>"

text \<open>The pointer field \<^verbatim>\<open>NFS\<close> is allocated by the first \<^verbatim>\<open>NFSEventArgs\<close>; a further one
  fills the same struct.\<close>

definition unmarshal_onefs :: "xnode list \<Rightarrow> onefsRequest" where
  "unmarshal_onefs ch =
     \<lparr>a_Action = args_attr ''action'' ch,
      a_SourceIP = args_attr ''sourceIP'' ch,
      a_Name = args_attr ''name'' ch,
      a_Protocol = args_attr ''protocol'' ch,
      NFS = foldl (\<lambda>n (as, c). Some (nfs_attrs as (case n of Some v \<Rightarrow> v | None \<Rightarrow> no_nfs)))
              None (elements ''NFSEventArgs'' ch)\<rparr>"

definition onefsEventTypeName :: "string \<Rightarrow> string" where
  "onefsEventTypeName raw =
     (case Atoi (TrimSpace raw) of
        (n, Some err) \<Rightarrow> unmappedPrefix @ ''INVALID''
      | (n, None) \<Rightarrow>
          (case map_of onefsEventType n of
             Some name \<Rightarrow> name
           | None \<Rightarrow> unmappedPrefix @ Itoa n))"

definition onefsTimestamp :: "string \<Rightarrow> string \<Rightarrow> gotime \<Rightarrow> gotime" where
  "onefsTimestamp sec usec fallback =
     (case ParseInt (TrimSpace sec) 10 of
        (s, err) \<Rightarrow>
          if err \<noteq> None \<or> s \<le> 0 then fallback
          else (case ParseInt (TrimSpace usec) 10 of
             (us, err') \<Rightarrow>
               let us' = (if err' \<noteq> None \<or> us < 0 \<or> 1000000 \<le> us then 0 else us) in
               Unix s (us' * 1000)))"

definition decodeBase64UTF16 :: "string \<Rightarrow> go_error + string" where
  "decodeBase64UTF16 s =
     (if s = [] then Inl ErrEmptyName
      else case DecodeString s of
             Inl err \<Rightarrow> Inl (ErrWrapped ''base64'' err)
           | Inr raw \<Rightarrow> DecodeBody raw)"

definition parseOneFSEventDecoded ::
  "name_tables \<Rightarrow> bytes \<Rightarrow> gotime \<Rightarrow> go_error + CEPAEvent list" where
  "parseOneFSEventDecoded nt decoded receiveTime =
     (case Unmarshal nt ''CheckFileRequest'' decoded of
        Inl err \<Rightarrow> Inl (ErrWrapped ''parsing OneFS CheckFileRequest'' err)
      | Inr (as, ch) \<Rightarrow>
          (let r = unmarshal_onefs ch in
           case NFS r of
             None \<Rightarrow> Inl ErrNoNfsArgs
           | Some nfs \<Rightarrow>
               (case decodeBase64UTF16 (a_Name r) of
                  Inl err \<Rightarrow> Inl (ErrWrapped ''decoding OneFS event path'' err)
                | Inr path \<Rightarrow>
                    (let server = (case decodeBase64UTF16 (n_ServerName nfs) of
                                     Inl err \<Rightarrow> [] | Inr s \<Rightarrow> s) in
                     Inr [\<lparr>EventType = onefsEventTypeName (n_EventType nfs),
                           FilePath = path,
                           Username = [],
                           Domain = [],
                           UserSID = n_UserSid nfs,
                           LogonID = [],
                           ClientAddr = n_ClientIP nfs,
                           Protocol = ceeProtocolName (a_Protocol r),
                           Server = server,
                           Timestamp = onefsTimestamp (n_TimeStamp nfs)
                             (n_TimeStampMicroSeconds nfs) receiveTime,
                           BytesRead = parseInt64 (n_BytesRead nfs),
                           BytesWritten = parseInt64 (n_BytesWritten nfs),
                           NumberOfReads = parseInt64 (n_NumberOfReads nfs),
                           NumberOfWrites = parseInt64 (n_NumberOfWrites nfs)\<rparr>]))))"

definition ParseOneFSEvent ::
  "name_tables \<Rightarrow> bytes \<Rightarrow> gotime \<Rightarrow> go_error + CEPAEvent list" where
  "ParseOneFSEvent nt body receiveTime =
     (case DecodeBody body of
        Inl err \<Rightarrow> Inl (ErrWrapped ''decoding OneFS payload'' err)
      | Inr decoded \<Rightarrow> parseOneFSEventDecoded nt decoded receiveTime)"

section \<open>Names\<close>

interpretation onefs_name: codec_chain EncodeUTF16LE DecodeBody latin_start
  b64_encode DecodeString "\<lambda>_. True" "ErrWrapped ''base64''"
  by unfold_locales simp

lemma b64_encode_Nil [simp]: "b64_encode bs = [] \<longleftrightarrow> bs = []"
  by (cases bs rule: b64_encode.cases) (simp_all add: Let_def)

lemma decodeBase64UTF16_encode:
  assumes "latin_start p"
  shows "decodeBase64UTF16 (b64_encode (EncodeUTF16LE p)) = Inr p"
proof -
  have "p \<noteq> []" using assms by (auto simp: latin_start_def)
  then have "EncodeUTF16LE p \<noteq> []"
    by (rule EncodeUTF16LE_not_Nil [OF utf16le.dec_enc [OF assms]])
  then show ?thesis
    using onefs_name.chain_dec_enc [OF assms] by (simp add: decodeBase64UTF16_def)
qed

section \<open>The event document\<close>

definition attr_list :: "(string \<times> string) list \<Rightarrow> attrs" where
  "attr_list fs = map (\<lambda>(n, v). (([], n), v)) fs"

lemma attr_field_list:
  assumes "distinct (map fst fs)"
  shows "attr_field n (attr_list fs) cur = (case map_of fs n of Some v \<Rightarrow> v | None \<Rightarrow> cur)"
proof -
  have none: "n \<notin> set (map fst gs) \<Longrightarrow> attr_field n (attr_list gs) c = c" for gs c
    by (induction gs) (auto simp: attr_field_def attr_list_def)
  show ?thesis using assms
  proof (induction fs arbitrary: cur)
    case (Cons f fs)
    have step: "attr_field n (attr_list (f # fs)) cur =
        attr_field n (attr_list fs) (if fst f = n then snd f else cur)"
      by (cases f) (simp add: attr_field_def attr_list_def)
    show ?case
      using Cons none [of fs] by (cases "fst f = n") (auto simp: step map_of_eq_None_iff)
  qed (simp add: attr_field_def attr_list_def)
qed

definition fields_ok :: "(string \<times> string) list \<Rightarrow> bool" where
  "fields_ok fs \<longleftrightarrow> list_all (\<lambda>(n, v). xml_chars v) fs"

lemma ok_attr_list: "fields_ok fs \<Longrightarrow> list_all (\<lambda>(n, v). plain_name n) fs \<Longrightarrow> ok_attrs (attr_list fs)"
  by (auto simp: ok_attrs_def attr_list_def fields_ok_def list_all_iff)

definition nfs_fields :: "onefsNFSEventArgs \<Rightarrow> (string \<times> string) list" where
  "nfs_fields n =
     [(''eventType'', n_EventType n), (''desiredAccess'', n_DesiredAccess n),
      (''createDispo'', n_CreateDispo n), (''numberOfWrites'', n_NumberOfWrites n),
      (''numberOfReads'', n_NumberOfReads n), (''bytesRead'', n_BytesRead n),
      (''bytesWritten'', n_BytesWritten n), (''userSid'', n_UserSid n), (''clientIP'', n_ClientIP n),
      (''serverName'', n_ServerName n), (''timeStamp'', n_TimeStamp n),
      (''timeStampMicroSeconds'', n_TimeStampMicroSeconds n)]"

definition args_fields :: "onefsRequest \<Rightarrow> (string \<times> string) list" where
  "args_fields r = [(''action'', a_Action r), (''sourceIP'', a_SourceIP r), (''name'', a_Name r),
     (''protocol'', a_Protocol r)]"

definition onefs_children :: "onefsRequest \<Rightarrow> xnode list" where
  "onefs_children r =
     Elem ([], ''Args'') (attr_list (args_fields r)) [] #
     (case NFS r of Some n \<Rightarrow> [Elem ([], ''NFSEventArgs'') (attr_list (nfs_fields n)) []] | None \<Rightarrow> [])"

definition onefs_doc :: "onefsRequest \<Rightarrow> xnode" where
  "onefs_doc r = Elem ([], ''CheckFileRequest'') [] (onefs_children r)"

definition onefs_ok :: "onefsRequest \<Rightarrow> bool" where
  "onefs_ok r \<longleftrightarrow> fields_ok (args_fields r) \<and>
     (case NFS r of Some n \<Rightarrow> fields_ok (nfs_fields n) | None \<Rightarrow> True)"

lemma nfs_attrs_fields: "nfs_attrs (attr_list (nfs_fields n)) m = n"
proof -
  have "distinct (map fst (nfs_fields n))" by (simp add: nfs_fields_def)
  note f = attr_field_list [OF this]
  show ?thesis unfolding nfs_attrs_def f by (simp add: nfs_fields_def)
qed

lemma unmarshal_onefs_children: "unmarshal_onefs (onefs_children r) = r"
proof -
  have d: "distinct (map fst (args_fields r))" by (simp add: args_fields_def)
  have e: "elements ''Args'' (onefs_children r) = [(attr_list (args_fields r), [])]"
    "elements ''NFSEventArgs'' (onefs_children r) =
      (case NFS r of Some n \<Rightarrow> [(attr_list (nfs_fields n), [])] | None \<Rightarrow> [])"
    by (cases "NFS r"; simp add: elements_def onefs_children_def)+
  have a: "args_attr n (onefs_children r) = (case map_of (args_fields r) n of Some v \<Rightarrow> v | None \<Rightarrow> [])" for n
    by (simp add: args_attr_def e attr_field_list [OF d])
  show ?thesis unfolding unmarshal_onefs_def a e
    by (simp add: args_fields_def nfs_attrs_fields split: option.split)
qed

lemma ok_onefs_doc:
  assumes "onefs_ok r"
  shows "ok_node (onefs_doc r)"
proof -
  have "list_all (\<lambda>(n, v). plain_name n) (args_fields r)"
    "list_all (\<lambda>(n, v). plain_name n) (nfs_fields n)" for n
    by (simp_all add: args_fields_def nfs_fields_def plain_name_def is_name_byte_def Let_def)
  then show ?thesis using assms ok_attr_list
    by (auto simp: onefs_doc_def onefs_children_def onefs_ok_def plain_name_def is_name_byte_def
        Let_def ok_attrs_def split: option.splits)
qed

lemma Unmarshal_onefs_doc:
  assumes "onefs_ok r"
  shows "Unmarshal nt n (print_node (onefs_doc r)) =
    (if ''CheckFileRequest'' = n then Inr ([], onefs_children r) else Inl ErrXml)"
  using Unmarshal_print [of "''CheckFileRequest''" "[]" "onefs_children r" nt n "[]"]
    ok_onefs_doc [OF assms] by (simp add: onefs_doc_def del: print_node.simps)

section \<open>Properties\<close>

text \<open>C40: A OneFS event keeps everything the payload says, as long as its path and its server name
  begin with a character in Latin-1, as a path does with its slash.  For a request whose path and
  server name are the base64 of the UTF-16LE of such texts \<open>p\<close> and \<open>sv\<close>, the printed document, in
  UTF-8 or UTF-16LE, parses to exactly one event with that path, server, actor, client,
  instant and counters.\<close>

theorem ParseOneFSEvent_document:
  assumes "onefs_ok r" "NFS r = Some n" "latin_start p" "latin_start sv"
    and "a_Name r = b64_encode (EncodeUTF16LE p)"
    and "n_ServerName n = b64_encode (EncodeUTF16LE sv)"
    and "body = print_node (onefs_doc r) \<or> body = EncodeUTF16LE (print_node (onefs_doc r))"
  shows "ParseOneFSEvent nt body t =
    Inr [\<lparr>EventType = onefsEventTypeName (n_EventType n), FilePath = p,
          Username = [], Domain = [], UserSID = n_UserSid n, LogonID = [],
          ClientAddr = n_ClientIP n, Protocol = ceeProtocolName (a_Protocol r), Server = sv,
          Timestamp = onefsTimestamp (n_TimeStamp n) (n_TimeStampMicroSeconds n) t,
          BytesRead = parseInt64 (n_BytesRead n), BytesWritten = parseInt64 (n_BytesWritten n),
          NumberOfReads = parseInt64 (n_NumberOfReads n),
          NumberOfWrites = parseInt64 (n_NumberOfWrites n)\<rparr>]"
proof -
  have ok: "ok_node (Elem ([], ''CheckFileRequest'') [] (onefs_children r))"
    using ok_onefs_doc [OF assms(1)] by (simp add: onefs_doc_def)
  have "DecodeBody body = Inr (print_node (onefs_doc r))"
    using DecodeBody_print [OF ok] assms(7) by (auto simp: onefs_doc_def)
  then show ?thesis
    using Unmarshal_onefs_doc [OF assms(1), of nt "''CheckFileRequest''"] assms(2,5,6)
      decodeBase64UTF16_encode [OF assms(3)] decodeBase64UTF16_encode [OF assms(4)]
    by (simp add: ParseOneFSEvent_def parseOneFSEventDecoded_def unmarshal_onefs_children Let_def)
qed

definition sample_onefs :: onefsRequest where
  "sample_onefs =
     \<lparr>a_Action = ''11'', a_SourceIP = ''10.0.0.9'', a_Name = b64_encode (EncodeUTF16LE ''/ifs''),
      a_Protocol = ''1'',
      NFS = Some (no_nfs\<lparr>n_EventType := ''32'', n_ServerName := b64_encode (EncodeUTF16LE ''n1''),
        n_TimeStamp := ''7'', n_BytesRead := ''9''\<rparr>)\<rparr>"

theorem ParseOneFSEvent_document_witness:
  "\<exists>e. ParseOneFSEvent ascii_tables (print_node (onefs_doc sample_onefs)) (mk_time 0 0) = Inr [e] \<and>
    FilePath e = ''/ifs'' \<and> Server e = ''n1''"
proof -
  have u: "EncodeUTF16LE ''/ifs'' = [CHR ''/'', CHR 0x00, CHR ''i'', CHR 0x00, CHR ''f'', CHR 0x00, CHR ''s'', CHR 0x00]"
    "EncodeUTF16LE ''n1'' = [CHR ''n'', CHR 0x00, CHR ''1'', CHR 0x00]"
    by (simp_all add: EncodeUTF16LE_def utf16_encode_def utf16_encode_rune_def is_scalar_def
        is_surrogate_def le_bytes_def char_of_eq_iff take_bit_eq_mod)
  have ok: "onefs_ok sample_onefs"
    by (simp add: onefs_ok_def sample_onefs_def fields_ok_def args_fields_def nfs_fields_def no_nfs_def
        xml_chars_def in_char_range_def u Let_def b64_char_def)
  have l: "latin_start ''/ifs''" "latin_start ''n1''" by (simp_all add: latin_start_def)
  have n: "NFS sample_onefs = Some (the (NFS sample_onefs))" by (simp add: sample_onefs_def)
  from ParseOneFSEvent_document [OF ok n l _ _ disjI1 [OF refl], of ascii_tables "mk_time 0 0"]
  show ?thesis by (simp add: sample_onefs_def)
qed

text \<open>A OneFS event type is named by the table or keeps its number: the six measured
  codes resolve to their names, every other 64-bit number gives an explicitly unmapped
  label that ends in the number itself.\<close>

theorem onefsEventTypeName_codes:
  assumes "- (2 ^ 63) \<le> n" "n < 2 ^ 63"
  shows "if n \<in> {8, 32, 128, 256, 512, 2048}
    then map_of onefsEventType n = Some (onefsEventTypeName (Itoa n)) \<and>
         \<not> IsUnmappedOneFSEventType (onefsEventTypeName (Itoa n))
    else onefsEventTypeName (Itoa n) = unmappedPrefix @ Itoa n \<and>
         IsUnmappedOneFSEventType (onefsEventTypeName (Itoa n))"
proof -
  have "TrimSpace (Itoa n) = Itoa n"
    using Itoa_nonspace [of n] list_all_hd list_all_last by (intro TrimSpace_id) blast+
  then have e: "onefsEventTypeName (Itoa n) =
      (case map_of onefsEventType n of Some name \<Rightarrow> name | None \<Rightarrow> unmappedPrefix @ Itoa n)"
    using ParseInt_Itoa [OF assms] by (simp add: onefsEventTypeName_def Atoi_def)
  show ?thesis
    by (auto simp: e onefsEventType_def IsUnmappedOneFSEventType_def unmappedPrefix_def)
qed

theorem onefsEventTypeName_codes_witness:
  "onefsEventTypeName (Itoa 4096) = ''CEPP_ONEFS_UNMAPPED_'' @ Itoa 4096"
  using onefsEventTypeName_codes [of 4096] by (simp add: unmappedPrefix_def)

text \<open>The two event tables corroborate each other: every code OneFS was measured to
  send has the same name in the CEE table.\<close>

theorem event_tables_corroborate:
  "list_all (\<lambda>(k, name). ceeEventTypeName (''0x'' @ format_nat 16 (nat k)) = name \<and>
     onefsEventTypeName (Itoa k) = name) onefsEventType"
proof -
  have "onefsEventTypeName (Itoa k) = (case map_of onefsEventType k of Some name \<Rightarrow> name
      | None \<Rightarrow> unmappedPrefix @ Itoa k)" if "0 \<le> k" "k < 4096" for k
  proof -
    have "TrimSpace (Itoa k) = Itoa k"
      using Itoa_nonspace [of k] list_all_hd list_all_last by (intro TrimSpace_id) blast+
    then show ?thesis using ParseInt_Itoa [of k] that by (simp add: onefsEventTypeName_def Atoi_def)
  qed
  moreover have "ceeEventTypeName (CHR ''0'' # CHR ''x'' # format_nat 16 n) =
      (case map_of ceeEventType n of Some name \<Rightarrow> name | None \<Rightarrow> unmappedCEEPrefix @ format_nat 10 n)"
    if "n < 2 ^ 64" for n
    using ceeEventTypeName_hex [OF that] by simp
  ultimately show ?thesis by (simp add: onefsEventType_def ceeEventType_def)
qed

text \<open>Sub-second order survives: a positive second and a microsecond count give the
  exact instant, and a microsecond field that is no count (negative, or a million and
  more, however large) is dropped rather than moving the event to another second.\<close>

theorem onefsTimestamp_exact:
  assumes "0 < s" "s < 2 ^ 63"
  shows "onefsTimestamp (Itoa s) (Itoa us) fb =
    mk_time s (if 0 \<le> us \<and> us < 1000000 then nat us * 1000 else 0)"
proof -
  have trim: "TrimSpace (Itoa n) = Itoa n" for n
    using Itoa_nonspace [of n] list_all_hd list_all_last by (intro TrimSpace_id) blast+
  have s: "ParseInt (Itoa s) 10 = (s, None)" using assms by (intro ParseInt_Itoa) simp_all
  show ?thesis
  proof (cases "0 \<le> us \<and> us < 1000000")
    case True
    then have "ParseInt (Itoa us) 10 = (us, None)" by (intro ParseInt_Itoa) simp_all
    moreover have "us * 1000 div 1000000000 = 0" "us * 1000 mod 1000000000 = us * 1000"
      using True by (simp_all add: div_pos_pos_trivial mod_pos_pos_trivial)
    ultimately show ?thesis using True s assms(1)
      by (simp add: onefsTimestamp_def trim Unix_def nat_mult_distrib)
  next
    case False
    obtain v e where p: "ParseInt (Itoa us) 10 = (v, e)" by fastforce
    then have "v = max (- (2 ^ 63)) (min us (2 ^ 63 - 1))" using ParseInt_Itoa_clamp [of us] by simp
    then have "v < 0 \<or> 1000000 \<le> v" using False by auto
    then show ?thesis using False s p assms(1)
      by (auto simp: onefsTimestamp_def trim Unix_def Let_def)
  qed
qed

theorem onefsTimestamp_exact_witness:
  "onefsTimestamp (Itoa 1786734886) (Itoa 18481) (mk_time 0 0) = mk_time 1786734886 18481000"
  using onefsTimestamp_exact [of 1786734886 18481 "mk_time 0 0"] by simp

text \<open>A name whose first two characters lie outside Latin-1 is not recognised as UTF-16,
  because \<open>DecodeBody\<close> looks for a zero byte, and comes back as its raw bytes.\<close>

lemma decodeBase64UTF16_wide:
  "decodeBase64UTF16 (b64_encode (EncodeUTF16LE (utf8_encode [0x4E2D, 0x6587]))) =
     Inr [CHR ''-'', CHR ''N'', CHR 0x87, CHR ''e'']"
proof -
  have "runes_of (utf8_encode [0x4E2D, 0x6587]) = [0x4E2D, 0x6587]"
    by (rule runes_of_utf8_encode) (simp add: is_scalar_def is_surrogate_def)
  then have "EncodeUTF16LE (utf8_encode [0x4E2D, 0x6587]) = [CHR ''-'', CHR ''N'', CHR 0x87, CHR ''e'']"
    by (simp add: EncodeUTF16LE_def utf16_encode_def utf16_encode_rune_def is_scalar_def
        is_surrogate_def le_bytes_def char_of_eq_iff take_bit_eq_mod del: utf8_encode_simps)
  then show ?thesis
    by (simp add: decodeBase64UTF16_def DecodeString_encode DecodeBody_def IsUTF16_def
        del: b64_encode.simps utf8_encode_simps)
qed

end
