(* ===== verification/Check_Event.thy ===== *)
theory Check_Event
  imports One_FS
begin

text \<open>
  \<^verbatim>\<open>pkg/parser/checkevent.go\<close>: CEE's own event delivery, a list of \<^verbatim>\<open>Event\<close> elements
  whose fields are attributes.
\<close>

section \<open>The source\<close>

record eventExtXML =
  ext_UserID :: string
  ext_OwnerID :: string

record checkEventXML =
  x_Event :: string
  x_Path :: string
  x_Flag :: string
  x_Server :: string
  x_Protocol :: string
  x_Share :: string
  x_ClientIP :: string
  x_ServerIP :: string
  x_TimeStamp :: string
  x_UserSid :: string
  x_OwnerSid :: string
  x_FileSize :: string
  x_NewName :: string
  x_DesiredAccess :: string
  x_CreateDispo :: string
  x_NTStatus :: string
  x_RelativePath :: string
  x_EncodingType :: string
  x_EncodedPath :: string
  x_EncodedRelativePath :: string
  x_Ext :: eventExtXML
  x_EncodedNewName :: string

record checkEventRequest =
  q_Count :: string
  q_Events :: "checkEventXML list"

definition unmarshal_ext :: "xnode list \<Rightarrow> eventExtXML" where
  "unmarshal_ext ch =
     foldl (\<lambda>x (as, c). \<lparr>ext_UserID = attr_field ''userId'' as (ext_UserID x),
                         ext_OwnerID = attr_field ''ownerId'' as (ext_OwnerID x)\<rparr>)
       \<lparr>ext_UserID = [], ext_OwnerID = []\<rparr> (elements ''EventExt'' ch)"

definition unmarshal_event :: "attrs \<Rightarrow> xnode list \<Rightarrow> checkEventXML" where
  "unmarshal_event as ch =
     \<lparr>x_Event = attr_field ''event'' as [],
      x_Path = attr_field ''path'' as [],
      x_Flag = attr_field ''flag'' as [],
      x_Server = attr_field ''server'' as [],
      x_Protocol = attr_field ''protocol'' as [],
      x_Share = attr_field ''share'' as [],
      x_ClientIP = attr_field ''clientIP'' as [],
      x_ServerIP = attr_field ''serverIP'' as [],
      x_TimeStamp = attr_field ''timeStamp'' as [],
      x_UserSid = attr_field ''userSid'' as [],
      x_OwnerSid = attr_field ''ownerSid'' as [],
      x_FileSize = attr_field ''fileSize'' as [],
      x_NewName = attr_field ''newName'' as [],
      x_DesiredAccess = attr_field ''desiredAccess'' as [],
      x_CreateDispo = attr_field ''createDispo'' as [],
      x_NTStatus = attr_field ''ntStatus'' as [],
      x_RelativePath = attr_field ''relativePath'' as [],
      x_EncodingType = attr_field ''encodingType'' as [],
      x_EncodedPath = attr_field ''encodedPath'' as [],
      x_EncodedRelativePath = attr_field ''encodedRelativePath'' as [],
      x_Ext = unmarshal_ext ch,
      x_EncodedNewName = attr_field ''encodedNewName'' as []\<rparr>"

text \<open>A repeated \<^verbatim>\<open>EventList\<close> fills the same struct: its count replaces, its events append.\<close>

definition unmarshal_request :: "xnode list \<Rightarrow> checkEventRequest" where
  "unmarshal_request ch =
     foldl (\<lambda>r (as, c). \<lparr>q_Count = attr_field ''count'' as (q_Count r),
                         q_Events = q_Events r @
                           map (\<lambda>(as', c'). unmarshal_event as' c') (elements ''Event'' c)\<rparr>)
       \<lparr>q_Count = [], q_Events = []\<rparr> (elements ''EventList'' ch)"

text \<open>\<^verbatim>\<open>strings.ToLower\<close> before a comparison with ASCII literals: no letter outside ASCII
  lowers to a letter of these names, so the ASCII letters decide.\<close>

definition decodeCEEEncoded :: "string \<Rightarrow> string \<Rightarrow> go_error + string" where
  "decodeCEEEncoded s encodingType =
     (if map lower_ascii (TrimSpace encodingType) \<in>
           {[], ''base64'', ''base64utf16'', ''utf16''}
      then decodeBase64UTF16 s
      else Inl (ErrUnknownEncoding encodingType))"

definition ceeEventPath :: "checkEventXML \<Rightarrow> string" where
  "ceeEventPath e =
     (if x_EncodedPath e \<noteq> [] then
        (case decodeCEEEncoded (x_EncodedPath e) (x_EncodingType e) of
           Inr p \<Rightarrow> if p \<noteq> [] then p else x_Path e
         | Inl err \<Rightarrow> x_Path e)
      else x_Path e)"

definition ceeUserSID :: "checkEventXML \<Rightarrow> string" where
  "ceeUserSID e =
     (if x_UserSid e \<noteq> [] then x_UserSid e
      else if ext_UserID (x_Ext e) \<noteq> [] then ''S-1-22-1-'' @ ext_UserID (x_Ext e)
      else [])"

definition convertCheckEvent :: "checkEventXML \<Rightarrow> gotime \<Rightarrow> CEPAEvent" where
  "convertCheckEvent e fallback =
     \<lparr>EventType = ceeEventTypeName (x_Event e),
      FilePath = ceeEventPath e,
      Username = [],
      Domain = [],
      UserSID = ceeUserSID e,
      LogonID = [],
      ClientAddr = x_ClientIP e,
      Protocol = ceeProtocolName (x_Protocol e),
      Server = TrimSpace (x_Server e),
      Timestamp = ceeTimestamp (x_TimeStamp e) fallback,
      BytesRead = 0,
      BytesWritten = 0,
      NumberOfReads = 0,
      NumberOfWrites = 0\<rparr>"

definition parseCheckEventRequestDecoded ::
  "name_tables \<Rightarrow> bytes \<Rightarrow> gotime \<Rightarrow> go_error + CEPAEvent list" where
  "parseCheckEventRequestDecoded nt decoded receiveTime =
     (case Unmarshal nt ''CheckEventRequest'' decoded of
        Inl err \<Rightarrow> Inl (ErrWrapped ''parsing CEE CheckEventRequest'' err)
      | Inr (as, ch) \<Rightarrow>
          (let r = unmarshal_request ch in
           if length (q_Events r) = 0 then Inl (ErrNoEvents (q_Count r))
           else Inr (map (\<lambda>e. convertCheckEvent e receiveTime) (q_Events r))))"

definition ParseCheckEventRequest ::
  "name_tables \<Rightarrow> bytes \<Rightarrow> gotime \<Rightarrow> go_error + CEPAEvent list" where
  "ParseCheckEventRequest nt body receiveTime =
     (case DecodeBody body of
        Inl err \<Rightarrow> Inl (ErrWrapped ''decoding CEE CheckEventRequest'' err)
      | Inr decoded \<Rightarrow> parseCheckEventRequestDecoded nt decoded receiveTime)"

section \<open>The request document\<close>

definition event_fields :: "checkEventXML \<Rightarrow> (string \<times> string) list" where
  "event_fields e =
     [(''event'', x_Event e),
      (''path'', x_Path e),
      (''flag'', x_Flag e),
      (''server'', x_Server e),
      (''protocol'', x_Protocol e),
      (''share'', x_Share e),
      (''clientIP'', x_ClientIP e),
      (''serverIP'', x_ServerIP e),
      (''timeStamp'', x_TimeStamp e),
      (''userSid'', x_UserSid e),
      (''ownerSid'', x_OwnerSid e),
      (''fileSize'', x_FileSize e),
      (''newName'', x_NewName e),
      (''desiredAccess'', x_DesiredAccess e),
      (''createDispo'', x_CreateDispo e),
      (''ntStatus'', x_NTStatus e),
      (''relativePath'', x_RelativePath e),
      (''encodingType'', x_EncodingType e),
      (''encodedPath'', x_EncodedPath e),
      (''encodedRelativePath'', x_EncodedRelativePath e),
      (''encodedNewName'', x_EncodedNewName e)]"

definition ext_fields :: "eventExtXML \<Rightarrow> (string \<times> string) list" where
  "ext_fields x = [(''userId'', ext_UserID x), (''ownerId'', ext_OwnerID x)]"

definition event_node :: "checkEventXML \<Rightarrow> xnode" where
  "event_node e = Elem ([], ''Event'') (attr_list (event_fields e))
     [Elem ([], ''EventExt'') (attr_list (ext_fields (x_Ext e))) []]"

definition request_children :: "checkEventRequest \<Rightarrow> xnode list" where
  "request_children q = [Elem ([], ''EventList'') (attr_list [(''count'', q_Count q)]) (map event_node (q_Events q))]"

definition request_doc :: "checkEventRequest \<Rightarrow> xnode" where
  "request_doc q = Elem ([], ''CheckEventRequest'') [] (request_children q)"

definition event_ok :: "checkEventXML \<Rightarrow> bool" where
  "event_ok e \<longleftrightarrow> fields_ok (event_fields e) \<and> fields_ok (ext_fields (x_Ext e))"

definition request_ok :: "checkEventRequest \<Rightarrow> bool" where
  "request_ok q \<longleftrightarrow> xml_chars (q_Count q) \<and> list_all event_ok (q_Events q)"

lemma unmarshal_event_fields:
  "unmarshal_event (attr_list (event_fields e))
     [Elem ([], ''EventExt'') (attr_list (ext_fields (x_Ext e))) []] = e"
proof -
  have d: "distinct (map fst (event_fields e))" "distinct (map fst (ext_fields (x_Ext e)))"
    by (simp_all add: event_fields_def ext_fields_def)
  have "unmarshal_ext [Elem ([], ''EventExt'') (attr_list (ext_fields (x_Ext e))) []] = x_Ext e"
    by (simp add: unmarshal_ext_def elements_def attr_field_list [OF d(2)]) (simp add: ext_fields_def)
  then show ?thesis unfolding unmarshal_event_def attr_field_list [OF d(1)]
    by (simp add: event_fields_def)
qed

lemma unmarshal_request_children: "unmarshal_request (request_children q) = q"
proof -
  have e: "elements ''Event'' (map event_node es) =
      map (\<lambda>e. (attr_list (event_fields e), [Elem ([], ''EventExt'') (attr_list (ext_fields (x_Ext e))) []])) es"
    for es
    by (induction es) (simp_all add: elements_def event_node_def)
  have "elements ''EventList'' (request_children q) =
      [(attr_list [(''count'', q_Count q)], map event_node (q_Events q))]"
    by (simp add: elements_def request_children_def)
  then show ?thesis
    by (simp add: unmarshal_request_def e unmarshal_event_fields attr_field_list o_def)
qed

lemma ok_event_node: "event_ok e \<Longrightarrow> ok_node (event_node e)"
proof -
  have "list_all (\<lambda>(n, v). plain_name n) (event_fields e)"
    "list_all (\<lambda>(n, v). plain_name n) (ext_fields (x_Ext e))"
    by (simp_all add: event_fields_def ext_fields_def plain_name_def is_name_byte_def Let_def)
  moreover assume "event_ok e"
  ultimately show ?thesis using ok_attr_list
    by (simp add: event_node_def event_ok_def plain_name_def is_name_byte_def Let_def)
qed

lemma ok_request_doc:
  assumes "request_ok q"
  shows "ok_node (request_doc q)"
proof -
  have "no_adjacent (map event_node (q_Events q))"
    by (rule no_adjacent_elems) (simp add: list_all_iff event_node_def)
  moreover have "ok_attrs (attr_list [(''count'', q_Count q)])"
    using assms by (intro ok_attr_list)
      (simp_all add: fields_ok_def request_ok_def plain_name_def is_name_byte_def Let_def)
  ultimately show ?thesis using assms ok_event_node
    by (auto simp: request_doc_def request_children_def request_ok_def plain_name_def
        is_name_byte_def Let_def ok_attrs_def list_all_iff)
qed

lemma ParseCheckEventRequest_doc:
  assumes "request_ok q"
    and "body = print_node (request_doc q) \<or> body = EncodeUTF16LE (print_node (request_doc q))"
  shows "ParseCheckEventRequest nt body t =
    (if q_Events q = [] then Inl (ErrNoEvents (q_Count q))
     else Inr (map (\<lambda>e. convertCheckEvent e t) (q_Events q)))"
proof -
  have ok: "ok_node (Elem ([], ''CheckEventRequest'') [] (request_children q))"
    using ok_request_doc [OF assms(1)] by (simp add: request_doc_def)
  have "DecodeBody body = Inr (print_node (request_doc q))"
    using DecodeBody_print [OF ok] assms(2) by (auto simp: request_doc_def)
  moreover have "Unmarshal nt ''CheckEventRequest'' (print_node (request_doc q)) = Inr ([], request_children q)"
    using Unmarshal_print [OF ok, of nt "''CheckEventRequest''" "[]"]
    by (simp add: request_doc_def del: print_node.simps)
  ultimately show ?thesis
    by (simp add: ParseCheckEventRequest_def parseCheckEventRequestDecoded_def
        unmarshal_request_children Let_def)
qed

section \<open>Properties\<close>

text \<open>C9: A CEE delivery of \<open>n\<close> events yields exactly those \<open>n\<close> events, in order, whether
  it travels as UTF-8 or as UTF-16LE; an empty list is reported with its count and
  yields no event.\<close>

theorem ParseCheckEventRequest_document:
  assumes "request_ok q"
    and "body = print_node (request_doc q) \<or> body = EncodeUTF16LE (print_node (request_doc q))"
  shows "ParseCheckEventRequest nt body t =
    (if q_Events q = [] then Inl (ErrNoEvents (q_Count q))
     else Inr (map (\<lambda>e. convertCheckEvent e t) (q_Events q)))"
  by (rule ParseCheckEventRequest_doc [OF assms])

definition sample_event :: checkEventXML where
  "sample_event = (unmarshal_event [] [])\<lparr>x_Event := ''0x20'', x_Path := ''/fs/<a>'',
     x_Ext := \<lparr>ext_UserID = ''0'', ext_OwnerID = []\<rparr>\<rparr>"

theorem ParseCheckEventRequest_document_witness:
  "\<exists>e. ParseCheckEventRequest ascii_tables
       (print_node (request_doc \<lparr>q_Count = ''1'', q_Events = [sample_event]\<rparr>)) (mk_time 5 0) = Inr [e] \<and>
     FilePath e = ''/fs/<a>'' \<and> UserSID e = ''S-1-22-1-0''"
proof -
  have "request_ok \<lparr>q_Count = ''1'', q_Events = [sample_event]\<rparr>"
    by (simp add: request_ok_def event_ok_def sample_event_def fields_ok_def event_fields_def
        ext_fields_def unmarshal_event_def attr_field_def xml_chars_def in_char_range_def)
  from ParseCheckEventRequest_document [OF this disjI1 [OF refl], of ascii_tables "mk_time 5 0"]
  show ?thesis
    by (simp add: convertCheckEvent_def sample_event_def ceeEventPath_def ceeUserSID_def
        unmarshal_event_def attr_field_def)
qed

text \<open>The encoded path wins exactly when it decodes: an event whose encoded path is the
  base64 of the UTF-16LE of \<open>p\<close>, under any of the four known scheme names in any case
  and spacing, has path \<open>p\<close>; under any other scheme it keeps the plain path, so a path is
  never reported as decoded when it was not.\<close>

theorem ceeEventPath_encoded:
  assumes "latin_start p" "x_EncodedPath e = b64_encode (EncodeUTF16LE p)"
  shows "ceeEventPath e =
    (if map lower_ascii (TrimSpace (x_EncodingType e)) \<in> {[], ''base64'', ''base64utf16'', ''utf16''}
     then p else x_Path e)"
proof -
  have "p \<noteq> []" using assms(1) by (auto simp: latin_start_def)
  moreover have "EncodeUTF16LE p \<noteq> []"
    by (rule EncodeUTF16LE_not_Nil [OF utf16le.dec_enc [OF assms(1)]]) fact
  ultimately show ?thesis using assms decodeBase64UTF16_encode [OF assms(1)]
    by (simp add: ceeEventPath_def decodeCEEEncoded_def)
qed

theorem ceeEventPath_encoded_witness:
  "ceeEventPath (sample_event\<lparr>x_EncodedPath := b64_encode (EncodeUTF16LE ''/fs/y''), x_EncodingType := ''Base64''\<rparr>) = ''/fs/y''"
proof -
  have "TrimSpace ''Base64'' = ''Base64''" by (rule TrimSpace_id) (simp_all add: ascii_nonspace_def)
  moreover have "latin_start ''/fs/y''" by (simp add: latin_start_def)
  ultimately show ?thesis
    by (subst ceeEventPath_encoded)
       (simp_all add: lower_ascii_def Let_def char_of_eq_iff take_bit_eq_mod)
qed

end
