(* ===== verification/Mapper.thy ===== *)
theory Mapper
  imports Check_Event
begin

text \<open>
  \<^verbatim>\<open>pkg/mapper/mapper.go\<close> and the event type of \<^verbatim>\<open>pkg/evtx/writer.go\<close>: the translation
  of a normalised CEPA event into a Windows audit event.
\<close>

section \<open>The source\<close>

record WindowsEvent =
  w_EventID :: int
  w_ProviderName :: string
  w_Computer :: string
  w_Channel :: string
  w_TimeCreated :: gotime
  w_SubjectUserSID :: string
  w_SubjectUsername :: string
  w_SubjectDomain :: string
  w_SubjectLogonID :: string
  w_ObjectType :: string
  w_ObjectName :: string
  w_AccessMask :: string
  w_Accesses :: string
  w_ProcessID :: int
  w_HandleID :: string
  w_ClientAddr :: string
  w_BytesRead :: int
  w_BytesWritten :: int
  w_NumberOfReads :: int
  w_NumberOfWrites :: int
  w_CEPAEventType :: string

definition DefaultProviderName :: string where
  "DefaultProviderName = ''PowerStore-CEPA''"

definition DefaultChannel :: string where
  "DefaultChannel = ''Security''"

definition cepaToEventID :: "(string \<times> int) list" where
  "cepaToEventID =
     [(''CEPP_CREATE_FILE'', 4663),
      (''CEPP_CREATE_DIRECTORY'', 4663),
      (''CEPP_FILE_READ'', 4663),
      (''CEPP_FILE_READ_DIR'', 4663),
      (''CEPP_FILE_WRITE'', 4663),
      (''CEPP_CLOSE_MODIFIED'', 4663),
      (''CEPP_CLOSE_UNMODIFIED'', 4658),
      (''CEPP_RENAME_FILE'', 4663),
      (''CEPP_RENAME_DIRECTORY'', 4663),
      (''CEPP_DELETE_FILE'', 4660),
      (''CEPP_DELETE_DIRECTORY'', 4660),
      (''CEPP_SETACL_FILE'', 4670),
      (''CEPP_SETACL_DIRECTORY'', 4670),
      (''CEPP_OPEN_FILE_NOACCESS'', 4663),
      (''CEPP_OPEN_FILE_READ'', 4663),
      (''CEPP_OPEN_FILE_WRITE'', 4663),
      (''CEPP_OPEN_DIRECTORY'', 4663),
      (''CEPP_CLOSE_DIRECTORY'', 4658),
      (''CEPP_SETSEC_FILE'', 4670),
      (''CEPP_SETSEC_DIRECTORY'', 4670)]"

definition accessMaskFor :: "(string \<times> string) list" where
  "accessMaskFor =
     [(''CEPP_FILE_READ'', ''0x1''),
      (''CEPP_FILE_READ_DIR'', ''0x1''),
      (''CEPP_CREATE_FILE'', ''0x2''),
      (''CEPP_CREATE_DIRECTORY'', ''0x4''),
      (''CEPP_FILE_WRITE'', ''0x2''),
      (''CEPP_CLOSE_MODIFIED'', ''0x2''),
      (''CEPP_CLOSE_UNMODIFIED'', ''0x0''),
      (''CEPP_RENAME_FILE'', ''0x2''),
      (''CEPP_RENAME_DIRECTORY'', ''0x2''),
      (''CEPP_DELETE_FILE'', ''0x10000''),
      (''CEPP_DELETE_DIRECTORY'', ''0x10000''),
      (''CEPP_SETACL_FILE'', ''0x40000''),
      (''CEPP_SETACL_DIRECTORY'', ''0x40000''),
      (''CEPP_OPEN_FILE_NOACCESS'', ''0x0''),
      (''CEPP_OPEN_FILE_READ'', ''0x1''),
      (''CEPP_OPEN_FILE_WRITE'', ''0x2''),
      (''CEPP_OPEN_DIRECTORY'', ''0x1''),
      (''CEPP_CLOSE_DIRECTORY'', ''0x0''),
      (''CEPP_SETSEC_FILE'', ''0x80000''),
      (''CEPP_SETSEC_DIRECTORY'', ''0x80000'')]"

definition accessDescFor :: "(string \<times> string) list" where
  "accessDescFor =
     [(''CEPP_FILE_READ'', ''ReadData (or ListDirectory)''),
      (''CEPP_FILE_READ_DIR'', ''ReadData (or ListDirectory)''),
      (''CEPP_CREATE_FILE'', ''WriteData (or AddFile)''),
      (''CEPP_CREATE_DIRECTORY'', ''AppendData (or AddSubdirectory)''),
      (''CEPP_FILE_WRITE'', ''WriteData (or AddFile)''),
      (''CEPP_CLOSE_MODIFIED'', ''WriteData (or AddFile)''),
      (''CEPP_CLOSE_UNMODIFIED'', ''CloseHandle''),
      (''CEPP_RENAME_FILE'', ''WriteData (or AddFile)''),
      (''CEPP_RENAME_DIRECTORY'', ''WriteData (or AddFile)''),
      (''CEPP_DELETE_FILE'', ''DELETE''),
      (''CEPP_DELETE_DIRECTORY'', ''DELETE''),
      (''CEPP_SETACL_FILE'', ''WRITE_DAC''),
      (''CEPP_SETACL_DIRECTORY'', ''WRITE_DAC''),
      (''CEPP_OPEN_FILE_NOACCESS'', ''(no access requested)''),
      (''CEPP_OPEN_FILE_READ'', ''ReadData (or ListDirectory)''),
      (''CEPP_OPEN_FILE_WRITE'', ''WriteData (or AddFile)''),
      (''CEPP_OPEN_DIRECTORY'', ''ReadData (or ListDirectory)''),
      (''CEPP_CLOSE_DIRECTORY'', ''CloseHandle''),
      (''CEPP_SETSEC_FILE'', ''WRITE_OWNER''),
      (''CEPP_SETSEC_DIRECTORY'', ''WRITE_OWNER'')]"

definition ProviderName :: string where
  "ProviderName = DefaultProviderName"

definition objectType :: "string \<Rightarrow> string" where
  "objectType path =
     (if 0 < length path \<and> path ! (length path - 1) = CHR ''/'' then ''Directory'' else ''File'')"

text \<open>A lookup in a Go map of strings gives the empty string for an absent key.\<close>

definition lookup_string :: "(string \<times> string) list \<Rightarrow> string \<Rightarrow> string" where
  "lookup_string m k = (case map_of m k of Some v \<Rightarrow> v | None \<Rightarrow> [])"

text \<open>\<^verbatim>\<open>Map\<close>; the host name of the operating system is an argument, used when none is given.\<close>

definition Map :: "string \<Rightarrow> CEPAEvent \<Rightarrow> string \<Rightarrow> WindowsEvent" where
  "Map os_hostname e hostname0 =
     (let hostname = (if hostname0 = [] then os_hostname else hostname0);
          eventID = (case map_of cepaToEventID (EventType e) of Some i \<Rightarrow> i | None \<Rightarrow> 4663);
          mask0 = lookup_string accessMaskFor (EventType e);
          mask = (if mask0 = [] then ''0x0'' else mask0);
          desc0 = lookup_string accessDescFor (EventType e);
          desc = (if desc0 = [] then EventType e else desc0) in
      \<lparr>w_EventID = eventID,
       w_ProviderName = ProviderName,
       w_Computer = hostname,
       w_Channel = ''Security'',
       w_TimeCreated = Timestamp e,
       w_SubjectUserSID = UserSID e,
       w_SubjectUsername = Username e,
       w_SubjectDomain = Domain e,
       w_SubjectLogonID = LogonID e,
       w_ObjectType = objectType (FilePath e),
       w_ObjectName = FilePath e,
       w_AccessMask = mask,
       w_Accesses = desc,
       w_ProcessID = 4,
       w_HandleID = ''0x'' @ format_hex (sint (UnixNano (Timestamp e) AND 0xFFF)),
       w_ClientAddr = ClientAddr e,
       w_BytesRead = BytesRead e,
       w_BytesWritten = BytesWritten e,
       w_NumberOfReads = NumberOfReads e,
       w_NumberOfWrites = NumberOfWrites e,
       w_CEPAEventType = EventType e\<rparr>)"

section \<open>Lemmas\<close>

lemma mapper_tables_same_keys:
  "map_of cepaToEventID k = None \<longleftrightarrow> map_of accessMaskFor k = None"
  "map_of cepaToEventID k = None \<longleftrightarrow> map_of accessDescFor k = None"
proof -
  have "set (map fst cepaToEventID) = set (map fst accessMaskFor)"
    "set (map fst cepaToEventID) = set (map fst accessDescFor)"
    by (simp_all add: cepaToEventID_def accessMaskFor_def accessDescFor_def insert_commute)
  then show "map_of cepaToEventID k = None \<longleftrightarrow> map_of accessMaskFor k = None"
    "map_of cepaToEventID k = None \<longleftrightarrow> map_of accessDescFor k = None"
    by (simp_all add: map_of_eq_None_iff)
qed

lemma Map_fields [simp]:
  "w_EventID (Map h e n) = (case map_of cepaToEventID (EventType e) of Some i \<Rightarrow> i | None \<Rightarrow> 4663)"
  "w_ObjectName (Map h e n) = FilePath e"
  "w_TimeCreated (Map h e n) = Timestamp e"
  "w_CEPAEventType (Map h e n) = EventType e"
  "w_ClientAddr (Map h e n) = ClientAddr e"
  "w_SubjectUserSID (Map h e n) = UserSID e"
  by (simp_all add: Map_def Let_def)

lemma UnixNano_low_bits:
  "sint (UnixNano t AND 0xFFF) = (unix_sec t * 1000000000 + int (nsec t)) mod 4096"
proof -
  define x where "x = unix_sec t * 1000000000 + int (nsec t)"
  have "uint (word_of_int x :: u64) = take_bit 64 x" by (simp add: unsigned_of_int)
  moreover have "uint ((word_of_int x :: u64) AND 0xFFF) = take_bit 12 (uint (word_of_int x :: u64))"
    by (simp add: uint_and take_bit_eq_mask mask_eq_exp_minus_1)
  ultimately have u: "uint ((word_of_int x :: u64) AND 0xFFF) = x mod 4096"
    by (simp add: take_bit_eq_mod mod_mod_cancel)
  have "0 \<le> x mod 4096" "x mod 4096 < 2 ^ 63"
    using pos_mod_bound [of 4096 x] by simp_all
  then have "sint ((word_of_int x :: u64) AND 0xFFF) = x mod 4096"
    by (simp add: sint_uint u signed_take_bit_small)
  then show ?thesis unfolding UnixNano_def x_def .
qed

text \<open>The identifier and the access mask that may go together.\<close>

definition allowed_access :: "(int \<times> string) set" where
  "allowed_access =
     {(4660, ''0x10000''), (4670, ''0x40000''), (4670, ''0x80000''), (4658, ''0x0'')} \<union>
     {4663} \<times> {''0x0'', ''0x1'', ''0x2'', ''0x4''}"

lemma rows_consistent:
  "list_all (\<lambda>(k, i). lookup_string accessMaskFor k \<noteq> [] \<and>
     (i, lookup_string accessMaskFor k) \<in> allowed_access) cepaToEventID"
  unfolding allowed_access_def by code_simp

section \<open>Properties\<close>

text \<open>An event identifier never contradicts the access it reports.  For every event
  type, mapped or not, the identifier is one of the four file-audit identifiers: a deletion
  (4660) is reported exactly with the DELETE right, a permission or ownership change (4670)
  exactly with the WRITE_DAC or the WRITE_OWNER right, a closed handle (4658) with no right,
  and an object access (4663) with none, a read, a write or an append right.\<close>

theorem Map_consistent:
  "(w_EventID (Map h e n), w_AccessMask (Map h e n)) \<in>
     {(4660, ''0x10000''), (4670, ''0x40000''), (4670, ''0x80000''), (4658, ''0x0'')} \<union>
     {4663} \<times> {''0x0'', ''0x1'', ''0x2'', ''0x4''}"
proof (cases "map_of cepaToEventID (EventType e)")
  case None
  then have "lookup_string accessMaskFor (EventType e) = []"
    using mapper_tables_same_keys(1) by (simp add: lookup_string_def)
  then show ?thesis using None by (simp add: Map_def Let_def)
next
  case (Some i)
  then have "lookup_string accessMaskFor (EventType e) \<noteq> [] \<and>
      (i, lookup_string accessMaskFor (EventType e)) \<in> allowed_access"
    using rows_consistent by (auto simp: list_all_iff dest!: map_of_SomeD)
  then show ?thesis using Some by (simp add: Map_def Let_def allowed_access_def)
qed

text \<open>No parsed event falls into the default by accident: every name that the CEE
  table or the OneFS table can produce has its own row in all three mapper tables.\<close>

theorem parser_names_are_mapped:
  "list_all (\<lambda>name. map_of cepaToEventID name \<noteq> None \<and> map_of accessMaskFor name \<noteq> None \<and>
     map_of accessDescFor name \<noteq> None) (map snd ceeEventType @ map snd onefsEventType)"
proof -
  have "set (map snd ceeEventType @ map snd onefsEventType) \<subseteq> set (map fst cepaToEventID)"
    by (simp add: ceeEventType_def onefsEventType_def cepaToEventID_def)
  then have "map_of cepaToEventID k \<noteq> None"
    if "k \<in> set (map snd ceeEventType @ map snd onefsEventType)" for k
    using that by (auto simp: map_of_eq_None_iff)
  then show ?thesis using mapper_tables_same_keys by (simp add: list_all_iff)
qed

text \<open>The mapping carries the audit facts through unchanged, fills the computer name
  from the operating system only when none is given, and derives the handle from the low
  twelve bits of the timestamp in nanoseconds, whatever the 64-bit conversion does to an
  instant outside its range.\<close>

theorem Map_preserves:
  "w_ObjectName (Map h e n) = FilePath e \<and> w_SubjectUserSID (Map h e n) = UserSID e \<and>
   w_SubjectUsername (Map h e n) = Username e \<and> w_SubjectDomain (Map h e n) = Domain e \<and>
   w_SubjectLogonID (Map h e n) = LogonID e \<and> w_ClientAddr (Map h e n) = ClientAddr e \<and>
   w_TimeCreated (Map h e n) = Timestamp e \<and> w_CEPAEventType (Map h e n) = EventType e \<and>
   w_BytesRead (Map h e n) = BytesRead e \<and> w_BytesWritten (Map h e n) = BytesWritten e \<and>
   w_Computer (Map h e n) = (if n = [] then h else n) \<and>
   w_HandleID (Map h e n) =
     ''0x'' @ format_nat 16 (nat ((unix_sec (Timestamp e) * 1000000000 + int (nsec (Timestamp e))) mod 4096))"
proof -
  let ?x = "(unix_sec (Timestamp e) * 1000000000 + int (nsec (Timestamp e))) mod 4096"
  have "0 \<le> ?x" by simp
  then show ?thesis unfolding Map_def Let_def UnixNano_low_bits
    by (simp add: format_hex_def del: pos_mod_sign) 
qed

end
