(* ===== verification/Metrics.thy ===== *)
theory Metrics
  imports Go_Time "HOL-Library.AList"
begin

text \<open>
  \<^verbatim>\<open>pkg/metrics/metrics.go\<close>: the counters, the two capped event breakdowns and the capped
  table of publishers.  A Go map is an association list with distinct keys (the zero
  value, a nil map, is the empty list), a pointer to an atomic counter is the key it is
  stored under, and an atomic counter is an unbounded integer.
\<close>

section \<open>The source\<close>

definition MaxEventLabels :: nat where
  "MaxEventLabels = 128"

definition MaxPeers :: nat where
  "MaxPeers = 64"

record eventTypeKey =
  key_EventType :: string
  key_Protocol :: string

record peerStat =
  lastRequestUnix :: int
  registrations :: int
  heartbeats :: int

record Store =
  EventsReceivedTotal :: int
  EventsWrittenTotal :: int
  EventsDroppedTotal :: int
  WriterErrorsTotal :: int
  WriterBatchesTotal :: int
  WriterBatchErrorsTotal :: int
  RequestsThrottledTotal :: int
  EventsTruncatedTotal :: int
  queueDepth :: int
  lastEventAt :: int
  lastFsyncAt :: int
  peers :: "(string \<times> peerStat) list"
  peersDropped :: int
  eventsByType :: "(eventTypeKey \<times> int) list"
  eventsByServer :: "(string \<times> int) list"
  eventLabelsDropped :: int

definition new_store :: Store where
  "new_store = \<lparr>EventsReceivedTotal = 0, EventsWrittenTotal = 0, EventsDroppedTotal = 0,
     WriterErrorsTotal = 0, WriterBatchesTotal = 0, WriterBatchErrorsTotal = 0,
     RequestsThrottledTotal = 0, EventsTruncatedTotal = 0, queueDepth = 0, lastEventAt = 0,
     lastFsyncAt = 0, peers = [], peersDropped = 0, eventsByType = [], eventsByServer = [],
     eventLabelsDropped = 0\<rparr>"

subsection \<open>The event breakdowns\<close>

definition add_count :: "'k \<Rightarrow> ('k \<times> int) list \<Rightarrow> ('k \<times> int) list" where
  "add_count k m = (case map_of m k of Some c \<Rightarrow> AList.update k (c + 1) m | None \<Rightarrow> m)"

definition bumpLabel :: "'k \<Rightarrow> ('k \<times> int) list \<Rightarrow> ('k \<times> int) list \<times> bool" where
  "bumpLabel k m =
     (case map_of m k of
        None \<Rightarrow> if MaxEventLabels \<le> length m then (m, True)
                else (add_count k (AList.update k 0 m), False)
      | Some c \<Rightarrow> (add_count k m, False))"

text \<open>What the read lock lets a caller see, and what it then does: the fast path touches
  only counters that exist, the slow path takes the write lock.\<close>

datatype breakdown_path = Fast bool bool | Slow

definition read_breakdown :: "Store \<Rightarrow> eventTypeKey \<Rightarrow> string \<Rightarrow> breakdown_path" where
  "read_breakdown s k server =
     (let byType = map_of (eventsByType s) k \<noteq> None;
          typeFull = MaxEventLabels \<le> length (eventsByType s);
          byServer = map_of (eventsByServer s) server \<noteq> None;
          serverFull = MaxEventLabels \<le> length (eventsByServer s);
          wantServer = server \<noteq> [] in
      if (byType \<or> typeFull) \<and> (\<not> wantServer \<or> byServer \<or> serverFull)
      then Fast byType byServer else Slow)"

definition fast_breakdown :: "bool \<Rightarrow> bool \<Rightarrow> eventTypeKey \<Rightarrow> string \<Rightarrow> Store \<Rightarrow> Store" where
  "fast_breakdown byType byServer k server s =
     (let wantServer = server \<noteq> [];
          dropped = (if byType then 0 else 1) + (if wantServer \<and> \<not> byServer then 1 else 0) in
      s\<lparr>eventsByType := (if byType then add_count k (eventsByType s) else eventsByType s),
        eventsByServer := (if wantServer \<and> byServer then add_count server (eventsByServer s)
                           else eventsByServer s),
        eventLabelsDropped := eventLabelsDropped s + dropped\<rparr>)"

definition slow_breakdown :: "eventTypeKey \<Rightarrow> string \<Rightarrow> Store \<Rightarrow> Store" where
  "slow_breakdown k server s =
     (let (types, d1) = bumpLabel k (eventsByType s);
          (servers, d2) = (if server \<noteq> [] then bumpLabel server (eventsByServer s)
                           else (eventsByServer s, False)) in
      s\<lparr>eventsByType := types, eventsByServer := servers,
        eventLabelsDropped := eventLabelsDropped s + (if d1 then 1 else 0) + (if d2 then 1 else 0)\<rparr>)"

fun run_breakdown :: "breakdown_path \<Rightarrow> eventTypeKey \<Rightarrow> string \<Rightarrow> Store \<Rightarrow> Store" where
  "run_breakdown (Fast byType byServer) k server s = fast_breakdown byType byServer k server s"
| "run_breakdown Slow k server s = slow_breakdown k server s"

definition recordBreakdown :: "eventTypeKey \<Rightarrow> string \<Rightarrow> Store \<Rightarrow> Store" where
  "recordBreakdown k server s = run_breakdown (read_breakdown s k server) k server s"

definition RecordEvent :: "string \<Rightarrow> string \<Rightarrow> string \<Rightarrow> Store \<Rightarrow> Store" where
  "RecordEvent eventType protocol server s =
     recordBreakdown \<lparr>key_EventType = eventType, key_Protocol = protocol\<rparr> server s"

definition EventTypeSnapshot :: "Store \<Rightarrow> (string \<times> string \<times> int) list" where
  "EventTypeSnapshot s = map (\<lambda>(k, c). (key_EventType k, key_Protocol k, c)) (eventsByType s)"

definition EventServerSnapshot :: "Store \<Rightarrow> (string \<times> int) list" where
  "EventServerSnapshot s = eventsByServer s"

definition ResetEventBreakdown :: "Store \<Rightarrow> Store" where
  "ResetEventBreakdown s = s\<lparr>eventsByType := [], eventsByServer := [], eventLabelsDropped := 0\<rparr>"

subsection \<open>Gauges\<close>

definition SetQueueDepth :: "nat \<Rightarrow> Store \<Rightarrow> Store" where
  "SetQueueDepth n s = s\<lparr>queueDepth := int n\<rparr>"

definition RecordEventAt :: "gotime \<Rightarrow> Store \<Rightarrow> Store" where
  "RecordEventAt now s = s\<lparr>lastEventAt := sint (UnixNano now)\<rparr>"

text \<open>\<^verbatim>\<open>time.Time{}\<close> is the first instant of year 1.\<close>

definition zero_time :: gotime where
  "zero_time = mk_time (- 62135596800) 0"

definition LastEventAt :: "Store \<Rightarrow> gotime" where
  "LastEventAt s = (if lastEventAt s = 0 then zero_time else Unix 0 (lastEventAt s))"

definition RecordFsyncAt :: "gotime \<Rightarrow> Store \<Rightarrow> Store" where
  "RecordFsyncAt t s = s\<lparr>lastFsyncAt := unix_sec t\<rparr>"

definition LastFsyncUnix :: "Store \<Rightarrow> int" where
  "LastFsyncUnix s = lastFsyncAt s"

definition LastEventUnix :: "Store \<Rightarrow> int" where
  "LastEventUnix s = (let t = LastEventAt s in if t = zero_time then 0 else unix_sec t)"

record Snapshot =
  sn_EventsReceivedTotal :: int
  sn_EventsWrittenTotal :: int
  sn_EventsDroppedTotal :: int
  sn_WriterErrorsTotal :: int
  sn_EventsTruncatedTotal :: int
  sn_QueueDepth :: int
  sn_LastEventAt :: gotime
  sn_LastFsyncUnix :: int

definition snapshot :: "Store \<Rightarrow> Snapshot" where
  "snapshot s =
     \<lparr>sn_EventsReceivedTotal = EventsReceivedTotal s,
      sn_EventsWrittenTotal = EventsWrittenTotal s,
      sn_EventsDroppedTotal = EventsDroppedTotal s,
      sn_WriterErrorsTotal = WriterErrorsTotal s,
      sn_EventsTruncatedTotal = EventsTruncatedTotal s,
      sn_QueueDepth = queueDepth s,
      sn_LastEventAt = LastEventAt s,
      sn_LastFsyncUnix = LastFsyncUnix s\<rparr>"

subsection \<open>Publishers\<close>

text \<open>The read of \<^verbatim>\<open>RecordPeerRequestAt\<close> under the read lock, and what follows: a store to
  the counter it saw, or the write lock, where the lookup is repeated.\<close>

definition peer_known :: "string \<Rightarrow> Store \<Rightarrow> bool" where
  "peer_known host s \<longleftrightarrow> map_of (peers s) host \<noteq> None"

definition stamp_peer :: "string \<Rightarrow> int \<Rightarrow> Store \<Rightarrow> Store" where
  "stamp_peer host unix s =
     (case map_of (peers s) host of
        Some p \<Rightarrow> s\<lparr>peers := AList.update host (p\<lparr>lastRequestUnix := unix\<rparr>) (peers s)\<rparr>
      | None \<Rightarrow> s)"

definition create_peer :: "string \<Rightarrow> int \<Rightarrow> Store \<Rightarrow> Store" where
  "create_peer host unix s =
     (if map_of (peers s) host \<noteq> None then stamp_peer host unix s
      else if MaxPeers \<le> length (peers s) then s\<lparr>peersDropped := peersDropped s + 1\<rparr>
      else s\<lparr>peers := AList.update host
               \<lparr>lastRequestUnix = unix, registrations = 0, heartbeats = 0\<rparr> (peers s)\<rparr>)"

definition RecordPeerRequestAt :: "string \<Rightarrow> gotime \<Rightarrow> Store \<Rightarrow> Store" where
  "RecordPeerRequestAt host t s =
     (if peer_known host s then stamp_peer host (unix_sec t) s else create_peer host (unix_sec t) s)"

definition RecordPeerRegistration :: "string \<Rightarrow> Store \<Rightarrow> Store" where
  "RecordPeerRegistration host s =
     (case map_of (peers s) host of
        Some p \<Rightarrow> s\<lparr>peers := AList.update host (p\<lparr>registrations := registrations p + 1\<rparr>) (peers s)\<rparr>
      | None \<Rightarrow> s)"

definition RecordPeerHeartbeat :: "string \<Rightarrow> Store \<Rightarrow> Store" where
  "RecordPeerHeartbeat host s =
     (case map_of (peers s) host of
        Some p \<Rightarrow> s\<lparr>peers := AList.update host (p\<lparr>heartbeats := heartbeats p + 1\<rparr>) (peers s)\<rparr>
      | None \<Rightarrow> s)"

definition PeerSnapshot :: "Store \<Rightarrow> (string \<times> peerStat) list" where
  "PeerSnapshot s = peers s"

definition ResetPeers :: "Store \<Rightarrow> Store" where
  "ResetPeers s = s\<lparr>peers := [], peersDropped := 0\<rparr>"

section \<open>Capped tables\<close>

text \<open>The contract the three tables share: a known key is always served, an unknown one is
  served while there is room and counted as dropped otherwise.\<close>

locale capped_table =
  fixes tab :: "'s \<Rightarrow> ('k \<times> 'v) list"
    and dropped :: "'s \<Rightarrow> int"
    and op :: "'k \<Rightarrow> 'a \<Rightarrow> 's \<Rightarrow> 's"
    and cap :: nat
  assumes op_known: "k \<in> set (map fst (tab s)) \<Longrightarrow>
      map fst (tab (op k a s)) = map fst (tab s) \<and> dropped (op k a s) = dropped s"
    and op_full: "k \<notin> set (map fst (tab s)) \<Longrightarrow> cap \<le> length (tab s) \<Longrightarrow>
      tab (op k a s) = tab s \<and> dropped (op k a s) = dropped s + 1"
    and op_new: "k \<notin> set (map fst (tab s)) \<Longrightarrow> length (tab s) < cap \<Longrightarrow>
      map fst (tab (op k a s)) = map fst (tab s) @ [k] \<and> dropped (op k a s) = dropped s"
begin

abbreviation keys :: "'s \<Rightarrow> 'k list" where
  "keys s \<equiv> map fst (tab s)"

lemma op_cases:
  obtains (known) "k \<in> set (keys s)" "keys (op k a s) = keys s" "dropped (op k a s) = dropped s"
  | (full) "k \<notin> set (keys s)" "keys (op k a s) = keys s" "dropped (op k a s) = dropped s + 1"
  | (new) "k \<notin> set (keys s)" "length (keys s) < cap" "keys (op k a s) = keys s @ [k]"
      "dropped (op k a s) = dropped s"
proof (cases "k \<in> set (keys s)")
  case True
  with op_known [OF this] that(1) show thesis by blast
next
  case False
  show thesis
  proof (cases "cap \<le> length (tab s)")
    case True
    have "tab (op k a s) = tab s" "dropped (op k a s) = dropped s + 1"
      using op_full [OF False True] by blast+
    then show thesis using that(2) False by simp
  next
    case c: False
    then have "length (tab s) < cap" by (simp only: not_le)
    from op_new [OF False this] have "keys (op k a s) = keys s @ [k]" "dropped (op k a s) = dropped s"
      by blast+
    then show thesis using that(3) False \<open>length (tab s) < cap\<close> by simp
  qed
qed

definition within :: "'s \<Rightarrow> bool" where
  "within s \<longleftrightarrow> distinct (keys s) \<and> length (keys s) \<le> cap"

lemma within_op: "within s \<Longrightarrow> within (op k a s)"
  by (cases rule: op_cases [of k s a]) (simp_all add: within_def)

lemma keys_kept: "set (keys s) \<subseteq> set (keys (op k a s))"
  by (cases rule: op_cases [of k s a]) auto

lemma dropped_mono: "dropped s \<le> dropped (op k a s)"
  by (cases rule: op_cases [of k s a]) simp_all

lemma served: "k \<in> set (keys (op k a s)) \<or> dropped s < dropped (op k a s)"
  by (cases rule: op_cases [of k s a]) simp_all

definition run :: "('k \<times> 'a) list \<Rightarrow> 's \<Rightarrow> 's" where
  "run ks s = fold (\<lambda>x. op (fst x) (snd x)) ks s"

lemma run_simps [simp]: "run [] s = s" "run (x # ks) s = run ks (op (fst x) (snd x) s)"
  by (simp_all add: run_def)

lemma within_run: "within s \<Longrightarrow> within (run ks s)"
  by (induction ks arbitrary: s) (simp_all add: within_op)

lemma keys_kept_run: "set (keys s) \<subseteq> set (keys (run ks s))"
proof (induction ks arbitrary: s)
  case (Cons x ks)
  show ?case using keys_kept [of s "fst x" "snd x"] Cons.IH [of "op (fst x) (snd x) s"]
    by (simp only: run_simps)
qed simp

lemma dropped_mono_run: "dropped s \<le> dropped (run ks s)"
proof (induction ks arbitrary: s)
  case (Cons x ks)
  show ?case using dropped_mono [of s "fst x" "snd x"] Cons.IH [of "op (fst x) (snd x) s"]
    by (simp only: run_simps)
qed simp

text \<open>Every call is served or counted: a key absent after the run was refused.\<close>

lemma served_or_counted: "fst ` set ks \<subseteq> set (keys (run ks s)) \<or> dropped s < dropped (run ks s)"
proof (induction ks arbitrary: s)
  case (Cons x ks)
  let ?s = "op (fst x) (snd x) s"
  show ?case
  proof (cases "dropped s < dropped (run (x # ks) s)")
    case False
    have d: "dropped s \<le> dropped ?s" "dropped ?s \<le> dropped (run ks ?s)"
      using dropped_mono dropped_mono_run by blast+
    then have "\<not> dropped s < dropped ?s" "\<not> dropped ?s < dropped (run ks ?s)"
      using False by simp_all
    then have "fst x \<in> set (keys ?s)" "fst ` set ks \<subseteq> set (keys (run ks ?s))"
      using served [of "fst x" "snd x" s] Cons.IH [of ?s] by blast+
    moreover have "fst x \<in> set (keys (run ks ?s))"
      using calculation(1) keys_kept_run [of ?s ks] by blast
    ultimately have "fst ` set (x # ks) \<subseteq> set (keys (run (x # ks) s))"
      by (simp only: run_simps list.set image_insert insert_subset)
    then show ?thesis by blast
  qed blast
qed simp

end

lemma mem_keys: "k \<in> set (map fst m) \<Longrightarrow> \<exists>v. map_of m k = Some v"
  by (metis map_of_eq_None_iff not_None_eq set_map)

lemma not_mem_keys: "k \<notin> set (map fst m) \<Longrightarrow> map_of m k = None"
  by (simp add: map_of_eq_None_iff)

lemma Some_mem_keys: "map_of m k = Some v \<Longrightarrow> k \<in> set (map fst m)"
  by (drule map_of_SomeD) force

lemma keys_add_count [simp]: "map fst (add_count k m) = map fst m"
proof (cases "map_of m k")
  case (Some c)
  then have "k \<in> set (map fst m)" by (rule Some_mem_keys)
  then show ?thesis using Some by (simp add: add_count_def AList.update_keys)
qed (simp add: add_count_def)

lemma key_set_add_count [simp]: "fst ` set (add_count k m) = fst ` set m"
  by (metis keys_add_count set_map)

lemma length_add_count [simp]: "length (add_count k m) = length m"
  using keys_add_count [of k m] by (metis length_map)

lemma map_of_add_count:
  "map_of (add_count k m) j = (if j = k then map_option (\<lambda>c. c + 1) (map_of m k) else map_of m j)"
  by (simp add: add_count_def update_conv' split: option.split)

definition bump_counted :: "'k \<Rightarrow> unit \<Rightarrow> ('k \<times> int) list \<times> int \<Rightarrow> ('k \<times> int) list \<times> int" where
  "bump_counted k a s = (case bumpLabel k (fst s) of (m, d) \<Rightarrow> (m, snd s + (if d then 1 else 0)))"

interpretation labels: capped_table fst snd bump_counted MaxEventLabels
proof (unfold_locales, goal_cases)
  case (1 k s a)
  then obtain c where "map_of (fst s) k = Some c" by (blast dest: mem_keys)
  then show ?case by (simp add: bump_counted_def bumpLabel_def)
next
  case (2 k s a)
  then have "map_of (fst s) k = None" by (blast intro: not_mem_keys)
  then show ?case using 2 by (simp add: bump_counted_def bumpLabel_def)
next
  case (3 k s a)
  then have "map_of (fst s) k = None" by (blast intro: not_mem_keys)
  then show ?case using 3 by (simp add: bump_counted_def bumpLabel_def AList.update_keys)
qed

interpretation peer_table: capped_table peers peersDropped RecordPeerRequestAt MaxPeers
proof (unfold_locales, goal_cases)
  case (1 k s a)
  then obtain p where "map_of (peers s) k = Some p" by (blast dest: mem_keys)
  then show ?case using 1
    by (simp add: RecordPeerRequestAt_def peer_known_def stamp_peer_def AList.update_keys)
next
  case (2 k s a)
  then have "map_of (peers s) k = None" by (blast intro: not_mem_keys)
  then show ?case using 2 by (simp add: RecordPeerRequestAt_def peer_known_def create_peer_def)
next
  case (3 k s a)
  then have "map_of (peers s) k = None" by (blast intro: not_mem_keys)
  then show ?case using 3
    by (simp add: RecordPeerRequestAt_def peer_known_def create_peer_def AList.update_keys)
qed

section \<open>The fast path\<close>

lemma bump_known: "map_of m k \<noteq> None \<Longrightarrow> bumpLabel k m = (add_count k m, False)"
  by (auto simp: bumpLabel_def)

lemma bump_full: "map_of m k = None \<Longrightarrow> MaxEventLabels \<le> length m \<Longrightarrow> bumpLabel k m = (m, True)"
  by (simp add: bumpLabel_def)

lemma fast_is_slow:
  assumes "read_breakdown s k server = Fast byType byServer"
  shows "fast_breakdown byType byServer k server s = slow_breakdown k server s"
proof -
  have r: "byType = (map_of (eventsByType s) k \<noteq> None)" "byServer = (map_of (eventsByServer s) server \<noteq> None)"
    "byType \<or> MaxEventLabels \<le> length (eventsByType s)"
    "server = [] \<or> byServer \<or> MaxEventLabels \<le> length (eventsByServer s)"
    using assms by (auto simp: read_breakdown_def Let_def split: if_splits)
  have t: "bumpLabel k (eventsByType s) =
      (if byType then (add_count k (eventsByType s), False) else (eventsByType s, True))"
    using r(1,3) bump_known [of "eventsByType s" k] bump_full [of "eventsByType s" k] by auto
  have v: "server \<noteq> [] \<Longrightarrow> bumpLabel server (eventsByServer s) =
      (if byServer then (add_count server (eventsByServer s), False) else (eventsByServer s, True))"
    using r(2,4) bump_known [of "eventsByServer s" server] bump_full [of "eventsByServer s" server] by auto
  show ?thesis
    by (cases "server = []"; cases byType; cases byServer)
       (simp_all add: fast_breakdown_def slow_breakdown_def Let_def t v)
qed

lemma recordBreakdown_slow: "recordBreakdown k server s = slow_breakdown k server s"
  by (cases "read_breakdown s k server") (simp_all add: recordBreakdown_def fast_is_slow)

section \<open>Interleaved recorders\<close>

text \<open>
  Any number of goroutines record at once.  A call is two steps: the read under the read
  lock, whose outcome it keeps, and the update; other calls may run in between.  The
  ghost \<open>owed\<close> counts what the calls begun so far have to account for, one count for the
  type and one for a server that is named.
\<close>

record recorders =
  store :: Store
  pending :: "(eventTypeKey \<times> string \<times> breakdown_path) list"
  owed :: int

definition weight :: "string \<Rightarrow> int" where
  "weight server = (if server = [] then 1 else 2)"

inductive recorder_step :: "recorders \<Rightarrow> recorders \<Rightarrow> bool" where
  rs_read: "recorder_step c (c\<lparr>pending := (k, server, read_breakdown (store c) k server) # pending c,
      owed := owed c + weight server\<rparr>)"
| rs_update: "pending c = ps @ (k, server, p) # qs \<Longrightarrow>
    recorder_step c (c\<lparr>store := run_breakdown p k server (store c), pending := ps @ qs\<rparr>)"

definition no_recorders :: recorders where
  "no_recorders = \<lparr>store = new_store, pending = [], owed = 0\<rparr>"

definition counted :: "Store \<Rightarrow> int" where
  "counted s = sum_list (map snd (eventsByType s)) + sum_list (map snd (eventsByServer s)) +
     eventLabelsDropped s"

text \<open>What the outcome of a read promises still holds when it is used.\<close>

definition path_ok :: "Store \<Rightarrow> eventTypeKey \<times> string \<times> breakdown_path \<Rightarrow> bool" where
  "path_ok s x = (case x of (k, server, p) \<Rightarrow>
     (case p of Fast byType byServer \<Rightarrow>
        (byType \<longrightarrow> k \<in> set (map fst (eventsByType s))) \<and>
        (server \<noteq> [] \<and> byServer \<longrightarrow> server \<in> set (map fst (eventsByServer s)))
      | Slow \<Rightarrow> True))"

definition breakdown_ok :: "Store \<Rightarrow> bool" where
  "breakdown_ok s \<longleftrightarrow>
     distinct (map fst (eventsByType s)) \<and> length (eventsByType s) \<le> MaxEventLabels \<and>
     distinct (map fst (eventsByServer s)) \<and> length (eventsByServer s) \<le> MaxEventLabels"

definition recorders_ok :: "recorders \<Rightarrow> bool" where
  "recorders_ok c \<longleftrightarrow> breakdown_ok (store c) \<and> list_all (path_ok (store c)) (pending c) \<and>
     counted (store c) + sum_list (map (\<lambda>(k, server, p). weight server) (pending c)) = owed c"

lemma sum_add_count:
  "distinct (map fst m) \<Longrightarrow> k \<in> set (map fst m) \<Longrightarrow>
    sum_list (map snd (add_count k m)) = sum_list (map snd m) + 1"
proof (induction m)
  case (Cons x m)
  obtain j c where x: "x = (j, c)" by fastforce
  show ?case
  proof (cases "j = k")
    case True
    then show ?thesis by (simp add: x add_count_def)
  next
    case False
    then have "add_count k (x # m) = x # add_count k m"
      by (simp add: x add_count_def split: option.split)
    then show ?thesis using Cons False x by simp
  qed
qed simp

lemma update_new: "k \<notin> set (map fst m) \<Longrightarrow> AList.update k v m = m @ [(k, v)]"
  by (induction m) auto

text \<open>A bump adds one, to the table or to the drops, and never loses a key.\<close>

lemma bumpLabel_counts:
  assumes "distinct (map fst m)" "length m \<le> MaxEventLabels" "bumpLabel k m = (m', d)"
  shows "sum_list (map snd m') + (if d then 1 else 0) = sum_list (map snd m) + 1"
    and "distinct (map fst m')" "length m' \<le> MaxEventLabels" "set (map fst m) \<subseteq> set (map fst m')"
proof -
  have w: "labels.within (m, 0)" using assms by (simp add: labels.within_def)
  have b: "fst (bump_counted k () (m, 0)) = m'" using assms(3) by (simp add: bump_counted_def)
  show "distinct (map fst m')" "length m' \<le> MaxEventLabels"
    using labels.within_op [OF w, of k "()"] b by (simp_all add: labels.within_def)
  show "set (map fst m) \<subseteq> set (map fst m')"
    using labels.keys_kept [of "(m, 0)" k "()"] b by simp
  show "sum_list (map snd m') + (if d then 1 else 0) = sum_list (map snd m) + 1"
  proof (cases "k \<in> set (map fst m)")
    case True
    then obtain c where "map_of m k = Some c" by (blast dest: mem_keys)
    then show ?thesis using assms sum_add_count [OF assms(1) True] by (auto simp: bumpLabel_def)
  next
    case False
    then have n: "map_of m k = None" by (rule not_mem_keys)
    have u: "AList.update k 0 m = m @ [(k, 0)]" by (rule update_new [OF False])
    show ?thesis
    proof (cases "MaxEventLabels \<le> length m")
      case True
      then show ?thesis using assms n by (auto simp: bumpLabel_def)
    next
      case c: False
      have "sum_list (map snd (add_count k (m @ [(k, 0)]))) = sum_list (map snd (m @ [(k, 0)])) + 1"
        by (rule sum_add_count) (use assms(1) False in auto)
      then show ?thesis using assms(3) n c u by (auto simp: bumpLabel_def)
    qed
  qed
qed

lemma slow_breakdown_counts:
  assumes "breakdown_ok s"
  shows "breakdown_ok (slow_breakdown k server s)"
    and "counted (slow_breakdown k server s) = counted s + weight server"
    and "path_ok s x \<Longrightarrow> path_ok (slow_breakdown k server s) x"
proof -
  obtain types d1 where t: "bumpLabel k (eventsByType s) = (types, d1)" by fastforce
  obtain servers d2 where v: "bumpLabel server (eventsByServer s) = (servers, d2)" by fastforce
  have ok: "distinct (map fst (eventsByType s))" "length (eventsByType s) \<le> MaxEventLabels"
    "distinct (map fst (eventsByServer s))" "length (eventsByServer s) \<le> MaxEventLabels"
    using assms by (simp_all add: breakdown_ok_def)
  note tc = bumpLabel_counts [OF ok(1,2) t] and vc = bumpLabel_counts [OF ok(3,4) v]
  show "breakdown_ok (slow_breakdown k server s)"
    using tc(2,3) vc(2,3) ok by (simp add: slow_breakdown_def t v breakdown_ok_def)
  show "counted (slow_breakdown k server s) = counted s + weight server"
    using tc(1) vc(1) by (simp add: slow_breakdown_def t v counted_def weight_def)
  show "path_ok s x \<Longrightarrow> path_ok (slow_breakdown k server s) x"
    using tc(4) vc(4)
    by (auto simp: path_ok_def slow_breakdown_def t v split: prod.splits breakdown_path.splits)
qed

lemma fast_breakdown_counts:
  assumes "breakdown_ok s" "path_ok s (k, server, Fast byType byServer)"
  shows "breakdown_ok (fast_breakdown byType byServer k server s)"
    and "counted (fast_breakdown byType byServer k server s) = counted s + weight server"
    and "path_ok s x \<Longrightarrow> path_ok (fast_breakdown byType byServer k server s) x"
proof -
  have ok: "distinct (map fst (eventsByType s))" "distinct (map fst (eventsByServer s))"
    using assms(1) by (simp_all add: breakdown_ok_def)
  have t: "byType \<Longrightarrow> sum_list (map snd (add_count k (eventsByType s))) = sum_list (map snd (eventsByType s)) + 1"
    using sum_add_count [OF ok(1)] assms(2) by (simp add: path_ok_def)
  have v: "server \<noteq> [] \<Longrightarrow> byServer \<Longrightarrow>
      sum_list (map snd (add_count server (eventsByServer s))) = sum_list (map snd (eventsByServer s)) + 1"
    using sum_add_count [OF ok(2)] assms(2) by (simp add: path_ok_def)
  show "breakdown_ok (fast_breakdown byType byServer k server s)"
    using assms(1) by (simp add: fast_breakdown_def Let_def breakdown_ok_def)
  show "counted (fast_breakdown byType byServer k server s) = counted s + weight server"
    by (cases byType; cases byServer; cases "server = []")
       (simp_all add: fast_breakdown_def Let_def counted_def weight_def t v)
  show "path_ok s x \<Longrightarrow> path_ok (fast_breakdown byType byServer k server s) x"
    by (auto simp: path_ok_def fast_breakdown_def Let_def split: prod.splits breakdown_path.splits)
qed

lemma read_path_ok: "path_ok s (k, server, read_breakdown s k server)"
  unfolding path_ok_def read_breakdown_def Let_def by (auto simp: Some_mem_keys [simplified])

lemma recorder_step_ok:
  assumes "recorder_step c c'" "recorders_ok c"
  shows "recorders_ok c'"
  using assms(1)
proof (cases rule: recorder_step.cases)
  case (rs_read k server)
  then show ?thesis using assms(2) read_path_ok by (simp add: recorders_ok_def)
next
  case (rs_update ps k server p qs)
  let ?s = "store c"
  have ok: "breakdown_ok ?s" "path_ok ?s (k, server, p)" "list_all (path_ok ?s) (ps @ qs)"
    using assms(2) rs_update by (simp_all add: recorders_ok_def)
  have "breakdown_ok (run_breakdown p k server ?s) \<and>
      counted (run_breakdown p k server ?s) = counted ?s + weight server \<and>
      list_all (path_ok (run_breakdown p k server ?s)) (ps @ qs)"
  proof (cases p)
    case (Fast byType byServer)
    note f = fast_breakdown_counts [OF ok(1) ok(2) [unfolded Fast]]
    then show ?thesis using Fast f(1,2) f(3) ok(3) by (auto simp: list_all_iff)
  next
    case Slow
    then show ?thesis
      using slow_breakdown_counts(1,2) [OF ok(1), of k server] slow_breakdown_counts(3) [OF ok(1)] ok(3)
      by (auto simp: list_all_iff)
  qed
  then show ?thesis using rs_update assms(2) by (simp add: recorders_ok_def)
qed

interpretation recorder_runs: invariant recorder_step recorders_ok no_recorders
proof unfold_locales
  show "recorders_ok no_recorders"
    by (simp add: recorders_ok_def no_recorders_def new_store_def breakdown_ok_def counted_def)
qed (rule recorder_step_ok)

lemmas recorders_reachable = recorder_runs.reached

section \<open>Interleaved publishers\<close>

text \<open>
  \<^verbatim>\<open>RecordPeerRequestAt\<close> reads under the read lock and, when the host was unknown, creates
  it under the write lock after looking again; the other two recorders are one step each.
\<close>

record peer_calls =
  p_store :: Store
  p_pending :: "(string \<times> int \<times> bool) list"

inductive peer_step :: "peer_calls \<Rightarrow> peer_calls \<Rightarrow> bool" where
  ps_read: "peer_step c (c\<lparr>p_pending := (host, unix, peer_known host (p_store c)) # p_pending c\<rparr>)"
| ps_write: "p_pending c = ps @ (host, unix, known) # qs \<Longrightarrow>
    peer_step c (c\<lparr>p_store := (if known then stamp_peer host unix (p_store c)
                               else create_peer host unix (p_store c)), p_pending := ps @ qs\<rparr>)"
| ps_registration: "peer_step c (c\<lparr>p_store := RecordPeerRegistration host (p_store c)\<rparr>)"
| ps_heartbeat: "peer_step c (c\<lparr>p_store := RecordPeerHeartbeat host (p_store c)\<rparr>)"

definition no_peer_calls :: peer_calls where
  "no_peer_calls = \<lparr>p_store = new_store, p_pending = []\<rparr>"

text \<open>Nothing a known publisher has accumulated is ever lost.\<close>

definition peers_grow :: "Store \<Rightarrow> Store \<Rightarrow> bool" where
  "peers_grow s s' \<longleftrightarrow>
     (\<forall>host p. map_of (peers s) host = Some p \<longrightarrow>
       (\<exists>p'. map_of (peers s') host = Some p' \<and> registrations p \<le> registrations p' \<and>
             heartbeats p \<le> heartbeats p'))"

lemma peers_grow_refl: "peers_grow s s"
  by (simp add: peers_grow_def)

lemma peers_grow_trans: "peers_grow s t \<Longrightarrow> peers_grow t u \<Longrightarrow> peers_grow s u"
  unfolding peers_grow_def by (meson order_trans)

lemma peers_grow_update:
  assumes "map_of (peers s) h = None \<or>
      (\<exists>p. map_of (peers s) h = Some p \<and> registrations p \<le> registrations q \<and> heartbeats p \<le> heartbeats q)"
  shows "peers_grow s (s\<lparr>peers := AList.update h q (peers s)\<rparr>)"
  using assms by (auto simp: peers_grow_def update_conv')

lemma stamp_grows: "peers_grow s (stamp_peer h u s)"
  by (auto simp: stamp_peer_def peers_grow_refl intro!: peers_grow_update split: option.split)

lemma create_grows: "peers_grow s (create_peer h u s)"
  using stamp_grows by (auto simp: create_peer_def intro!: peers_grow_update)
    (simp add: peers_grow_def)

lemma registration_grows: "peers_grow s (RecordPeerRegistration h s)"
  by (auto simp: RecordPeerRegistration_def peers_grow_refl intro!: peers_grow_update split: option.split)

lemma heartbeat_grows: "peers_grow s (RecordPeerHeartbeat h s)"
  by (auto simp: RecordPeerHeartbeat_def peers_grow_refl intro!: peers_grow_update split: option.split)

definition peers_ok :: "Store \<Rightarrow> bool" where
  "peers_ok s \<longleftrightarrow> distinct (map fst (peers s)) \<and> length (peers s) \<le> MaxPeers"

lemma peers_ok_within: "peers_ok s = peer_table.within s"
  by (simp add: peers_ok_def peer_table.within_def)

lemma keys_update_known: "map_of m k = Some v \<Longrightarrow> map fst (AList.update k w m) = map fst m"
  using Some_mem_keys [of m k v] by (simp add: AList.update_keys)

lemma peers_ok_update_known:
  "peers_ok s \<Longrightarrow> map_of (peers s) k = Some v \<Longrightarrow> peers_ok (s\<lparr>peers := AList.update k w (peers s)\<rparr>)"
  unfolding peers_ok_def using keys_update_known [of "peers s" k v w]
  by (metis (no_types, lifting) Store.select_convs(12) Store.surjective Store.update_convs(12) length_map)

lemma peers_ok_stamp: "peers_ok s \<Longrightarrow> peers_ok (stamp_peer h u s)"
  by (auto simp: stamp_peer_def intro: peers_ok_update_known split: option.split)

lemma peers_ok_create: "peers_ok s \<Longrightarrow> peers_ok (create_peer h u s)"
proof (cases "map_of (peers s) h")
  case None
  assume ok: "peers_ok s"
  have "RecordPeerRequestAt h (mk_time u 0) s = create_peer h u s"
    using None by (simp add: RecordPeerRequestAt_def peer_known_def)
  then show ?thesis using peer_table.within_op ok unfolding peers_ok_within by metis
next
  case (Some p)
  assume "peers_ok s"
  then show ?thesis using Some peers_ok_stamp by (simp add: create_peer_def)
qed

lemma peers_ok_registration: "peers_ok s \<Longrightarrow> peers_ok (RecordPeerRegistration h s)"
  by (auto simp: RecordPeerRegistration_def intro: peers_ok_update_known split: option.split)

lemma peers_ok_heartbeat: "peers_ok s \<Longrightarrow> peers_ok (RecordPeerHeartbeat h s)"
  by (auto simp: RecordPeerHeartbeat_def intro: peers_ok_update_known split: option.split)

lemma peer_step_grows: "peer_step c c' \<Longrightarrow> peers_grow (p_store c) (p_store c')"
  by (cases rule: peer_step.cases)
     (auto simp: peers_grow_refl stamp_grows create_grows registration_grows heartbeat_grows)

lemma peer_step_ok: "peer_step c c' \<Longrightarrow> peers_ok (p_store c) \<Longrightarrow> peers_ok (p_store c')"
  by (cases rule: peer_step.cases)
     (auto simp: peers_ok_stamp peers_ok_create peers_ok_registration peers_ok_heartbeat)

interpretation peer_runs: kept peer_step "\<lambda>c. peers_grow s (p_store c) \<and> peers_ok (p_store c)" for s
  by unfold_locales (auto intro: peers_grow_trans peer_step_grows peer_step_ok)

lemma peers_reachable: "peer_step\<^sup>*\<^sup>* c c' \<Longrightarrow> peers_ok (p_store c) \<Longrightarrow>
    peers_grow (p_store c) (p_store c') \<and> peers_ok (p_store c')"
  using peer_runs.along [of c c' "p_store c"] by (simp add: peers_grow_refl)

section \<open>Properties\<close>

text \<open>C11: The fast path is only an optimisation: on every store, recording an event with it
  leaves exactly the state that taking the write lock would leave, so the counts, the
  cap and the dropped counter do not depend on which path a call takes.\<close>

theorem recordBreakdown_equals_locked:
  "recordBreakdown k server s = slow_breakdown k server s"
  by (rule recordBreakdown_slow)

text \<open>C28: No recorded event goes missing from the breakdowns, however the recorders
  interleave.  In every reachable state with no call under way, the counts of both tables
  and the dropped increments add up to one for every recorded event and one more for
  every event that named its server, and neither table has grown beyond its cap.\<close>

theorem breakdowns_conserve:
  assumes "recorder_step\<^sup>*\<^sup>* no_recorders c" "pending c = []"
  shows "sum_list (map snd (eventsByType (store c))) + sum_list (map snd (eventsByServer (store c))) +
      eventLabelsDropped (store c) = owed c \<and>
    length (eventsByType (store c)) \<le> 128 \<and> length (eventsByServer (store c)) \<le> 128"
  using recorders_reachable [OF assms(1)] assms(2)
  by (simp add: recorders_ok_def counted_def breakdown_ok_def MaxEventLabels_def)

lemma sample_recorders:
  "recorder_step\<^sup>*\<^sup>* no_recorders
     \<lparr>store = RecordEvent ''E'' ''NFS'' ''nas'' new_store, pending = [], owed = 2\<rparr>"
proof -
  let ?k = "\<lparr>key_EventType = ''E'', key_Protocol = ''NFS''\<rparr>"
  let ?p = "read_breakdown new_store ?k ''nas''"
  let ?c = "\<lparr>store = new_store, pending = [(?k, ''nas'', ?p)], owed = 2\<rparr>"
  have "recorder_step no_recorders ?c"
    using rs_read [where c = no_recorders and k = ?k and server = "''nas''"] by (simp add: no_recorders_def weight_def)
  moreover have "recorder_step ?c \<lparr>store = RecordEvent ''E'' ''NFS'' ''nas'' new_store, pending = [], owed = 2\<rparr>"
    using rs_update [where c = ?c and ps = "[]" and k = ?k and server = "''nas''" and p = ?p and qs = "[]"] by (simp add: RecordEvent_def recordBreakdown_def)
  ultimately show ?thesis by simp
qed

theorem breakdowns_conserve_witness:
  "sum_list (map snd (eventsByType (RecordEvent ''E'' ''NFS'' ''nas'' new_store))) +
   sum_list (map snd (eventsByServer (RecordEvent ''E'' ''NFS'' ''nas'' new_store))) +
   eventLabelsDropped (RecordEvent ''E'' ''NFS'' ''nas'' new_store) = 2"
  using breakdowns_conserve [OF sample_recorders] by simp

text \<open>The publisher table is bounded and lossless.  From the start, under every
  interleaving of requests, registrations and heartbeats, it never holds more than 64
  publishers nor one twice; and from any reachable state on, no later step removes a
  known publisher or lowers its registration or heartbeat count (what the second lookup
  under the write lock is for).\<close>

theorem peers_bounded_and_monotone:
  assumes "peer_step\<^sup>*\<^sup>* no_peer_calls c" "peer_step\<^sup>*\<^sup>* c c'"
    and "map_of (peers (p_store c)) host = Some p"
  shows "length (peers (p_store c')) \<le> 64 \<and> distinct (map fst (peers (p_store c'))) \<and>
    (\<exists>p'. map_of (peers (p_store c')) host = Some p' \<and> registrations p \<le> registrations p' \<and>
      heartbeats p \<le> heartbeats p')"
proof -
  have "peers_ok (p_store no_peer_calls)" by (simp add: peers_ok_def no_peer_calls_def new_store_def)
  then have "peers_ok (p_store c)" using peers_reachable [OF assms(1)] by blast
  then show ?thesis using peers_reachable [OF assms(2)] assms(3)
    by (auto simp: peers_grow_def peers_ok_def MaxPeers_def)
qed

theorem peers_bounded_and_monotone_witness:
  "\<exists>(c :: peer_calls) (c' :: peer_calls). map_of (peers (p_store c)) ''h'' \<noteq> None \<and> length (peers (p_store c')) \<le> 64 \<and>
     (\<exists>p'. map_of (peers (p_store c')) ''h'' = Some p' \<and> 0 \<le> registrations p')"
proof -
  let ?p = "\<lparr>lastRequestUnix = 5, registrations = 0, heartbeats = 0\<rparr>"
  let ?c1 = "\<lparr>p_store = new_store, p_pending = [(''h'', 5, False)]\<rparr>"
  let ?c = "\<lparr>p_store = create_peer ''h'' 5 new_store, p_pending = []\<rparr>"
  let ?c' = "\<lparr>p_store = RecordPeerRegistration ''h'' (create_peer ''h'' 5 new_store), p_pending = []\<rparr>"
  have "peer_step no_peer_calls ?c1"
    using ps_read [of no_peer_calls "''h''" 5]
    by (simp add: no_peer_calls_def peer_known_def new_store_def)
  moreover have "peer_step ?c1 ?c" using ps_write [of ?c1 "[]" "''h''" 5 False "[]"] by simp
  ultimately have r: "peer_step\<^sup>*\<^sup>* no_peer_calls ?c" by simp
  have s: "peer_step\<^sup>*\<^sup>* ?c ?c'" using ps_registration [of ?c "''h''"] by (intro r_into_rtranclp) simp
  have m: "map_of (peers (p_store ?c)) ''h'' = Some ?p"
    by (simp add: create_peer_def new_store_def MaxPeers_def)
  show ?thesis using peers_bounded_and_monotone [OF r s m] m
    by - (rule exI [of _ ?c], rule exI [of _ ?c'], auto)
qed

text \<open>A publisher that is missing from the table was counted: after any sequence of
  requests either every host that asked is in the table, or the drop counter has risen.\<close>

theorem peers_served_or_counted:
  "set (map fst calls) \<subseteq>
      set (map fst (peers (fold (\<lambda>x. RecordPeerRequestAt (fst x) (snd x)) calls s))) \<or>
   peersDropped s < peersDropped (fold (\<lambda>x. RecordPeerRequestAt (fst x) (snd x)) calls s)"
  using peer_table.served_or_counted [of calls s]
  unfolding peer_table.run_def by force

end
