(* ===== verification/Work_Queue.thy ===== *)
theory Work_Queue
  imports Mapper Metrics "HOL-Library.Multiset"
begin

text \<open>
  \<^verbatim>\<open>pkg/queue/queue.go\<close>: the bounded channel, its worker pool and the shutdown.  A state
  holds the channel, every worker's position in its loop and the phase of \<^verbatim>\<open>Stop\<close>;
  goroutines interleave as steps of a relation, with the writer's results, the batch
  timer and the drain timers left to the environment.
\<close>

section \<open>Configuration\<close>

record Config =
  Capacity :: int
  Workers :: int
  DrainTimeout :: int
  MaxBatch :: int
  BatchTimeout :: int

text \<open>Durations are nanoseconds.\<close>

definition withDefaults :: "Config \<Rightarrow> Config" where
  "withDefaults c =
     \<lparr>Capacity = (if Capacity c \<le> 0 then 100000 else Capacity c),
      Workers = (if Workers c \<le> 0 then 4 else Workers c),
      DrainTimeout = (if DrainTimeout c \<le> 0 then 30000000000 else DrainTimeout c),
      MaxBatch = (if MaxBatch c \<le> 0 then 500 else MaxBatch c),
      BatchTimeout = (if BatchTimeout c \<le> 0 then 200000000 else BatchTimeout c)\<rparr>"

section \<open>State\<close>

text \<open>
  Where a worker is: about to receive the first event, collecting a batch, holding the
  batch \<^verbatim>\<open>nextBatch\<close> returned with its \<^verbatim>\<open>more\<close>, inside \<^verbatim>\<open>WriteBatch\<close>, returned from it with
  the outcome recorded but the deferred decrement still to come, or gone.
\<close>

datatype worker =
    Idle
  | Collecting "WindowsEvent list"
  | Holding "WindowsEvent list" bool
  | Writing "WindowsEvent list" bool
  | Wrote "WindowsEvent list" bool
  | Exited

text \<open>\<^verbatim>\<open>Stop\<close>: not called; waiting for the workers; in the grace period; decided to close
  because the workers were done; decided after the grace period; returned.\<close>

datatype stop_phase = Running | Draining | InGrace | Done | Expired | Stopped

record Queue =
  ch :: "WindowsEvent list"
  closed :: bool
  pool :: "worker list"
  inFlight :: int
  met :: Store
  phase :: stop_phase
  writer_closes :: nat
  accepted :: "WindowsEvent list"
  written :: "(WindowsEvent list \<times> bool) list"

text \<open>\<open>accepted\<close> and \<open>written\<close> are histories: the events the channel took, and the batches
  whose \<^verbatim>\<open>WriteBatch\<close> has returned, with whether it reported no error.\<close>

definition New :: "Store \<Rightarrow> Queue" where
  "New m = \<lparr>ch = [], closed = False, pool = [], inFlight = 0, met = m, phase = Running,
     writer_closes = 0, accepted = [], written = []\<rparr>"

definition Start :: "Config \<Rightarrow> Queue \<Rightarrow> Queue" where
  "Start cfg q = q\<lparr>pool := pool q @ replicate (nat (Workers (withDefaults cfg))) Idle\<rparr>"

definition capacity :: "Config \<Rightarrow> nat" where
  "capacity cfg = nat (Capacity (withDefaults cfg))"

definition maxBatch :: "Config \<Rightarrow> nat" where
  "maxBatch cfg = nat (MaxBatch (withDefaults cfg))"

section \<open>Operations\<close>

definition count_dropped :: "int \<Rightarrow> Queue \<Rightarrow> Queue" where
  "count_dropped n q = q\<lparr>met := (met q)\<lparr>EventsDroppedTotal := EventsDroppedTotal (met q) + n\<rparr>\<rparr>"

definition Enqueue :: "Config \<Rightarrow> WindowsEvent \<Rightarrow> Queue \<Rightarrow> bool \<times> Queue" where
  "Enqueue cfg e q =
     (if closed q then (False, count_dropped 1 q)
      else if length (ch q) < capacity cfg
      then (True, q\<lparr>ch := ch q @ [e], accepted := accepted q @ [e],
                    met := SetQueueDepth (length (ch q) + 1) (met q)\<rparr>)
      else (False, count_dropped 1 q))"

definition Len :: "Queue \<Rightarrow> nat" where
  "Len q = length (ch q)"

abbreviation set_worker :: "nat \<Rightarrow> worker \<Rightarrow> Queue \<Rightarrow> Queue" where
  "set_worker i w q \<equiv> q\<lparr>pool := (pool q)[i := w]\<rparr>"

text \<open>\<^verbatim>\<open>writeBatch\<close> up to the call of the writer, and from its return to the deferred
  decrement of \<^verbatim>\<open>inFlight\<close>.\<close>

definition begin_write :: "WindowsEvent list \<Rightarrow> Queue \<Rightarrow> Queue" where
  "begin_write b q =
     (let m = SetQueueDepth (length (ch q)) (met q) in
      q\<lparr>met := m\<lparr>WriterBatchesTotal := WriterBatchesTotal m + 1\<rparr>,
        inFlight := inFlight q + int (length b)\<rparr>)"

definition finish_write :: "WindowsEvent list \<Rightarrow> bool \<Rightarrow> gotime \<Rightarrow> Queue \<Rightarrow> Queue" where
  "finish_write b ok now q =
     (let m = met q; n = int (length b) in
      q\<lparr>met := (if ok
                 then RecordEventAt now (m\<lparr>EventsWrittenTotal := EventsWrittenTotal m + n\<rparr>)
                 else m\<lparr>WriterErrorsTotal := WriterErrorsTotal m + n,
                        WriterBatchErrorsTotal := WriterBatchErrorsTotal m + 1\<rparr>),
        written := written q @ [(b, ok)]\<rparr>)"

text \<open>One worker, one step, of \<^verbatim>\<open>work\<close>, \<^verbatim>\<open>nextBatch\<close> and \<^verbatim>\<open>writeBatch\<close>.\<close>

inductive worker_step :: "Config \<Rightarrow> nat \<Rightarrow> Queue \<Rightarrow> Queue \<Rightarrow> bool" for cfg where
  ws_first: "i < length (pool q) \<Longrightarrow> pool q ! i = Idle \<Longrightarrow> ch q = e # es \<Longrightarrow>
    worker_step cfg i q (set_worker i (Collecting [e]) (q\<lparr>ch := es\<rparr>))"
| ws_exit: "i < length (pool q) \<Longrightarrow> pool q ! i = Idle \<Longrightarrow> ch q = [] \<Longrightarrow> closed q \<Longrightarrow>
    worker_step cfg i q (set_worker i Exited q)"
| ws_collect: "i < length (pool q) \<Longrightarrow> pool q ! i = Collecting b \<Longrightarrow> length b < maxBatch cfg \<Longrightarrow>
    ch q = e # es \<Longrightarrow> worker_step cfg i q (set_worker i (Collecting (b @ [e])) (q\<lparr>ch := es\<rparr>))"
| ws_closed: "i < length (pool q) \<Longrightarrow> pool q ! i = Collecting b \<Longrightarrow> length b < maxBatch cfg \<Longrightarrow>
    ch q = [] \<Longrightarrow> closed q \<Longrightarrow> worker_step cfg i q (set_worker i (Holding b False) q)"
| ws_fire: "i < length (pool q) \<Longrightarrow> pool q ! i = Collecting b \<Longrightarrow> length b < maxBatch cfg \<Longrightarrow>
    worker_step cfg i q (set_worker i (Holding b True) q)"
| ws_full: "i < length (pool q) \<Longrightarrow> pool q ! i = Collecting b \<Longrightarrow> maxBatch cfg \<le> length b \<Longrightarrow>
    worker_step cfg i q (set_worker i (Holding b True) q)"
| ws_begin: "i < length (pool q) \<Longrightarrow> pool q ! i = Holding b mr \<Longrightarrow>
    worker_step cfg i q (set_worker i (Writing b mr) (begin_write b q))"
| ws_finish: "i < length (pool q) \<Longrightarrow> pool q ! i = Writing b mr \<Longrightarrow>
    worker_step cfg i q (set_worker i (Wrote b mr) (finish_write b ok now q))"
| ws_return: "i < length (pool q) \<Longrightarrow> pool q ! i = Wrote b mr \<Longrightarrow>
    worker_step cfg i q (set_worker i (if mr then Idle else Exited)
      (q\<lparr>inFlight := inFlight q - int (length b)\<rparr>))"

definition workers_done :: "Queue \<Rightarrow> bool" where
  "workers_done q \<longleftrightarrow> list_all (\<lambda>w. w = Exited) (pool q)"

text \<open>\<^verbatim>\<open>Stop\<close>.  A later call finds the queue closed and returns.  The last \<^verbatim>\<open>select\<close> may
  still take its default branch after the grace period although the workers are done,
  when the goroutine that closes \<^verbatim>\<open>done\<close> has not run yet.\<close>

inductive stop_step :: "Queue \<Rightarrow> Queue \<Rightarrow> bool" where
  st_call: "phase q = Running \<Longrightarrow> \<not> closed q \<Longrightarrow>
    stop_step q (q\<lparr>closed := True, phase := Draining\<rparr>)"
| st_again: "closed q \<Longrightarrow> stop_step q q"
| st_done: "phase q = Draining \<Longrightarrow> workers_done q \<Longrightarrow> stop_step q (q\<lparr>phase := Done\<rparr>)"
| st_timeout: "phase q = Draining \<Longrightarrow> stop_step q (q\<lparr>phase := InGrace\<rparr>)"
| st_expire: "phase q = InGrace \<Longrightarrow>
    stop_step q ((count_dropped (int (length (ch q)) + inFlight q) q)\<lparr>phase := Expired\<rparr>)"
| st_close: "phase q = Done \<or> phase q = Expired \<and> workers_done q \<Longrightarrow>
    stop_step q (q\<lparr>phase := Stopped, writer_closes := writer_closes q + 1\<rparr>)"
| st_skip: "phase q = Expired \<Longrightarrow> stop_step q (q\<lparr>phase := Stopped\<rparr>)"

inductive queue_step :: "Config \<Rightarrow> Queue \<Rightarrow> Queue \<Rightarrow> bool" for cfg where
  qs_enqueue: "queue_step cfg q (snd (Enqueue cfg e q))"
| qs_worker: "worker_step cfg i q q' \<Longrightarrow> queue_step cfg q q'"
| qs_stop: "stop_step q q' \<Longrightarrow> queue_step cfg q q'"

definition started :: "Config \<Rightarrow> Queue" where
  "started cfg = Start cfg (New new_store)"

abbreviation reachable :: "Config \<Rightarrow> Queue \<Rightarrow> bool" where
  "reachable cfg q \<equiv> (queue_step cfg)\<^sup>*\<^sup>* (started cfg) q"

inductive_simps worker_step_simps: "worker_step cfg i q q'"
inductive_simps stop_step_simps: "stop_step q q'"

section \<open>The contract of Enqueue\<close>

text \<open>What the handler relies on: an event is taken, at the end, or refused and counted.\<close>

locale event_sink =
  fixes enq :: "'e \<Rightarrow> 's \<Rightarrow> bool \<times> 's"
    and taken :: "'s \<Rightarrow> 'e list"
    and refused :: "'s \<Rightarrow> int"
  assumes enq_taken: "fst (enq e s) \<Longrightarrow>
      taken (snd (enq e s)) = taken s @ [e] \<and> refused (snd (enq e s)) = refused s"
    and enq_refused: "\<not> fst (enq e s) \<Longrightarrow>
      taken (snd (enq e s)) = taken s \<and> refused (snd (enq e s)) = refused s + 1"
begin

fun enq_all :: "'e list \<Rightarrow> 's \<Rightarrow> bool list \<times> 's" where
  "enq_all [] s = ([], s)"
| "enq_all (e # es) s =
     (case enq e s of (ok, s') \<Rightarrow> (case enq_all es s' of (oks, s'') \<Rightarrow> (ok # oks, s'')))"

lemma enq_all_accounts:
  "enq_all es s = (oks, s') \<Longrightarrow>
    length oks = length es \<and>
    taken s' = taken s @ map fst (filter snd (zip es oks)) \<and>
    refused s' = refused s + int (length (filter Not oks))"
proof (induction es arbitrary: s oks s')
  case (Cons e es)
  obtain ok s1 where e: "enq e s = (ok, s1)" by fastforce
  obtain oks' s2 where r: "enq_all es s1 = (oks', s2)" by fastforce
  have "oks = ok # oks'" "s' = s2" using Cons.prems e r by simp_all
  moreover note Cons.IH [OF r] enq_taken [of e s] enq_refused [of e s]
  ultimately show ?case using e by (cases ok) auto
qed simp

lemma enq_all_conserves:
  assumes "enq_all es s = (oks, s')"
  shows "int (length (taken s')) + refused s' = int (length (taken s)) + refused s + int (length es)"
proof -
  note a = enq_all_accounts [OF assms]
  have "length (filter snd (zip es oks)) = length (filter id oks)"
    using a by (metis filter_map length_map map_snd_zip o_id id_comp)
  moreover have "length (filter id oks) + length (filter Not oks) = length oks"
    using sum_length_filter_compl [of id oks] by (simp add: comp_def)
  ultimately show ?thesis using a by simp
qed

end

interpretation queue_sink: event_sink "Enqueue cfg" accepted "\<lambda>q. EventsDroppedTotal (met q)" for cfg
  by unfold_locales (auto simp: Enqueue_def count_dropped_def SetQueueDepth_def split: if_splits)

section \<open>Invariants\<close>

lemma sum_list_update_nth:
  fixes f :: "'a \<Rightarrow> 'b :: comm_monoid_add"
  shows "i < length xs \<Longrightarrow> sum_list (map f (xs[i := w])) + f (xs ! i) = sum_list (map f xs) + f w"
proof (induction xs arbitrary: i)
  case (Cons x xs)
  then show ?case by (cases i) (simp_all add: ac_simps)
qed simp

fun batch_of :: "worker \<Rightarrow> WindowsEvent list" where
  "batch_of Idle = []"
| "batch_of (Collecting b) = b"
| "batch_of (Holding b mr) = b"
| "batch_of (Writing b mr) = b"
| "batch_of (Wrote b mr) = b"
| "batch_of Exited = []"

text \<open>The events a worker has taken and not yet seen through the writer.\<close>

fun held :: "worker \<Rightarrow> WindowsEvent list" where
  "held (Wrote b mr) = []"
| "held w = batch_of w"

fun flying :: "worker \<Rightarrow> nat" where
  "flying (Writing b mr) = length b"
| "flying (Wrote b mr) = length b"
| "flying w = 0"

fun writing :: "worker \<Rightarrow> nat" where
  "writing (Writing b mr) = 1"
| "writing w = 0"

text \<open>A worker that has seen the closed channel will not receive again.\<close>

fun leaving :: "worker \<Rightarrow> bool" where
  "leaving (Holding b mr) = (\<not> mr)"
| "leaving (Writing b mr) = (\<not> mr)"
| "leaving (Wrote b mr) = (\<not> mr)"
| "leaving Exited = True"
| "leaving w = False"

definition bounds_ok :: "Config \<Rightarrow> Queue \<Rightarrow> bool" where
  "bounds_ok cfg q \<longleftrightarrow> length (ch q) \<le> capacity cfg \<and>
     (\<forall>w \<in> set (pool q). length (batch_of w) \<le> maxBatch cfg)"

definition flow_ok :: "Queue \<Rightarrow> bool" where
  "flow_ok q \<longleftrightarrow>
     (\<forall>x. count_list (accepted q) x =
        count_list (ch q) x + sum_list (map (\<lambda>w. count_list (held w) x) (pool q)) +
        count_list (concat (map fst (written q))) x)"

definition flight_ok :: "Queue \<Rightarrow> bool" where
  "flight_ok q \<longleftrightarrow> inFlight q = int (sum_list (map flying (pool q)))"

definition outcome_ok :: "Queue \<Rightarrow> bool" where
  "outcome_ok q \<longleftrightarrow>
     EventsWrittenTotal (met q) = int (sum_list (map (length \<circ> fst) (filter snd (written q)))) \<and>
     WriterErrorsTotal (met q) = int (sum_list (map (length \<circ> fst) (filter (Not \<circ> snd) (written q)))) \<and>
     WriterBatchErrorsTotal (met q) = int (length (filter (Not \<circ> snd) (written q))) \<and>
     WriterBatchesTotal (met q) = int (length (written q)) + int (sum_list (map writing (pool q)))"

definition close_ok :: "Queue \<Rightarrow> bool" where
  "close_ok q \<longleftrightarrow>
     (phase q = Running \<longleftrightarrow> \<not> closed q) \<and>
     ((\<exists>w \<in> set (pool q). leaving w) \<longrightarrow> closed q \<and> ch q = []) \<and>
     (phase q = Done \<longrightarrow> workers_done q) \<and>
     writer_closes q \<le> 1 \<and>
     (writer_closes q = 1 \<longrightarrow> phase q = Stopped \<and> workers_done q)"

definition queue_ok :: "Config \<Rightarrow> Queue \<Rightarrow> bool" where
  "queue_ok cfg q \<longleftrightarrow> bounds_ok cfg q \<and> flow_ok q \<and> flight_ok q \<and> outcome_ok q \<and> close_ok q"

lemma maxBatch_pos: "0 < maxBatch cfg"
  by (simp add: maxBatch_def withDefaults_def)

lemma capacity_pos: "0 < capacity cfg"
  by (simp add: capacity_def withDefaults_def)

lemma pool_sum:
  fixes f :: "worker \<Rightarrow> nat"
  assumes "i < length (pool q)" "pool q ! i = w0"
  shows "sum_list (map f ((pool q)[i := w])) + f w0 = sum_list (map f (pool q)) + f w"
  using sum_list_update_nth [OF assms(1), of f w] assms(2) by simp

lemma set_update_cases: "x \<in> set (xs[i := w]) \<Longrightarrow> x = w \<or> x \<in> set xs"
  using set_update_subset_insert [of xs i w] by blast

lemma worker_step_bounds:
  assumes "worker_step cfg i q q'" "bounds_ok cfg q"
  shows "bounds_ok cfg q'"
proof -
  have w: "length (batch_of (pool q ! i)) \<le> maxBatch cfg" if "i < length (pool q)"
    using assms(2) nth_mem [OF that] by (simp add: bounds_ok_def)
  show ?thesis using assms(1)
    by (cases rule: worker_step.cases)
       (use assms(2) w maxBatch_pos [of cfg] in \<open>auto simp: bounds_ok_def begin_write_def finish_write_def
          Let_def Suc_le_eq dest!: set_update_cases\<close>)
qed

lemma worker_step_flow:
  assumes "worker_step cfg i q q'" "flow_ok q"
  shows "flow_ok q'"
  unfolding flow_ok_def
proof
  fix x
  have f: "count_list (accepted q) x =
      count_list (ch q) x + sum_list (map (\<lambda>w. count_list (held w) x) (pool q)) +
      count_list (concat (map fst (written q))) x"
    using assms(2) by (simp add: flow_ok_def)
  note s = pool_sum [where f = "\<lambda>w. count_list (held w) x" and q = q and i = i]
  show "count_list (accepted q') x =
      count_list (ch q') x + sum_list (map (\<lambda>w. count_list (held w) x) (pool q')) +
      count_list (concat (map fst (written q'))) x"
    using assms(1)
  proof (cases rule: worker_step.cases)
    case (ws_first e es)
    then show ?thesis using f s [of Idle "Collecting [e]"] by (simp split: if_splits)
  next
    case ws_exit
    then show ?thesis using f s [of Idle Exited] by simp
  next
    case (ws_collect b e es)
    then show ?thesis using f s [of "Collecting b" "Collecting (b @ [e])"] by (simp split: if_splits)
  next
    case (ws_closed b)
    then show ?thesis using f s [of "Collecting b" "Holding b False"] by simp
  next
    case (ws_fire b)
    then show ?thesis using f s [of "Collecting b" "Holding b True"] by simp
  next
    case (ws_full b)
    then show ?thesis using f s [of "Collecting b" "Holding b True"] by simp
  next
    case (ws_begin b mr)
    then show ?thesis using f s [of "Holding b mr" "Writing b mr"] by (simp add: begin_write_def Let_def)
  next
    case (ws_finish b mr ok now)
    then show ?thesis using f s [of "Writing b mr" "Wrote b mr"] by (simp add: finish_write_def Let_def)
  next
    case (ws_return b mr)
    then show ?thesis using f s [of "Wrote b mr" "if mr then Idle else Exited"] by (cases mr) simp_all
  qed
qed

lemma worker_step_flight:
  assumes "worker_step cfg i q q'" "flight_ok q"
  shows "flight_ok q'"
proof -
  have f: "inFlight q = int (sum_list (map flying (pool q)))" using assms(2) by (simp add: flight_ok_def)
  note s = pool_sum [where f = flying and q = q and i = i]
  show ?thesis using assms(1)
  proof (cases rule: worker_step.cases)
    case (ws_first e es)
    then show ?thesis using f s [of Idle "Collecting [e]"] by (simp add: flight_ok_def)
  next
    case ws_exit
    then show ?thesis using f s [of Idle Exited] by (simp add: flight_ok_def)
  next
    case (ws_collect b e es)
    then show ?thesis using f s [of "Collecting b" "Collecting (b @ [e])"] by (simp add: flight_ok_def)
  next
    case (ws_closed b)
    then show ?thesis using f s [of "Collecting b" "Holding b False"] by (simp add: flight_ok_def)
  next
    case (ws_fire b)
    then show ?thesis using f s [of "Collecting b" "Holding b True"] by (simp add: flight_ok_def)
  next
    case (ws_full b)
    then show ?thesis using f s [of "Collecting b" "Holding b True"] by (simp add: flight_ok_def)
  next
    case (ws_begin b mr)
    then show ?thesis using f s [of "Holding b mr" "Writing b mr"]
      by (simp add: flight_ok_def begin_write_def Let_def)
  next
    case (ws_finish b mr ok now)
    then show ?thesis using f s [of "Writing b mr" "Wrote b mr"]
      by (simp add: flight_ok_def finish_write_def Let_def)
  next
    case (ws_return b mr)
    then show ?thesis using f s [of "Wrote b mr" "if mr then Idle else Exited"]
      by (cases mr) (simp_all add: flight_ok_def)
  qed
qed

lemma worker_step_outcome:
  assumes "worker_step cfg i q q'" "outcome_ok q"
  shows "outcome_ok q'"
proof -
  note s = pool_sum [where f = writing and q = q and i = i]
  show ?thesis using assms(1)
  proof (cases rule: worker_step.cases)
    case (ws_first e es)
    then show ?thesis using assms(2) s [of Idle "Collecting [e]"] by (simp add: outcome_ok_def)
  next
    case ws_exit
    then show ?thesis using assms(2) s [of Idle Exited] by (simp add: outcome_ok_def)
  next
    case (ws_collect b e es)
    then show ?thesis using assms(2) s [of "Collecting b" "Collecting (b @ [e])"] by (simp add: outcome_ok_def)
  next
    case (ws_closed b)
    then show ?thesis using assms(2) s [of "Collecting b" "Holding b False"] by (simp add: outcome_ok_def)
  next
    case (ws_fire b)
    then show ?thesis using assms(2) s [of "Collecting b" "Holding b True"] by (simp add: outcome_ok_def)
  next
    case (ws_full b)
    then show ?thesis using assms(2) s [of "Collecting b" "Holding b True"] by (simp add: outcome_ok_def)
  next
    case (ws_begin b mr)
    then show ?thesis using assms(2) s [of "Holding b mr" "Writing b mr"]
      by (simp add: outcome_ok_def begin_write_def SetQueueDepth_def Let_def)
  next
    case (ws_finish b mr ok now)
    then show ?thesis using assms(2) s [of "Writing b mr" "Wrote b mr"]
      by (cases ok) (simp_all add: outcome_ok_def finish_write_def RecordEventAt_def Let_def)
  next
    case (ws_return b mr)
    then show ?thesis using assms(2) s [of "Wrote b mr" "if mr then Idle else Exited"]
      by (cases mr) (simp_all add: outcome_ok_def)
  qed
qed

lemma worker_step_close:
  assumes "worker_step cfg i q q'" "close_ok q"
  shows "close_ok q'"
proof -
  have i: "i < length (pool q)" "pool q ! i \<noteq> Exited"
    using assms(1) by (auto elim: worker_step.cases)
  then have "\<not> workers_done q" by (auto simp: workers_done_def list_all_iff)
  then have p: "phase q \<noteq> Done" "writer_closes q \<noteq> 1" "writer_closes q \<le> 1"
    using assms(2) by (auto simp: close_ok_def)
  have l: "leaving (pool q ! i) \<Longrightarrow> closed q \<and> ch q = []"
    using assms(2) nth_mem [OF i(1)] by (auto simp: close_ok_def)
  have o: "w \<in> set (pool q) \<Longrightarrow> leaving w \<Longrightarrow> closed q \<and> ch q = []" for w
    using assms(2) by (auto simp: close_ok_def)
  show ?thesis using assms(1)
    by (cases rule: worker_step.cases)
       (use assms(2) p l o in \<open>fastforce simp: close_ok_def begin_write_def finish_write_def Let_def
          dest!: set_update_cases split: if_splits\<close>)+
qed

lemma Enqueue_ok:
  assumes "queue_ok cfg q"
  shows "queue_ok cfg (snd (Enqueue cfg e q))"
proof -
  have "\<not> closed q \<Longrightarrow> \<not> (\<exists>w \<in> set (pool q). leaving w)"
    using assms by (auto simp: queue_ok_def close_ok_def)
  then show ?thesis using assms
    by (auto simp: queue_ok_def bounds_ok_def flow_ok_def flight_ok_def outcome_ok_def close_ok_def
        workers_done_def Enqueue_def count_dropped_def SetQueueDepth_def)
qed

lemma stop_step_ok:
  assumes "stop_step q q'" "queue_ok cfg q"
  shows "queue_ok cfg q'"
  using assms(1)
  by (cases rule: stop_step.cases)
     (use assms(2) in \<open>auto simp: queue_ok_def bounds_ok_def flow_ok_def flight_ok_def outcome_ok_def
        close_ok_def workers_done_def count_dropped_def\<close>)

lemma started_ok: "queue_ok cfg (started cfg)"
proof -
  have "sum_list (map f (replicate n Idle)) = n * f Idle" for f :: "worker \<Rightarrow> nat" and n
    by (induction n) simp_all
  then show ?thesis
    by (simp add: queue_ok_def bounds_ok_def flow_ok_def flight_ok_def outcome_ok_def close_ok_def
        workers_done_def started_def Start_def New_def new_store_def)
qed

lemma queue_step_ok: "queue_step cfg q q' \<Longrightarrow> queue_ok cfg q \<Longrightarrow> queue_ok cfg q'"
proof (induction rule: queue_step.induct)
  case (qs_worker i q q')
  then show ?case
    using worker_step_bounds worker_step_flow worker_step_flight worker_step_outcome worker_step_close
    unfolding queue_ok_def by blast
qed (simp_all add: Enqueue_ok stop_step_ok)

interpretation queue_runs: invariant "queue_step cfg" "queue_ok cfg" "started cfg" for cfg
  by unfold_locales (auto intro: started_ok queue_step_ok)

lemmas reachable_ok = queue_runs.reached

section \<open>Draining\<close>

text \<open>What is left to do, once the channel is closed: every worker step lowers it.\<close>

fun left_of :: "worker \<Rightarrow> nat" where
  "left_of Idle = 1"
| "left_of (Collecting b) = 5"
| "left_of (Holding b mr) = 4"
| "left_of (Writing b mr) = 3"
| "left_of (Wrote b mr) = 2"
| "left_of Exited = 0"

definition work_left :: "Queue \<Rightarrow> nat" where
  "work_left q = 5 * length (ch q) + sum_list (map left_of (pool q))"

lemma worker_step_left:
  assumes "worker_step cfg i q q'"
  shows "work_left q' < work_left q"
proof -
  note s = pool_sum [where f = left_of and q = q and i = i]
  show ?thesis using assms
  proof (cases rule: worker_step.cases)
    case (ws_first e es)
    then show ?thesis using s [of Idle "Collecting [e]"] by (simp add: work_left_def)
  next
    case ws_exit
    then show ?thesis using s [of Idle Exited] by (simp add: work_left_def)
  next
    case (ws_collect b e es)
    then show ?thesis using s [of "Collecting b" "Collecting (b @ [e])"] by (simp add: work_left_def)
  next
    case (ws_closed b)
    then show ?thesis using s [of "Collecting b" "Holding b False"] by (simp add: work_left_def)
  next
    case (ws_fire b)
    then show ?thesis using s [of "Collecting b" "Holding b True"] by (simp add: work_left_def)
  next
    case (ws_full b)
    then show ?thesis using s [of "Collecting b" "Holding b True"] by (simp add: work_left_def)
  next
    case (ws_begin b mr)
    then show ?thesis using s [of "Holding b mr" "Writing b mr"]
      by (simp add: work_left_def begin_write_def Let_def)
  next
    case (ws_finish b mr ok now)
    then show ?thesis using s [of "Writing b mr" "Wrote b mr"]
      by (simp add: work_left_def finish_write_def Let_def)
  next
    case (ws_return b mr)
    then show ?thesis using s [of "Wrote b mr" "if mr then Idle else Exited"]
      by (cases mr) (simp_all add: work_left_def)
  qed
qed

text \<open>After the channel is closed, a worker that has not gone can always move.\<close>

lemma worker_can_move:
  assumes "closed q" "\<not> workers_done q"
  shows "\<exists>i q'. worker_step cfg i q q'"
proof -
  obtain i where i: "i < length (pool q)" "pool q ! i \<noteq> Exited"
    using assms(2) by (auto simp: workers_done_def list_all_length)
  show ?thesis
  proof (cases "pool q ! i")
    case Idle
    then show ?thesis using i assms(1) ws_first [OF i(1)] ws_exit [OF i(1)] by (cases "ch q") blast+
  next
    case (Collecting b)
    show ?thesis
    proof (cases "length b < maxBatch cfg")
      case True
      show ?thesis by (rule exI, rule exI, rule ws_fire [OF i(1) Collecting True])
    next
      case False
      then have "maxBatch cfg \<le> length b" by simp
      then show ?thesis using ws_full [OF i(1) Collecting] by blast
    qed
  next
    case (Holding b mr)
    show ?thesis by (rule exI, rule exI, rule ws_begin [OF i(1) Holding])
  next
    case (Writing b mr)
    show ?thesis by (rule exI, rule exI, rule ws_finish [OF i(1) Writing])
  next
    case (Wrote b mr)
    show ?thesis by (rule exI, rule exI, rule ws_return [OF i(1) Wrote])
  qed (use i in simp)
qed

definition some_worker :: "Config \<Rightarrow> Queue \<Rightarrow> Queue \<Rightarrow> bool" where
  "some_worker cfg q q' \<longleftrightarrow> (\<exists>i. worker_step cfg i q q')"

lemma worker_step_closed: "worker_step cfg i q q' \<Longrightarrow> closed q' = closed q"
  by (cases rule: worker_step.cases) (auto simp: begin_write_def finish_write_def Let_def)

lemma worker_steps_left:
  "(some_worker cfg ^^ n) q q' \<Longrightarrow> n + work_left q' \<le> work_left q \<and> closed q' = closed q"
proof (induction n arbitrary: q')
  case (Suc n)
  then obtain q1 where q1: "(some_worker cfg ^^ n) q q1" "some_worker cfg q1 q'" by (elim relpowp_Suc_E)
  then obtain i where "worker_step cfg i q1 q'" by (auto simp: some_worker_def)
  with q1(1) show ?case using Suc.IH worker_step_left worker_step_closed by fastforce
qed simp

section \<open>One worker\<close>

definition in_order :: "Queue \<Rightarrow> bool" where
  "in_order q \<longleftrightarrow> (\<exists>w. pool q = [w] \<and> accepted q = concat (map fst (written q)) @ held w @ ch q)"

lemma worker_step_in_order:
  assumes "worker_step cfg i q q'" "in_order q"
  shows "in_order q'"
proof -
  obtain w where w: "pool q = [w]" "accepted q = concat (map fst (written q)) @ held w @ ch q"
    using assms(2) by (auto simp: in_order_def)
  show ?thesis using assms(1)
    by (cases rule: worker_step.cases)
       (use w in \<open>auto simp: in_order_def begin_write_def finish_write_def Let_def\<close>)
qed

lemma queue_step_in_order: "queue_step cfg q q' \<Longrightarrow> in_order q \<Longrightarrow> in_order q'"
proof (induction rule: queue_step.induct)
  case (qs_enqueue q e)
  then show ?case by (auto simp: in_order_def Enqueue_def count_dropped_def)
next
  case (qs_worker i q q')
  then show ?case using worker_step_in_order by blast
next
  case (qs_stop q q')
  then show ?case by (cases rule: stop_step.cases) (auto simp: in_order_def count_dropped_def)
qed

interpretation ordered_runs: kept "queue_step cfg" in_order for cfg
  by unfold_locales (rule queue_step_in_order)

section \<open>Properties\<close>

lemma flow_mset:
  assumes "flow_ok q"
  shows "mset (accepted q) = mset (ch q) + mset (concat (map held (pool q))) +
    mset (concat (map fst (written q)))"
proof (rule multiset_eqI)
  fix x
  have h: "count_list (concat (map held ws)) x = sum_list (map (\<lambda>w. count_list (held w) x) ws)" for ws
    by (induction ws) simp_all
  have c: "count (mset xs) x = count_list xs x" for xs :: "WindowsEvent list"
    by (induction xs) simp_all
  show "count (mset (accepted q)) x = count (mset (ch q) + mset (concat (map held (pool q))) +
      mset (concat (map fst (written q)))) x"
    using assms by (simp only: flow_ok_def count_union c h)
qed

text \<open>C5: No event is lost inside the queue and none is written twice.  In every reachable
  state, whatever the workers, the timers and the writer have done, the events the
  channel has accepted are, with their multiplicities, exactly those still in the
  channel, those in a worker's batch, and those of the batches handed to the writer.\<close>

theorem queue_conserves_events:
  assumes "reachable cfg q"
  shows "mset (accepted q) = mset (ch q) + mset (concat (map held (pool q))) +
    mset (concat (map fst (written q)))"
  using reachable_ok [OF assms] by (intro flow_mset) (simp add: queue_ok_def)

definition one_worker :: Config where
  "one_worker = \<lparr>Capacity = 1, Workers = 1, DrainTimeout = 0, MaxBatch = 1, BatchTimeout = 0\<rparr>"

definition after_enqueue :: "WindowsEvent \<Rightarrow> Queue" where
  "after_enqueue e = snd (Enqueue one_worker e (started one_worker))"

lemma reachable_after_enqueue: "reachable one_worker (after_enqueue e)"
  unfolding after_enqueue_def by (intro r_into_rtranclp qs_enqueue)

lemma started_one_worker: "started one_worker = (New new_store)\<lparr>pool := [Idle]\<rparr>"
  by (simp add: started_def Start_def one_worker_def withDefaults_def New_def)

lemma one_worker_sizes [simp]: "capacity one_worker = 1" "maxBatch one_worker = 1"
  by (simp_all add: capacity_def maxBatch_def withDefaults_def one_worker_def)

lemma after_enqueue_fields [simp]:
  "ch (after_enqueue e) = [e]" "accepted (after_enqueue e) = [e]" "written (after_enqueue e) = []"
  "pool (after_enqueue e) = [Idle]" "closed (after_enqueue e) = False"
  "phase (after_enqueue e) = Running" "inFlight (after_enqueue e) = 0"
  "writer_closes (after_enqueue e) = 0"
  "EventsDroppedTotal (met (after_enqueue e)) = 0"
  "EventsWrittenTotal (met (after_enqueue e)) = 0" "WriterErrorsTotal (met (after_enqueue e)) = 0"
  unfolding after_enqueue_def Enqueue_def started_one_worker
  by (simp_all add: New_def new_store_def SetQueueDepth_def)

definition sample_windows_event :: WindowsEvent where
  "sample_windows_event = Map ''host'' (convert sample_raw (mk_time 0 0)) ''nas''"

theorem queue_conserves_events_witness:
  "mset [sample_windows_event] = mset (ch (after_enqueue sample_windows_event)) +
     mset (concat (map held (pool (after_enqueue sample_windows_event)))) +
     mset (concat (map fst (written (after_enqueue sample_windows_event))))"
  using queue_conserves_events [OF reachable_after_enqueue, of sample_windows_event] by simp

lemma sum_written_failed:
  "sum_list (map (length \<circ> fst) (filter snd bs)) + sum_list (map (length \<circ> fst) (filter (Not \<circ> snd) bs)) =
    length (concat (map fst bs))"
  by (induction bs) (auto simp: o_def)

lemma drained_ok:
  assumes ok: "queue_ok cfg q" and w: "workers_done q" "pool q \<noteq> []"
  shows "ch q = [] \<and> inFlight q = 0 \<and> mset (accepted q) = mset (concat (map fst (written q))) \<and>
    EventsWrittenTotal (met q) + WriterErrorsTotal (met q) = int (length (accepted q))"
proof -
  have ex: "\<forall>w \<in> set (pool q). w = Exited" using w(1) by (simp add: workers_done_def list_all_iff)
  then have "Exited \<in> set (pool q)" using w(2) by (cases "pool q") auto
  then have ch: "ch q = []" using ok unfolding queue_ok_def close_ok_def by force
  have z: "concat (map held (pool q)) = []" "sum_list (map flying (pool q)) = 0"
    using ex by auto
  have m: "mset (accepted q) = mset (concat (map fst (written q)))"
    using flow_mset [of q] ok ch z by (simp add: queue_ok_def)
  then have "length (accepted q) = length (concat (map fst (written q)))" by (metis size_mset)
  then show ?thesis using ok ch z m sum_written_failed [of "written q"]
    by (simp add: queue_ok_def flight_ok_def outcome_ok_def)
qed

text \<open>A drained queue accounts for everything.  In a reachable state whose workers have
  all gone (and there was at least one), the channel is empty, nothing is in flight, the
  batches handed to the writer hold exactly the accepted events, and the written and the
  failed counters add up to their number.\<close>

theorem drained_queue_accounts:
  assumes "reachable cfg q" "workers_done q" "pool q \<noteq> []"
  shows "ch q = [] \<and> inFlight q = 0 \<and> mset (accepted q) = mset (concat (map fst (written q))) \<and>
    EventsWrittenTotal (met q) + WriterErrorsTotal (met q) = int (length (accepted q))"
  by (rule drained_ok [OF reachable_ok [OF assms(1)] assms(2,3)])

text \<open>A run of one worker over one event, for the examples.\<close>

definition taken_by_worker :: "WindowsEvent \<Rightarrow> Queue" where
  "taken_by_worker e = set_worker 0 (Collecting [e]) ((after_enqueue e)\<lparr>ch := []\<rparr>)"

definition written_by_worker :: "WindowsEvent \<Rightarrow> Queue" where
  "written_by_worker e =
     (let q2 = set_worker 0 (Holding [e] True) (taken_by_worker e);
          q3 = set_worker 0 (Writing [e] True) (begin_write [e] q2);
          q4 = set_worker 0 (Wrote [e] True) (finish_write [e] True (mk_time 1 0) q3) in
      set_worker 0 Idle (q4\<lparr>inFlight := inFlight q4 - 1\<rparr>))"

definition drained :: "WindowsEvent \<Rightarrow> Queue" where
  "drained e = set_worker 0 Exited ((written_by_worker e)\<lparr>closed := True, phase := Draining\<rparr>)"

lemma taken_by_worker_step: "queue_step one_worker (after_enqueue e) (taken_by_worker e)"
  unfolding taken_by_worker_def by (rule qs_worker, rule ws_first) simp_all

lemma taken_by_worker_fields [simp]:
  "ch (taken_by_worker e) = []" "accepted (taken_by_worker e) = [e]" "written (taken_by_worker e) = []"
  "pool (taken_by_worker e) = [Collecting [e]]" "closed (taken_by_worker e) = False"
  "phase (taken_by_worker e) = Running" "inFlight (taken_by_worker e) = 0"
  "writer_closes (taken_by_worker e) = 0"
  "EventsDroppedTotal (met (taken_by_worker e)) = 0"
  "EventsWrittenTotal (met (taken_by_worker e)) = 0" "WriterErrorsTotal (met (taken_by_worker e)) = 0"
  by (simp_all add: taken_by_worker_def)

lemma written_by_worker_steps: "(queue_step one_worker)\<^sup>*\<^sup>* (taken_by_worker e) (written_by_worker e)"
proof -
  let ?q2 = "set_worker 0 (Holding [e] True) (taken_by_worker e)"
  let ?q3 = "set_worker 0 (Writing [e] True) (begin_write [e] ?q2)"
  let ?q4 = "set_worker 0 (Wrote [e] True) (finish_write [e] True (mk_time 1 0) ?q3)"
  have 1: "queue_step one_worker (taken_by_worker e) ?q2" by (rule qs_worker, rule ws_full) simp_all
  have 2: "queue_step one_worker ?q2 ?q3" by (rule qs_worker, rule ws_begin) simp_all
  have 3: "queue_step one_worker ?q3 ?q4"
    by (rule qs_worker, rule ws_finish) (simp_all add: begin_write_def Let_def)
  have "worker_step one_worker 0 ?q4 (set_worker 0 (if True then Idle else Exited)
      (?q4\<lparr>inFlight := inFlight ?q4 - int (length [e])\<rparr>))"
    by (rule ws_return) (simp_all add: begin_write_def finish_write_def Let_def)
  then have 4: "queue_step one_worker ?q4 (written_by_worker e)"
    by (intro qs_worker) (simp add: written_by_worker_def Let_def)
  show ?thesis using 1 2 3 4 by (meson converse_rtranclp_into_rtranclp rtranclp.rtrancl_refl)
qed

lemma written_by_worker_fields [simp]:
  "ch (written_by_worker e) = []" "accepted (written_by_worker e) = [e]"
  "written (written_by_worker e) = [([e], True)]" "pool (written_by_worker e) = [Idle]"
  "closed (written_by_worker e) = False" "phase (written_by_worker e) = Running"
  "EventsWrittenTotal (met (written_by_worker e)) = 1" "WriterErrorsTotal (met (written_by_worker e)) = 0"
  by (simp_all add: written_by_worker_def begin_write_def finish_write_def RecordEventAt_def
      SetQueueDepth_def Let_def)

lemma reachable_taken: "reachable one_worker (taken_by_worker e)"
  using reachable_after_enqueue taken_by_worker_step by (rule rtranclp.rtrancl_into_rtrancl)

lemma reachable_drained: "reachable one_worker (drained e)"
proof -
  let ?q = "(written_by_worker e)\<lparr>closed := True, phase := Draining\<rparr>"
  have "queue_step one_worker (written_by_worker e) ?q" by (rule qs_stop, rule st_call) simp_all
  moreover have "queue_step one_worker ?q (drained e)"
    unfolding drained_def by (rule qs_worker, rule ws_exit) simp_all
  ultimately show ?thesis
    using reachable_taken written_by_worker_steps by (meson rtranclp.rtrancl_into_rtrancl rtranclp_trans)
qed

lemma drained_fields [simp]:
  "ch (drained e) = []" "accepted (drained e) = [e]" "written (drained e) = [([e], True)]"
  "pool (drained e) = [Exited]" "closed (drained e) = True" "phase (drained e) = Draining"
  by (simp_all add: drained_def)

theorem drained_queue_accounts_witness:
  "EventsWrittenTotal (met (drained sample_windows_event)) +
     WriterErrorsTotal (met (drained sample_windows_event)) = 1"
  using drained_queue_accounts [OF reachable_drained, of sample_windows_event]
  by (simp add: workers_done_def)

text \<open>The queue is bounded in every reachable state: the channel by its capacity, every
  batch by \<^verbatim>\<open>max_batch\<close>, and the events inside the writer by the number of workers times
  \<^verbatim>\<open>max_batch\<close>.\<close>

theorem queue_bounds:
  assumes "reachable cfg q"
  shows "length (ch q) \<le> capacity cfg \<and> (\<forall>w \<in> set (pool q). length (batch_of w) \<le> maxBatch cfg) \<and>
    0 \<le> inFlight q \<and> inFlight q \<le> int (length (pool q) * maxBatch cfg)"
proof -
  have ok: "queue_ok cfg q" by (rule reachable_ok [OF assms])
  have "flying w \<le> length (batch_of w)" for w by (cases w) simp_all
  then have "\<forall>w \<in> set (pool q). flying w \<le> maxBatch cfg"
    using ok unfolding queue_ok_def bounds_ok_def by (meson order_trans)
  moreover have "\<forall>w \<in> set ws. flying w \<le> m \<Longrightarrow> sum_list (map flying ws) \<le> length ws * m" for ws m
    by (induction ws) auto
  ultimately have "sum_list (map flying (pool q)) \<le> length (pool q) * maxBatch cfg" by blast
  then show ?thesis using ok by (simp add: queue_ok_def bounds_ok_def flight_ok_def flip: of_nat_mult)
qed

theorem queue_bounds_witness:
  "length (ch (after_enqueue sample_windows_event)) \<le> 1 \<and> inFlight (drained sample_windows_event) \<le> 1"
  using queue_bounds [OF reachable_after_enqueue, of sample_windows_event]
    queue_bounds [OF reachable_drained, of sample_windows_event] by simp

text \<open>C32: The writer is closed at most once, and never under a worker: in a reachable state
  where it has been closed every worker has gone, no worker can take another step, the
  channel refuses every event, and this stays so.\<close>

theorem writer_closed_safely:
  assumes "reachable cfg q"
  shows "writer_closes q \<le> 1 \<and>
    (writer_closes q = 1 \<longrightarrow> workers_done q \<and> (\<forall>i q'. \<not> worker_step cfg i q q') \<and>
      (\<forall>e. \<not> fst (Enqueue cfg e q)))"
proof -
  have c: "close_ok q" using reachable_ok [OF assms] by (simp add: queue_ok_def)
  have "\<not> worker_step cfg i q q'" if "workers_done q" for i q'
  proof
    assume "worker_step cfg i q q'"
    then have "i < length (pool q)" "pool q ! i \<noteq> Exited" by (auto elim: worker_step.cases)
    then show False using that by (auto simp: workers_done_def list_all_length)
  qed
  moreover have "writer_closes q = 1 \<Longrightarrow> closed q" using c by (auto simp: close_ok_def)
  ultimately show ?thesis using c by (simp add: close_ok_def Enqueue_def)
qed

definition stopped :: "WindowsEvent \<Rightarrow> Queue" where
  "stopped e = (drained e)\<lparr>phase := Stopped, writer_closes := writer_closes (drained e) + 1\<rparr>"

lemma writer_closes_drained: "writer_closes (drained e) = 0"
  by (simp add: drained_def written_by_worker_def begin_write_def finish_write_def Let_def)

lemma reachable_stopped: "reachable one_worker (stopped e)"
proof -
  let ?q = "(drained e)\<lparr>phase := Done\<rparr>"
  have 1: "queue_step one_worker (drained e) ?q"
    by (rule qs_stop, rule st_done) (simp_all add: workers_done_def)
  have "stop_step ?q (?q\<lparr>phase := Stopped, writer_closes := writer_closes ?q + 1\<rparr>)"
    by (rule st_close) simp
  then have 2: "queue_step one_worker ?q (stopped e)" by (intro qs_stop) (simp add: stopped_def)
  from reachable_drained 1 2 show ?thesis by (meson rtranclp.rtrancl_into_rtrancl)
qed

theorem writer_closed_safely_witness:
  "\<not> fst (Enqueue one_worker sample_windows_event (stopped sample_windows_event))"
  using writer_closed_safely [OF reachable_stopped, of sample_windows_event]
  by (simp add: stopped_def writer_closes_drained)

text \<open>C25: The drain ends.  Once the channel is closed, any run of worker steps is no longer
  than a bound fixed when it began, and a run that cannot be continued has brought every
  worker to its end: no interleaving, timer or writer outcome can make the drain loop
  or deadlock.\<close>

theorem drain_terminates:
  assumes "closed q" "(some_worker cfg ^^ n) q q'"
  shows "n \<le> work_left q \<and> ((\<forall>q''. \<not> some_worker cfg q' q'') \<longrightarrow> workers_done q')"
proof -
  have s: "n + work_left q' \<le> work_left q" "closed q'"
    using worker_steps_left [OF assms(2)] assms(1) by simp_all
  then show ?thesis using worker_can_move [OF s(2), of cfg] by (auto simp: some_worker_def)
qed

theorem drain_terminates_witness:
  "1 \<le> work_left ((written_by_worker sample_windows_event)\<lparr>closed := True, phase := Draining\<rparr>) \<and>
   (\<forall>q. \<not> some_worker one_worker (drained sample_windows_event) q) = True"
proof -
  let ?q = "(written_by_worker sample_windows_event)\<lparr>closed := True, phase := Draining\<rparr>"
  have "worker_step one_worker 0 ?q (drained sample_windows_event)"
    unfolding drained_def by (rule ws_exit) simp_all
  then have "some_worker one_worker ?q (drained sample_windows_event)"
    unfolding some_worker_def by blast
  then have "(some_worker one_worker ^^ 1) ?q (drained sample_windows_event)" by (simp add: eq_OO)
  from drain_terminates [OF _ this]
  have "1 \<le> work_left ?q" by simp
  moreover have "\<not> some_worker one_worker (drained sample_windows_event) q" for q
    by (auto simp: some_worker_def elim!: worker_step.cases)
  ultimately show ?thesis by simp
qed

text \<open>A queue with one worker is first in, first out: in every reachable state the
  batches written, the worker's batch and the channel, one after the other, are the
  accepted events in the order they were accepted.\<close>

theorem one_worker_in_order:
  assumes "reachable cfg q" "Workers cfg = 1"
  shows "\<exists>w. pool q = [w] \<and> accepted q = concat (map fst (written q)) @ held w @ ch q"
proof -
  have "in_order (started cfg)"
    using assms(2) by (simp add: in_order_def started_def Start_def New_def withDefaults_def)
  with assms(1) have "in_order q"
    by (rule ordered_runs.along)
  then show ?thesis by (simp add: in_order_def)
qed

theorem one_worker_in_order_witness:
  "\<exists>w. pool (taken_by_worker sample_windows_event) = [w] \<and> held w = [sample_windows_event]"
  using one_worker_in_order [OF reachable_taken, of sample_windows_event] by (simp add: one_worker_def)

text \<open>The report of an expired drain does not see a worker that is still collecting: here an
  accepted event is neither written, failed nor counted as dropped when \<open>Stop\<close> returns.\<close>

lemma expired_drain_misses_a_batch:
  "\<exists>q. reachable one_worker q \<and> phase q = Stopped \<and> accepted q = [e] \<and>
     EventsWrittenTotal (met q) = 0 \<and> WriterErrorsTotal (met q) = 0 \<and> EventsDroppedTotal (met q) = 0"
proof -
  let ?q1 = "(taken_by_worker e)\<lparr>closed := True, phase := Draining\<rparr>"
  let ?q2 = "?q1\<lparr>phase := InGrace\<rparr>"
  let ?q3 = "(count_dropped (int (length (ch ?q2)) + inFlight ?q2) ?q2)\<lparr>phase := Expired\<rparr>"
  let ?q4 = "?q3\<lparr>phase := Stopped\<rparr>"
  have "queue_step one_worker (taken_by_worker e) ?q1" by (rule qs_stop, rule st_call) simp_all
  moreover have "queue_step one_worker ?q1 ?q2" by (rule qs_stop, rule st_timeout) simp
  moreover have "queue_step one_worker ?q2 ?q3" by (rule qs_stop, rule st_expire) simp
  moreover have "queue_step one_worker ?q3 ?q4" by (rule qs_stop, rule st_skip) simp
  ultimately have "reachable one_worker ?q4"
    using reachable_taken by (meson rtranclp.rtrancl_into_rtrancl)
  then show ?thesis by (intro exI [of _ ?q4]) (simp add: count_dropped_def)
qed

text \<open>Enqueue accounts for every event it is given: however the queue stands, offering
  a list of events raises the accepted events and the dropped counter together by the
  length of the list, and what is accepted is appended in order.\<close>

theorem enqueue_all_conserves:
  "case queue_sink.enq_all cfg es q of (oks, q') \<Rightarrow>
     length oks = length es \<and>
     accepted q' = accepted q @ map fst (filter snd (zip es oks)) \<and>
     int (length (accepted q')) + EventsDroppedTotal (met q') =
       int (length (accepted q)) + EventsDroppedTotal (met q) + int (length es)"
proof (cases "queue_sink.enq_all cfg es q")
  case (Pair oks q')
  then show ?thesis
    using queue_sink.enq_all_accounts [OF Pair] queue_sink.enq_all_conserves [OF Pair] by simp
qed

end
