(* ===== verification/Registration.thy ===== *)
theory Registration
  imports Xml_Print Go_Strings
begin

text \<open>
  The registration handshake of \<^verbatim>\<open>pkg/server/register.go\<close> and the heartbeat reply of
  \<^verbatim>\<open>pkg/server/heartbeat.go\<close>: the configuration with its defaults, the escaping of attribute
  values, and the two documents the server answers with.  The registration reply is read
  back with the model of \<^verbatim>\<open>encoding/xml\<close>, which shows that no configured text can break the
  document or move into another attribute.
\<close>

section \<open>Configuration\<close>

record RegistrationConfig =
  FriendlyName :: string
  GUID :: string
  Description :: string
  Protocols :: string
  EventFilter :: string
  Version :: string

definition DefaultFriendlyName :: string where
  "DefaultFriendlyName = ''ceeexporter''"

definition DefaultGUID :: string where
  "DefaultGUID = ''bbefd339-b011-4c7a-89a7-1180d5d531c2''"

definition DefaultDescription :: string where
  "DefaultDescription = ''cee-exporter CEPA consumer''"

definition DefaultProtocols :: string where
  "DefaultProtocols = ''0,1''"

definition DefaultEventFilter :: string where
  "DefaultEventFilter = ''0xFFFFFFFF0000000000000000''"

definition DefaultVersion :: string where
  "DefaultVersion = ''1.2''"

text \<open>\<^verbatim>\<open>cmp.Or\<close> of two strings.\<close>

definition cmp_Or :: "string \<Rightarrow> string \<Rightarrow> string" where
  "cmp_Or a b = (if a \<noteq> [] then a else b)"

definition registration_withDefaults :: "RegistrationConfig \<Rightarrow> RegistrationConfig" where
  "registration_withDefaults c =
     \<lparr>FriendlyName = cmp_Or (FriendlyName c) DefaultFriendlyName,
      GUID = cmp_Or (GUID c) DefaultGUID,
      Description = cmp_Or (Description c) DefaultDescription,
      Protocols = cmp_Or (Protocols c) DefaultProtocols,
      EventFilter = cmp_Or (EventFilter c) DefaultEventFilter,
      Version = cmp_Or (Version c) DefaultVersion\<rparr>"

section \<open>The reply documents\<close>

text \<open>\<^verbatim>\<open>strings.Split\<close> at one separating byte; there is always at least one piece.\<close>

fun split_at_char :: "char \<Rightarrow> string \<Rightarrow> string list" where
  "split_at_char sep [] = [[]]"
| "split_at_char sep (c # cs) =
     (if c = sep then [] # split_at_char sep cs
      else case split_at_char sep cs of
             [] \<Rightarrow> [[c]]
           | piece # pieces \<Rightarrow> (c # piece) # pieces)"

definition attr_escape :: "char \<Rightarrow> string" where
  "attr_escape c =
     (if c = CHR ''&'' then ''&amp;'' else if c = CHR ''<'' then ''&lt;''
      else if c = CHR ''>'' then ''&gt;'' else if c = CHR 0x22 then ''&quot;''
      else if c = CHR 0x27 then ''&apos;'' else [c])"

definition escapeAttr :: "string \<Rightarrow> string" where
  "escapeAttr s = concat (map attr_escape s)"

definition quoted_attr :: "string \<Rightarrow> string \<Rightarrow> string" where
  "quoted_attr name s = name @ ''='' @ [CHR 0x22] @ escapeAttr s @ [CHR 0x22]"

definition filter_xml :: "RegistrationConfig \<Rightarrow> string \<Rightarrow> string" where
  "filter_xml c proto =
     ''<Filter '' @ quoted_attr ''protocol'' proto @ ''><EventTypeFilter '' @
     quoted_attr ''value'' (EventFilter c) @ '' /></Filter>''"

definition protocol_list :: "RegistrationConfig \<Rightarrow> string list" where
  "protocol_list c = filter (\<lambda>proto. proto \<noteq> []) (map TrimSpace (split_at_char CHR '','' (Protocols c)))"

definition registrationResponseXML :: "RegistrationConfig \<Rightarrow> bytes" where
  "registrationResponseXML c =
     ''<RegisterResponse>'' @
     ''<EndPoint '' @ quoted_attr ''guid'' (GUID c) @ '' '' @ quoted_attr ''friendlyName'' (FriendlyName c) @
     '' '' @ quoted_attr ''version'' (Version c) @ '' '' @ quoted_attr ''desc'' (Description c) @ '' />'' @
     concat (map (filter_xml c) (protocol_list c)) @
     ''</RegisterResponse>''"

definition heartbeatReply :: bytes where
  "heartbeatReply = ''hbStatus='' @ Itoa 0 @ ''&ntStatus='' @ Itoa 0"

section \<open>Reading the documents back\<close>

text \<open>Attributes as the reply writes them, for any escaping that obeys the contract.\<close>

context text_escape
begin

definition quoted_attrs :: "attrs \<Rightarrow> string" where
  "quoted_attrs as =
     concat (map (\<lambda>((p, l), v). '' '' @ l @ ''='' @ [CHR 0x22] @ escape v @ [CHR 0x22]) as)"

definition ok_quoted :: "attrs \<Rightarrow> bool" where
  "ok_quoted as \<longleftrightarrow> list_all (\<lambda>((p, l), v). p = [] \<and> plain_name l \<and> list_all okc v \<and> xml_chars v) as"

lemma read_quoted_attrs:
  assumes "ok_quoted as" "(stop, selfc) \<in> {(''>'', False), ('' />'', True)}"
  shows "read_attrs nt acc (quoted_attrs as @ stop @ r) = Some ((rev acc @ as, selfc), r)"
  using assms(1)
proof (induction as arbitrary: acc)
  case Nil
  show ?case using assms(2)
    by (subst read_attrs.simps) (auto simp: xml_space_def Let_def quoted_attrs_def)
next
  case (Cons a as)
  obtain p l v where a: "a = ((p, l), v)" by (metis prod.collapse)
  have ok: "p = []" "plain_name l" "list_all okc v" "xml_chars v" "ok_quoted as"
    using Cons.prems a by (auto simp: ok_quoted_def)
  let ?t = "CHR 0x22 # escape v @ CHR 0x22 # quoted_attrs as @ stop @ r"
  have sp: "skip_space (CHR '' '' # l @ CHR ''='' # ?t) = l @ CHR ''='' # ?t"
    using skip_space_plain [OF ok(2)] by (simp add: xml_space_def)
  have hd: "\<not> starts_with ''/'' (l @ CHR ''='' # ?t)" "\<not> starts_with ''>'' (l @ CHR ''='' # ?t)"
    using plain_name_hd [OF ok(2)] by auto
  have q: "read_qname nt (l @ CHR ''='' # ?t) = Some (([], l), CHR ''='' # ?t)"
    by (rule read_qname_plain [OF ok(2)]) (simp add: is_name_byte_def Let_def)
  have v: "read_text (Some CHR 0x22) False (escape v @ CHR 0x22 # quoted_attrs as @ stop @ r) =
      Some (v, quoted_attrs as @ stop @ r)"
    by (rule read_text_quoted) (use ok in auto)
  have "quoted_attrs (a # as) @ stop @ r = CHR '' '' # l @ CHR ''='' # ?t"
    by (simp add: quoted_attrs_def a)
  then have "read_attrs nt acc (quoted_attrs (a # as) @ stop @ r) =
      read_attrs nt ((([], l), v) # acc) (quoted_attrs as @ stop @ r)"
    using sp hd q v by (subst read_attrs.simps) (simp add: Let_def xml_space_def)
  also have "\<dots> = Some ((rev acc @ a # as, selfc), r)"
    using Cons.IH [OF ok(5)] a ok(1) by simp
  finally show ?case .
qed

lemma raw_token_quoted:
  assumes "plain_name l" "ok_quoted as" "(stop, selfc) \<in> {(''>'', False), ('' />'', True)}"
  shows "raw_token nt (CHR ''<'' # l @ quoted_attrs as @ stop @ r) = Some (StartTok ([], l) as selfc, r)"
proof -
  obtain c cs where l: "l = c # cs" "c \<noteq> CHR ''/''" "c \<noteq> CHR ''!''" "c \<noteq> CHR ''?''"
    using plain_name_hd [OF assms(1)] by blast
  obtain d t where d: "quoted_attrs as @ stop @ r = d # t" "\<not> is_name_byte d"
    using assms(3) by (cases as) (auto simp: quoted_attrs_def is_name_byte_def Let_def)
  have "read_qname nt (c # cs @ quoted_attrs as @ stop @ r) = Some (([], l), quoted_attrs as @ stop @ r)"
    using read_qname_plain [OF assms(1) d(2), of nt t] d(1) l(1) by simp
  then show ?thesis
    using l read_quoted_attrs [OF assms(2,3), of nt "[]" r] by (simp add: raw_token_def)
qed

end

definition attr_safe :: "char \<Rightarrow> bool" where
  "attr_safe c \<longleftrightarrow> c \<noteq> CHR 0x0D"

interpretation reply_attr: text_escape attr_escape attr_safe
proof (unfold_locales, goal_cases)
  case (1 c)
  then show ?case unfolding attr_escape_def attr_safe_def
    using entity_amp entity_lt entity_gt entity_quot entity_apos by auto
qed

text \<open>Text that an attribute can carry: legal XML characters, and no carriage return, which
  a reader normalises to a line feed.\<close>

definition attr_value_ok :: "string \<Rightarrow> bool" where
  "attr_value_ok v \<longleftrightarrow> list_all attr_safe v \<and> xml_chars v"

definition config_ok :: "RegistrationConfig \<Rightarrow> bool" where
  "config_ok c \<longleftrightarrow>
     list_all attr_value_ok ([GUID c, FriendlyName c, Version c, Description c, EventFilter c] @ protocol_list c)"

definition endpoint_node :: "RegistrationConfig \<Rightarrow> xnode" where
  "endpoint_node c =
     Elem ([], ''EndPoint'')
       [(([], ''guid''), GUID c), (([], ''friendlyName''), FriendlyName c),
        (([], ''version''), Version c), (([], ''desc''), Description c)] []"

definition filter_node :: "RegistrationConfig \<Rightarrow> string \<Rightarrow> xnode" where
  "filter_node c proto =
     Elem ([], ''Filter'') [(([], ''protocol''), proto)]
       [Elem ([], ''EventTypeFilter'') [(([], ''value''), EventFilter c)] []]"

lemma ok_quoted_one [simp]:
  "reply_attr.ok_quoted [] "
  "reply_attr.ok_quoted ((([], l), v) # as) \<longleftrightarrow> plain_name l \<and> attr_value_ok v \<and> reply_attr.ok_quoted as"
  by (simp_all add: reply_attr.ok_quoted_def attr_value_ok_def)

lemma quoted_attrs_attr:
  "reply_attr.quoted_attrs [] = []"
  "reply_attr.quoted_attrs ((([], l), v) # as) = '' '' @ quoted_attr l v @ reply_attr.quoted_attrs as"
  by (simp_all add: reply_attr.quoted_attrs_def quoted_attr_def escapeAttr_def reply_attr.escape_def)

lemma plain_reply_names [simp]:
  "plain_name ''RegisterResponse''" "plain_name ''EndPoint''" "plain_name ''Filter''"
  "plain_name ''EventTypeFilter''" "plain_name ''guid''" "plain_name ''friendlyName''"
  "plain_name ''version''" "plain_name ''desc''" "plain_name ''protocol''" "plain_name ''value''"
  by (simp_all add: plain_name_def is_name_byte_def Let_def)

lemma read_self_closed:
  assumes "plain_name l" "reply_attr.ok_quoted bs"
  shows "read_tree nt (q, as, acc) outer (CHR ''<'' # l @ reply_attr.quoted_attrs bs @ '' />'' @ r) =
    read_tree nt (q, as, Elem ([], l) bs [] # acc) outer r"
  using reply_attr.raw_token_quoted [OF assms, of "'' />''" True nt r]
  by (subst read_tree.simps) (simp add: add_child_def)

lemma read_filter:
  assumes "attr_value_ok proto" "attr_value_ok (EventFilter c)"
  shows "read_tree nt (q, as, acc) outer (filter_xml c proto @ r) =
    read_tree nt (q, as, filter_node c proto # acc) outer r"
proof -
  let ?pa = "[(([], ''protocol''), proto)]" and ?va = "[(([], ''value''), EventFilter c)]"
  let ?inner = "''<EventTypeFilter'' @ reply_attr.quoted_attrs ?va @ '' />'' @ ''</Filter>'' @ r"
  have "filter_xml c proto @ r =
      CHR ''<'' # ''Filter'' @ reply_attr.quoted_attrs ?pa @ ''>'' @ ?inner"
    by (simp add: filter_xml_def quoted_attrs_attr)
  moreover have "raw_token nt (CHR ''<'' # ''Filter'' @ reply_attr.quoted_attrs ?pa @ ''>'' @ ?inner) =
      Some (StartTok ([], ''Filter'') ?pa False, ?inner)"
    by (rule reply_attr.raw_token_quoted) (use assms in simp_all)
  ultimately have "read_tree nt (q, as, acc) outer (filter_xml c proto @ r) =
      read_tree nt (([], ''Filter''), ?pa, []) ((q, as, acc) # outer) ?inner"
    by (subst read_tree.simps) simp
  also have "\<dots> = read_tree nt (([], ''Filter''), ?pa, [Elem ([], ''EventTypeFilter'') ?va []])
      ((q, as, acc) # outer) (''</Filter>'' @ r)"
    using read_self_closed [of "''EventTypeFilter''" ?va] assms(2) by simp
  also have "\<dots> = read_tree nt (q, as, filter_node c proto # acc) outer r"
    using raw_token_end [of "''Filter''" nt r]
    by (subst read_tree.simps) (simp add: close_elem_def add_child_def filter_node_def)
  finally show ?thesis .
qed

lemma read_filters:
  assumes "list_all attr_value_ok ps" "attr_value_ok (EventFilter c)"
  shows "read_tree nt (q, as, acc) outer (concat (map (filter_xml c) ps) @ r) =
    read_tree nt (q, as, rev (map (filter_node c) ps) @ acc) outer r"
  using assms(1) by (induction ps arbitrary: acc) (simp_all add: read_filter assms(2))

lemma split_at_char_no_sep: "p \<in> set (split_at_char sep s) \<Longrightarrow> sep \<notin> set p"
proof (induction s arbitrary: p)
  case (Cons c cs)
  then show ?case by (cases "split_at_char sep cs") (auto split: if_splits)
qed simp

lemma protocol_list_pieces:
  "list_all (\<lambda>p. p \<noteq> [] \<and> CHR '','' \<notin> set p) (protocol_list c)"
  using split_at_char_no_sep set_TrimSpace
  by (fastforce simp: protocol_list_def list_all_iff)

text \<open>The reply is text, so it can also be sent as UTF-16.\<close>

definition texts_valid :: "RegistrationConfig \<Rightarrow> bool" where
  "texts_valid c \<longleftrightarrow>
     list_all valid_utf8 ([GUID c, FriendlyName c, Version c, Description c, EventFilter c] @ protocol_list c)"

lemma config_ok_texts: "config_ok c \<Longrightarrow> texts_valid c"
  by (auto simp: config_ok_def texts_valid_def attr_value_ok_def xml_chars_def list_all_iff)

lemma valid_escapeAttr:
  assumes "valid_utf8 v"
  shows "valid_utf8 (escapeAttr v)"
proof -
  have "byte_val d < 0x80" if "byte_val c < 0x80" "d \<in> set (attr_escape c)" for c d
  proof -
    have "set (attr_escape c) \<subseteq> insert c (set ''&;ampltgquos'')" by (simp add: attr_escape_def)
    then show ?thesis using that by auto
  qed
  moreover have "attr_escape c = [c]" if "0x80 \<le> byte_val c" for c
  proof -
    have "c \<notin> special_chars" using special_chars_ascii that by auto
    then show ?thesis by (simp add: attr_escape_def special_chars_def)
  qed
  ultimately show ?thesis using assms unfolding escapeAttr_def
    by (intro valid_escaped) auto
qed

lemma valid_registrationResponseXML:
  assumes "texts_valid c"
  shows "valid_utf8 (registrationResponseXML c)"
proof -
  have q: "valid_utf8 (quoted_attr n v @ s) = valid_utf8 s"
    if "valid_utf8 v" "list_all (\<lambda>x. byte_val x < 0x80) n" for n v s
  proof -
    have "valid_utf8 n" using that(2) by (intro valid_utf8_all_ascii) (simp add: list_all_iff)
    then show ?thesis using valid_escapeAttr [OF that(1)]
      by (simp add: quoted_attr_def valid_utf8_append)
  qed
  have f: "valid_utf8 (filter_xml c p @ s) = valid_utf8 s" if "valid_utf8 p" for p s
    using that assms by (simp add: filter_xml_def q texts_valid_def)
  have "list_all valid_utf8 ps \<Longrightarrow>
      valid_utf8 (concat (map (filter_xml c) ps) @ s) = valid_utf8 s" for ps s
    by (induction ps) (simp_all add: f)
  then show ?thesis using assms
    by (simp add: registrationResponseXML_def q texts_valid_def)
qed

text \<open>C37: The reply to a registration says what was configured.  For configured texts of legal
  XML characters without a carriage return, quotes, angle brackets and ampersands included,
  the reply is a well-formed document with exactly that identity: one EndPoint element with
  the four attributes in the order of a working consumer, where an empty field has its
  default, then one Filter element for each protocol of the comma-separated list, never one
  for a blank entry or for several.\<close>

theorem registration_reply_document:
  assumes "c = registration_withDefaults c0" "config_ok c"
  shows "Unmarshal nt ''RegisterResponse'' (registrationResponseXML c) =
      Inr ([], endpoint_node c # map (filter_node c) (protocol_list c)) \<and>
    list_all (\<lambda>p. p \<noteq> [] \<and> CHR '','' \<notin> set p) (protocol_list c) \<and>
    [] \<notin> {GUID c, FriendlyName c, Version c, Description c, EventFilter c} \<and>
    list_all (\<lambda>(v, configured, default). v = (if configured = [] then default else configured))
      [(GUID c, GUID c0, DefaultGUID), (FriendlyName c, FriendlyName c0, DefaultFriendlyName),
       (Version c, Version c0, DefaultVersion), (Description c, Description c0, DefaultDescription),
       (Protocols c, Protocols c0, DefaultProtocols), (EventFilter c, EventFilter c0, DefaultEventFilter)]"
proof -
  let ?R = "([], ''RegisterResponse'') :: qname"
  let ?ea = "[(([], ''guid''), GUID c), (([], ''friendlyName''), FriendlyName c),
      (([], ''version''), Version c), (([], ''desc''), Description c)] :: attrs"
  let ?fs = "concat (map (filter_xml c) (protocol_list c)) @ ''</RegisterResponse>''"
  let ?body = "''<EndPoint'' @ reply_attr.quoted_attrs ?ea @ '' />'' @ ?fs"
  have ok: "list_all attr_value_ok (protocol_list c)" "attr_value_ok (EventFilter c)"
    "reply_attr.ok_quoted ?ea"
    using assms(2) by (simp_all add: config_ok_def)
  have "registrationResponseXML c = CHR ''<'' # ''RegisterResponse'' @ reply_attr.quoted_attrs [] @ ''>'' @ ?body"
    by (simp add: registrationResponseXML_def quoted_attrs_attr)
  moreover have "raw_token nt (CHR ''<'' # ''RegisterResponse'' @ reply_attr.quoted_attrs [] @ ''>'' @ ?body) =
      Some (StartTok ?R [] False, ?body)"
    by (rule reply_attr.raw_token_quoted) simp_all
  ultimately have "read_root nt (registrationResponseXML c) = read_tree nt (?R, [], []) [] ?body"
    by (subst read_root.simps) simp
  also have "\<dots> = read_tree nt (?R, [], [endpoint_node c]) [] ?fs"
    using read_self_closed [of "''EndPoint''" ?ea] ok(3) by (simp add: endpoint_node_def)
  also have "\<dots> = read_tree nt (?R, [], rev (map (filter_node c) (protocol_list c)) @ [endpoint_node c]) []
      ''</RegisterResponse>''"
    by (rule read_filters [OF ok(1,2)])
  also have "\<dots> = Some (Elem ?R [] (endpoint_node c # map (filter_node c) (protocol_list c)), [])"
    using raw_token_end [of "''RegisterResponse''" nt "[]"]
    by (subst read_tree.simps) (simp add: close_elem_def)
  finally have "Unmarshal nt ''RegisterResponse'' (registrationResponseXML c) =
      Inr ([], endpoint_node c # map (filter_node c) (protocol_list c))"
    by (simp add: Unmarshal_def)
  moreover have "[] \<notin> {GUID c, FriendlyName c, Version c, Description c, EventFilter c}"
    by (auto simp: assms(1) registration_withDefaults_def cmp_Or_def DefaultGUID_def DefaultFriendlyName_def
        DefaultVersion_def DefaultDescription_def DefaultEventFilter_def)
  moreover have "list_all (\<lambda>(v, configured, default). v = (if configured = [] then default else configured))
      [(GUID c, GUID c0, DefaultGUID), (FriendlyName c, FriendlyName c0, DefaultFriendlyName),
       (Version c, Version c0, DefaultVersion), (Description c, Description c0, DefaultDescription),
       (Protocols c, Protocols c0, DefaultProtocols), (EventFilter c, EventFilter c0, DefaultEventFilter)]"
    by (simp add: assms(1) registration_withDefaults_def cmp_Or_def)
  ultimately show ?thesis using protocol_list_pieces by blast
qed

definition sample_registration :: RegistrationConfig where
  "sample_registration =
     \<lparr>FriendlyName = ''A & \"B\"'', GUID = [], Description = [], Protocols = ''0,,1'', EventFilter = [],
      Version = []\<rparr>"

definition default_registration :: RegistrationConfig where
  "default_registration = registration_withDefaults sample_registration"

lemma attr_value_ok_ascii:
  assumes "list_all (\<lambda>x. 0x20 \<le> byte_val x \<and> byte_val x < 0x7F) v"
  shows "attr_value_ok v"
proof -
  have "list_all (\<lambda>x. byte_val x < 0x80) v" using assms by (auto simp: list_all_iff)
  then have "runes_of v = map byte_val v" "valid_utf8 v"
    by (auto intro!: runes_of_all_ascii valid_utf8_all_ascii simp: list_all_iff)
  then show ?thesis using assms
    by (fastforce simp: attr_value_ok_def attr_safe_def xml_chars_def in_char_range_def list_all_iff)
qed

theorem registration_reply_document_witness:
  "protocol_list default_registration = [''0'', ''1''] \<and> FriendlyName default_registration = ''A & \"B\"'' \<and>
   Unmarshal ascii_tables ''RegisterResponse'' (registrationResponseXML default_registration) =
     Inr ([], endpoint_node default_registration # map (filter_node default_registration) [''0'', ''1''])"
proof -
  have p: "protocol_list default_registration = [''0'', ''1'']"
    by (simp add: protocol_list_def default_registration_def sample_registration_def
        registration_withDefaults_def cmp_Or_def TrimSpace_id ascii_nonspace_def)
  have "config_ok default_registration"
    unfolding config_ok_def p
    by (simp add: attr_value_ok_ascii default_registration_def sample_registration_def
        registration_withDefaults_def cmp_Or_def
        DefaultGUID_def DefaultVersion_def DefaultDescription_def DefaultEventFilter_def)
  from registration_reply_document [OF default_registration_def this, of ascii_tables] p show ?thesis
    by (simp add: sample_registration_def)
qed

text \<open>The condition is needed.  A TOML text may hold a control character, which \<^verbatim>\<open>escapeAttr\<close> lets
  through and XML forbids in any form, and then the reply is no document at all.\<close>

lemma control_character_breaks_reply:
  assumes "GUID c = [CHR 0x01]"
  shows "valid_utf8 (GUID c)" "Unmarshal nt ''RegisterResponse'' (registrationResponseXML c) = Inl ErrXml"
proof -
  show "valid_utf8 (GUID c)" by (simp add: assms)
  obtain rest where r: "registrationResponseXML c =
      CHR ''<'' # ''RegisterResponse'' @ reply_attr.quoted_attrs [] @ ''>'' @
        (CHR ''<'' # ''EndPoint'' @ '' guid='' @ [CHR 0x22, CHR 0x01, CHR 0x22] @ rest)"
    by (simp add: registrationResponseXML_def quoted_attrs_attr quoted_attr_def escapeAttr_def attr_escape_def assms)
  have q: "read_qname nt (''EndPoint'' @ CHR '' '' # t) = Some (([], ''EndPoint''), CHR '' '' # t)"
    "read_qname nt (''guid'' @ CHR ''='' # t) = Some (([], ''guid''), CHR ''='' # t)" for t
    by (rule read_qname_plain; simp add: is_name_byte_def Let_def)+
  have "read_attrs nt [] ('' guid='' @ [CHR 0x22, CHR 0x01, CHR 0x22] @ rest) = None"
    using q(2) by (subst read_attrs.simps)
      (simp add: xml_space_def Let_def read_text_def xml_chars_def in_char_range_def)
  then have "raw_token nt (CHR ''<'' # ''EndPoint'' @ '' guid='' @ [CHR 0x22, CHR 0x01, CHR 0x22] @ rest) = None"
    using q(1) by (simp add: raw_token_def)
  then show "Unmarshal nt ''RegisterResponse'' (registrationResponseXML c) = Inl ErrXml"
    using reply_attr.raw_token_quoted [of "''RegisterResponse''" "[]" "''>''" False nt]
    unfolding r Unmarshal_def
    by (subst read_root.simps) (simp add: read_tree.simps)
qed

end
