(* ===== verification/Redact.thy ===== *)
theory Redact
  imports Xml_Print Go_Strings Go_Sha256
begin

text \<open>
  The diagnostic rendering of a payload that could not be parsed
  (\<^verbatim>\<open>pkg/server/redact.go\<close>): element and attribute names are kept, values and text are
  dropped, and the result is bounded.  The lemmas show that for a well-formed document
  nothing but its shape decides what is logged.
\<close>

section \<open>Definitions\<close>

definition maxRedactedPayload :: nat where
  "maxRedactedPayload = 512"

text \<open>\<^verbatim>\<open>strings.ToValidUTF8\<close> with an empty replacement: bytes that begin no rune are dropped.\<close>

function ToValidUTF8 :: "bytes \<Rightarrow> bytes" where
  "ToValidUTF8 s =
     (case s of
        [] \<Rightarrow> []
      | c # cs \<Rightarrow>
          (case valid_rune s of
             None \<Rightarrow> ToValidUTF8 cs
           | Some (r, w) \<Rightarrow> take (max 1 w) s @ ToValidUTF8 (drop (max 1 w) s)))"
  by pat_completeness auto
termination
  by (relation "measure length") auto

declare ToValidUTF8.simps [simp del]

text \<open>The scan, with its three pieces of state: inside a tag or not, the rest of the payload,
  and what has been written.  The result says whether the bound stopped it.\<close>

definition marker :: string where
  "marker = ''...''"

definition quoted_marker :: string where
  "quoted_marker = [CHR 0x22] @ marker @ [CHR 0x22]"

function redact_loop :: "bool \<Rightarrow> bytes \<Rightarrow> string \<Rightarrow> string \<times> bool" where
  "redact_loop inTag [] out = (out, False)"
| "redact_loop inTag (c # b) out =
     (if maxRedactedPayload \<le> length out then (out, True)
      else if \<not> inTag \<and> c = CHR ''<'' then redact_loop True b (out @ [c])
      else if \<not> inTag then
        (let node = takeWhile (\<lambda>x. x \<noteq> CHR ''<'') (c # b) in
         redact_loop inTag (dropWhile (\<lambda>x. x \<noteq> CHR ''<'') (c # b))
           (if TrimSpace node \<noteq> [] then out @ marker else out))
      else if c = CHR ''>'' then redact_loop False b (out @ [c])
      else if c = CHR 0x22 \<or> c = CHR 0x27 then
        redact_loop inTag (drop 1 (dropWhile (\<lambda>x. x \<noteq> c) b)) (out @ quoted_marker)
      else redact_loop inTag b (out @ [c]))"
  by pat_completeness auto
termination
proof (relation "measure (\<lambda>(inTag, b, out). length b)", goal_cases)
  case (3 inTag c b out node)
  then show ?case by (simp add: less_Suc_eq_le length_dropWhile_le)
next
  case (5 inTag c b out)
  have "length (dropWhile (\<lambda>x. x \<noteq> c) b) \<le> length b" by (rule length_dropWhile_le)
  then show ?case by simp
qed simp_all

declare redact_loop.simps(2) [simp del]

definition redactPayload :: "bytes \<Rightarrow> string" where
  "redactPayload b =
     (case redact_loop False b [] of (s, truncated) \<Rightarrow>
        if \<not> truncated \<and> length s \<le> maxRedactedPayload then s
        else (if maxRedactedPayload < length s then ToValidUTF8 (take maxRedactedPayload s) else s) @
          ''...(truncated)'')"

definition payloadDigest :: "bytes \<Rightarrow> string" where
  "payloadDigest b = hex_EncodeToString (take 8 (Sum256 b))"

section \<open>Bounds\<close>

lemma length_ToValidUTF8: "length (ToValidUTF8 s) \<le> length s"
proof (induction s rule: ToValidUTF8.induct)
  case (1 s)
  show ?case
  proof (cases s)
    case Nil
    then show ?thesis by (simp add: ToValidUTF8.simps)
  next
    case (Cons c cs)
    show ?thesis
    proof (cases "valid_rune s")
      case None
      then show ?thesis using "1.IH"(1) [OF Cons] Cons
        by (subst ToValidUTF8.simps) simp
    next
      case (Some p)
      obtain r w where p: "p = (r, w)" by fastforce
      have "length (ToValidUTF8 (drop (max 1 w) s)) \<le> length s - max 1 w"
        using "1.IH"(2) [OF Cons Some p [symmetric]] by simp
      then show ?thesis using Cons Some p
        by (subst ToValidUTF8.simps) simp
    qed
  qed
qed

lemma redactPayload_bounded: "length (redactPayload b) \<le> 526"
proof -
  have "length (ToValidUTF8 (take 512 s)) \<le> 512" for s
    using length_ToValidUTF8 [of "take 512 s"] by simp
  then show ?thesis
    by (auto simp: redactPayload_def maxRedactedPayload_def split: prod.splits)
qed

lemma payloadDigest_length: "length (payloadDigest b) = 16"
  by (simp add: payloadDigest_def length_hex length_Sum256)

section \<open>What the rendering can depend on\<close>

text \<open>The shape of a document: names and structure, and for each text node only whether it is
  blank.\<close>

fun shape :: "xnode \<Rightarrow> xnode" where
  "shape (Chars t) = Chars (if TrimSpace (EscapeText t) = [] then [] else ''x'')"
| "shape (Elem q as ch) = Elem q (map (\<lambda>(n, v). (n, [])) as) (map shape ch)"

named_theorems redact_step \<open>one step of the scan\<close>

lemma redact_open [redact_step]:
  "redact_loop False (CHR ''<'' # b) out =
    (if maxRedactedPayload \<le> length out then (out, True) else redact_loop True b (out @ ''<''))"
  by (simp add: redact_loop.simps(2))

lemma redact_close [redact_step]:
  "redact_loop True (CHR ''>'' # b) out =
    (if maxRedactedPayload \<le> length out then (out, True) else redact_loop False b (out @ ''>''))"
  by (simp add: redact_loop.simps(2))

lemma redact_copy [redact_step]:
  "c \<notin> {CHR ''>'', CHR 0x22, CHR 0x27} \<Longrightarrow> redact_loop True (c # b) out =
    (if maxRedactedPayload \<le> length out then (out, True) else redact_loop True b (out @ [c]))"
  by (simp add: redact_loop.simps(2))

lemma redact_quoted:
  assumes "CHR 0x22 \<notin> set v"
  shows "redact_loop True (CHR 0x22 # v @ CHR 0x22 # b) out =
    (if maxRedactedPayload \<le> length out then (out, True) else redact_loop True b (out @ quoted_marker))"
proof -
  have "dropWhile (\<lambda>x. x \<noteq> CHR 0x22) (v @ CHR 0x22 # b) = CHR 0x22 # b"
    using assms by (induction v) auto
  then show ?thesis by (simp add: redact_loop.simps(2))
qed

lemma redact_text:
  assumes "CHR ''<'' \<notin> set t" "t \<noteq> []"
  shows "redact_loop False (t @ CHR ''<'' # b) out =
    (if maxRedactedPayload \<le> length out then (out, True)
     else redact_loop False (CHR ''<'' # b) (if TrimSpace t \<noteq> [] then out @ marker else out))"
proof -
  obtain c cs where t: "t = c # cs" using assms(2) by (cases t) auto
  have c: "c \<noteq> CHR ''<''" using assms(1) t by auto
  have tw: "takeWhile (\<lambda>x. x \<noteq> CHR ''<'') (t @ CHR ''<'' # b) = t"
    and dw: "dropWhile (\<lambda>x. x \<noteq> CHR ''<'') (t @ CHR ''<'' # b) = CHR ''<'' # b"
    using assms(1) by (induction t) auto
  have "redact_loop False (c # cs @ CHR ''<'' # b) out =
      (if maxRedactedPayload \<le> length out then (out, True)
       else redact_loop False (dropWhile (\<lambda>x. x \<noteq> CHR ''<'') (c # cs @ CHR ''<'' # b))
         (if TrimSpace (takeWhile (\<lambda>x. x \<noteq> CHR ''<'') (c # cs @ CHR ''<'' # b)) \<noteq> []
          then out @ marker else out))"
    using c by (subst redact_loop.simps(2)) (simp only: Let_def if_True if_False simp_thms)
  then show ?thesis using tw dw unfolding t by (simp only: append_Cons)
qed

lemma redact_copies:
  assumes "list_all (\<lambda>c. c \<notin> {CHR ''>'', CHR 0x22, CHR 0x27}) l"
    and "\<And>out. redact_loop True b out = redact_loop True b' out"
  shows "redact_loop True (l @ b) out = redact_loop True (l @ b') out"
  using assms(1) by (induction l arbitrary: out) (simp_all add: redact_copy assms(2))

lemma escape_char_no_special:
  "CHR 0x22 \<notin> set (escape_char c)" "CHR ''<'' \<notin> set (escape_char c)" "escape_char c \<noteq> []"
  by (simp_all add: escape_char_def)

lemma EscapeText_no_special: "CHR 0x22 \<notin> set (EscapeText v)" "CHR ''<'' \<notin> set (EscapeText v)"
  by (simp_all add: EscapeText_def escape_char_no_special)

lemma EscapeText_Nil_iff: "EscapeText v = [] \<longleftrightarrow> v = []"
  using escape_char_no_special(3) by (cases v) (simp_all add: EscapeText_def)

lemma plain_name_copied:
  assumes "plain_name l"
  shows "list_all (\<lambda>c. c \<notin> {CHR ''>'', CHR 0x22, CHR 0x27}) l"
proof -
  have "list_all is_name_byte l" using plain_name_bytes [OF assms] by (simp add: list_all_iff)
  then show ?thesis by (auto simp: list_all_iff is_name_byte_def Let_def)
qed

lemma redact_attrs:
  assumes "ok_attrs as" "\<And>out. redact_loop True b out = redact_loop True b' out"
  shows "redact_loop True (print_attrs as @ b) out =
    redact_loop True (print_attrs (map (\<lambda>(n, v). (n, [])) as) @ b') out"
  using assms(1)
proof (induction as arbitrary: out)
  case Nil
  then show ?case using assms(2) by simp
next
  case (Cons a as)
  obtain p l v where a: "a = ((p, l), v)" by (metis prod.collapse)
  have l: "plain_name l" using Cons.prems a by (simp add: ok_attrs_def)
  have IH: "redact_loop True (print_attrs as @ b) out =
      redact_loop True (print_attrs (map (\<lambda>(n, v). (n, [])) as) @ b') out" for out
    using Cons by (simp add: ok_attrs_def)
  have q: "redact_loop True (CHR ''='' # CHR 0x22 # EscapeText v @ CHR 0x22 # print_attrs as @ b) out =
      redact_loop True (CHR ''='' # CHR 0x22 # CHR 0x22 #
        print_attrs (map (\<lambda>(n, v). (n, [])) as) @ b') out" for out
    using redact_quoted [of "EscapeText v" "print_attrs as @ b"] EscapeText_no_special
      redact_quoted [of "[]" "print_attrs (map (\<lambda>(n, v). (n, [])) as) @ b'"] IH
    by (simp add: redact_copy)
  show ?case
    using redact_copies [OF plain_name_copied [OF l] q] by (simp add: a redact_copy EscapeText_def)
qed

lemma redact_name:
  assumes "plain_name l" "\<And>out. redact_loop True b out = redact_loop True b' out"
  shows "redact_loop False (''<'' @ l @ b) out = redact_loop False (''<'' @ l @ b') out"
    "redact_loop False (''</'' @ l @ b) out = redact_loop False (''</'' @ l @ b') out"
  using redact_copies [OF plain_name_copied [OF assms(1)] assms(2)]
  by (simp_all add: redact_step)

lemma is_chars_shape [simp]: "is_chars (shape n) = is_chars n"
  by (cases n) simp_all

lemma print_shape_hd: "ok_node n \<Longrightarrow> \<not> is_chars n \<Longrightarrow> \<exists>s. print_node (shape n) = CHR ''<'' # s"
  by (cases n) auto

lemma redact_nodes:
  assumes "\<And>n b b' out. n \<in> set ch \<Longrightarrow> ok_node n \<Longrightarrow>
      \<forall>out. redact_loop False (CHR ''<'' # b) out = redact_loop False (CHR ''<'' # b') out \<Longrightarrow>
      redact_loop False (print_node n @ CHR ''<'' # b) out =
      redact_loop False (print_node (shape n) @ CHR ''<'' # b') out"
    and "\<And>n b b' out. n \<in> set ch \<Longrightarrow> ok_node n \<Longrightarrow> \<not> is_chars n \<Longrightarrow>
      \<forall>out. redact_loop False b out = redact_loop False b' out \<Longrightarrow>
      redact_loop False (print_node n @ b) out = redact_loop False (print_node (shape n) @ b') out"
    and "list_all ok_node ch" "no_adjacent ch"
    and "\<And>out. redact_loop False (CHR ''<'' # b) out = redact_loop False (CHR ''<'' # b') out"
  shows "redact_loop False (concat (map print_node ch) @ CHR ''<'' # b) out =
    redact_loop False (concat (map print_node (map shape ch)) @ CHR ''<'' # b') out"
  using assms
proof (induction ch arbitrary: out)
  case (Cons n ns)
  let ?rest = "concat (map print_node ns) @ CHR ''<'' # b"
  let ?rest' = "concat (map print_node (map shape ns)) @ CHR ''<'' # b'"
  have ok: "ok_node n" "list_all ok_node ns" "no_adjacent ns"
    using Cons.prems(3) Cons.prems(4) by (simp, simp, cases ns) simp_all
  have IH: "redact_loop False ?rest out = redact_loop False ?rest' out" for out
    by (rule Cons.IH [OF Cons.prems(1,2) ok(2,3) Cons.prems(5)]) simp_all
  show ?case
  proof (cases "is_chars n")
    case False
    then show ?thesis using Cons.prems(2) [OF _ ok(1) False, of ?rest ?rest'] IH by simp
  next
    case True
    have "(\<exists>r. ?rest = CHR ''<'' # r) \<and> (\<exists>r. ?rest' = CHR ''<'' # r)"
    proof (cases ns)
      case (Cons m ms)
      then have "ok_node m" "\<not> is_chars m" using ok(2) Cons.prems(4) True by simp_all
      then show ?thesis using ok_print_hd print_shape_hd Cons by fastforce
    qed simp
    then obtain r r' where "?rest = CHR ''<'' # r" "?rest' = CHR ''<'' # r'" by blast
    then show ?thesis using Cons.prems(1) [OF _ ok(1), of r r'] IH by simp
  qed
qed simp

lemma redact_node:
  assumes "ok_node n"
  shows "\<forall>out. redact_loop False (CHR ''<'' # b) out = redact_loop False (CHR ''<'' # b') out \<Longrightarrow>
      redact_loop False (print_node n @ CHR ''<'' # b) out =
      redact_loop False (print_node (shape n) @ CHR ''<'' # b') out"
    and "\<not> is_chars n \<Longrightarrow> \<forall>out. redact_loop False b out = redact_loop False b' out \<Longrightarrow>
      redact_loop False (print_node n @ b) out = redact_loop False (print_node (shape n) @ b') out"
  using assms
proof (induction n arbitrary: b b' out)
  case (Chars t)
  {
    case 1
    then have t: "EscapeText t \<noteq> []" by (simp add: EscapeText_Nil_iff)
    have x: "EscapeText ''x'' = ''x''" "TrimSpace ''x'' = ''x''"
      by (simp_all add: EscapeText_def escape_char_def TrimSpace_id ascii_nonspace_def)
    have s: "redact_loop False (CHR ''<'' # c) o1 = (o1, True)" if "maxRedactedPayload \<le> length o1" for c o1
      using that by (simp add: redact_open)
    show ?case
      using redact_text [OF EscapeText_no_special(2) t, of b out] redact_text [of "''x''" b' out] 1 x s
      by (auto simp: EscapeText_def [of "[]"])
  next
    case 2
    then show ?case by simp
  }
next
  case (Elem q as ch)
  have gen: "redact_loop False (print_node (Elem q as ch) @ c) out =
      redact_loop False (print_node (shape (Elem q as ch)) @ c') out"
    if ok: "ok_node (Elem q as ch)"
      and c: "\<forall>out. redact_loop False c out = redact_loop False c' out" for c c' out
  proof -
    obtain l where q: "q = ([], l)" "plain_name l" "ok_attrs as" "list_all ok_node ch" "no_adjacent ch"
      using ok by (cases q) auto
    let ?end0 = "CHR ''/'' # l @ ''>'' @ c" and ?end1 = "CHR ''/'' # l @ ''>'' @ c'"
    let ?b0 = "concat (map print_node ch) @ CHR ''<'' # ?end0"
    let ?b1 = "concat (map print_node (map shape ch)) @ CHR ''<'' # ?end1"
    have stop: "redact_loop False (CHR ''<'' # ?end0) out = redact_loop False (CHR ''<'' # ?end1) out" for out
      using redact_name(2) [OF q(2), of "''>'' @ c" "''>'' @ c'"] c by (simp add: redact_close)
    have body: "redact_loop False ?b0 out = redact_loop False ?b1 out" for out
      by (rule redact_nodes [OF Elem.IH q(4,5) stop])
    have tag: "redact_loop True (print_attrs as @ ''>'' @ ?b0) out =
        redact_loop True (print_attrs (map (\<lambda>(n, v). (n, [])) as) @ ''>'' @ ?b1) out" for out
      using body by (intro redact_attrs [OF q(3)]) (simp add: redact_close)
    show ?thesis using redact_name(1) [OF q(2) tag] by (simp add: q(1))
  qed
  {
    case 1
    then show ?case using gen by blast
  next
    case 2
    then show ?case using gen by blast
  }
qed

section \<open>Properties\<close>


definition sample_secret :: "string \<Rightarrow> string \<Rightarrow> xnode" where
  "sample_secret path user =
     Elem ([], ''Event'') [(([], ''path''), path)] [Elem ([], ''User'') [] [Chars user]]"

lemma ascii_xml_chars:
  assumes "list_all (\<lambda>x. 0x20 \<le> byte_val x \<and> byte_val x < 0x7F) v"
  shows "xml_chars v"
proof -
  have "list_all (\<lambda>x. byte_val x < 0x80) v" using assms by (auto simp: list_all_iff)
  then have "runes_of v = map byte_val v" "valid_utf8 v"
    by (auto intro!: runes_of_all_ascii valid_utf8_all_ascii simp: list_all_iff)
  then show ?thesis using assms
    by (fastforce simp: xml_chars_def in_char_range_def list_all_iff)
qed


text \<open>The scan knows tags and quotes only, so what a document carries in a CDATA section is
  copied.\<close>

lemma redact_copies_cdata:
  "redactPayload ''<a><![CDATA[secret]]></a>'' = ''<a><![CDATA[secret]]></a>''"
  by (simp add: redactPayload_def redact_loop.simps(2) maxRedactedPayload_def)

end
