(* ===== verification/Cepa_Handler.thy ===== *)
theory Cepa_Handler
  imports Classify Cepa_Event One_FS Check_Event Mapper Metrics Work_Queue Registration Redact
begin

text \<open>
  The CEPA request handler of \<^verbatim>\<open>pkg/server/server.go\<close>.  A request is its method, addresses
  and body; the body is the bytes that can be read and whether reading then fails instead of
  reaching the end.  What the surroundings decide (the clock, whether writing the reply
  succeeds, the host name of the operating system) is a record of the environment.  The
  handler is modelled in the pieces between which requests of different connections can
  interleave: reading the probe, waiting for a slot, reading and answering, and enqueueing
  event by event.
\<close>

section \<open>Requests, replies and limits\<close>

record Request =
  Method :: string
  RemoteAddr :: string
  Host :: string
  body_data :: bytes
  body_fails :: bool

record environment =
  clock_start :: gotime
  clock_receive :: gotime
  write_ok :: bool
  os_Hostname :: string
  names :: name_tables

record Response =
  StatusCode :: nat
  ContentType :: string
  response_body :: bytes

record LimitsConfig =
  MaxBodyMB :: int
  MaxConcurrentRequests :: int

definition limits_withDefaults :: "LimitsConfig \<Rightarrow> LimitsConfig" where
  "limits_withDefaults c =
     \<lparr>MaxBodyMB = (if MaxBodyMB c \<le> 0 then 8 else MaxBodyMB c),
      MaxConcurrentRequests = (if MaxConcurrentRequests c \<le> 0 then 8 else MaxConcurrentRequests c)\<rparr>"

text \<open>The shift is on 64 bits and wraps.\<close>

definition maxBodyBytes :: "LimitsConfig \<Rightarrow> int" where
  "maxBodyBytes c = signed_take_bit 63 (push_bit 20 (MaxBodyMB c))"

text \<open>\<^verbatim>\<open>net.SplitHostPort\<close>.\<close>

definition last_index :: "char \<Rightarrow> string \<Rightarrow> nat option" where
  "last_index c s =
     (if c \<in> set s then Some (length s - 1 - length (takeWhile (\<lambda>x. x \<noteq> c) (rev s))) else None)"

definition first_index :: "char \<Rightarrow> string \<Rightarrow> nat option" where
  "first_index c s = (if c \<in> set s then Some (length (takeWhile (\<lambda>x. x \<noteq> c) s)) else None)"

definition SplitHostPort :: "string \<Rightarrow> (string \<times> string) option" where
  "SplitHostPort hostport =
     (case last_index CHR '':'' hostport of
        None \<Rightarrow> None
      | Some i \<Rightarrow>
          let checked = (\<lambda>host j k.
            if CHR ''['' \<in> set (drop j hostport) \<or> CHR '']'' \<in> set (drop k hostport) then None
            else Some (host, drop (i + 1) hostport)) in
          if hd hostport = CHR ''['' then
            (case first_index CHR '']'' hostport of
               None \<Rightarrow> None
             | Some e \<Rightarrow>
                 if e + 1 = i then checked (take (e - 1) (drop 1 hostport)) 1 (e + 1) else None)
          else if CHR '':'' \<in> set (take i hostport) then None
          else checked (take i hostport) 0 0)"

definition peerHost :: "string \<Rightarrow> string" where
  "peerHost addr = (case SplitHostPort addr of Some (h, p) \<Rightarrow> h | None \<Rightarrow> addr)"

section \<open>The fixed replies\<close>

definition nl :: string where
  "nl = [CHR 0x0A]"

definition numbered_attr :: "string \<Rightarrow> string \<Rightarrow> string" where
  "numbered_attr name v = name @ ''='' @ [CHR 0x22] @ v @ [CHR 0x22]"

definition checkFileResponse :: bytes where
  "checkFileResponse =
     ''<CheckFileResponse '' @ numbered_attr ''status'' ''0x0'' @ '' '' @
       numbered_attr ''ceeVersion'' ''9.2.0.0'' @ ''>'' @ nl @
     ''<HeartBeatResponse '' @ numbered_attr ''ceeVersion'' ''9.2.0.0'' @ '' '' @
       numbered_attr ''dtdVersion'' ''2.5.3'' @ ''>'' @ nl @
     ''<CEPPHeartBeatResponse>'' @ nl @
     ''<CEPPCapabilities>'' @ nl @
     ''<Protocols '' @ numbered_attr ''CIFS'' ''1'' @ '' '' @ numbered_attr ''NFS'' ''1'' @ '' '' @
       numbered_attr ''HDFS'' ''0'' @ ''/>'' @ nl @
     ''<Partner '' @ numbered_attr ''multiplicity'' ''1'' @ ''/>'' @ nl @
     ''</CEPPCapabilities>'' @ nl @
     ''</CEPPHeartBeatResponse>'' @ nl @
     ''</HeartBeatResponse>'' @ nl @
     ''</CheckFileResponse>'' @ nl"

definition checkEventResponse :: bytes where
  "checkEventResponse = ''<CheckEventResponse '' @ numbered_attr ''status'' ''0x0'' @ ''/>'' @ nl"

section \<open>The handler and its state\<close>

record Handler =
  q_config :: Config
  hostname :: string
  reg :: RegistrationConfig
  registerReply :: bytes
  limits :: LimitsConfig

datatype log_entry =
    Unhandled string nat int string string
  | Failure string go_error

record Server =
  queue :: Queue
  slots :: nat
  onefsUnhandled :: int
  ceeUnhandled :: int
  logged :: "log_entry list"

definition NewHandler :: "Config \<Rightarrow> string \<Rightarrow> RegistrationConfig \<Rightarrow> LimitsConfig \<Rightarrow> Handler" where
  "NewHandler cfg host r l =
     \<lparr>q_config = cfg, hostname = host, reg = registration_withDefaults r,
      registerReply = registrationResponseXML (registration_withDefaults r),
      limits = limits_withDefaults l\<rparr>"

definition new_server :: "Queue \<Rightarrow> Server" where
  "new_server q = \<lparr>queue = q, slots = 0, onefsUnhandled = 0, ceeUnhandled = 0, logged = []\<rparr>"

definition slot_capacity :: "Handler \<Rightarrow> nat" where
  "slot_capacity h = nat (MaxConcurrentRequests (limits h))"

definition update_met :: "(Store \<Rightarrow> Store) \<Rightarrow> Server \<Rightarrow> Server" where
  "update_met f s = s\<lparr>queue := (queue s)\<lparr>met := f (met (queue s))\<rparr>\<rparr>"

definition count_payload_lost :: "Server \<Rightarrow> Server" where
  "count_payload_lost s = s\<lparr>queue := count_dropped 1 (queue s)\<rparr>"

definition log_entry :: "log_entry \<Rightarrow> Server \<Rightarrow> Server" where
  "log_entry e s = s\<lparr>logged := logged s @ [e]\<rparr>"

definition unhandledPayloadSamples :: int where
  "unhandledPayloadSamples = 10"

definition unhandledSuppressedInterval :: int where
  "unhandledSuppressedInterval = 1000"

definition logUnhandled :: "string \<Rightarrow> int \<Rightarrow> bytes \<Rightarrow> bytes \<Rightarrow> Server \<Rightarrow> Server" where
  "logUnhandled event seen decoded body s =
     (let entry = Unhandled event (length body) seen (payloadDigest body) in
      if seen \<le> unhandledPayloadSamples then log_entry (entry (redactPayload decoded)) s
      else if seen mod unhandledSuppressedInterval = 0 then log_entry (entry ''suppressed'') s
      else s)"

text \<open>The slot semaphore.  A caller that finds no slot is counted and waits; waiting is the
  absence of the second step.\<close>

definition acquireSlot_now :: "Handler \<Rightarrow> Server \<Rightarrow> Server option" where
  "acquireSlot_now h s = (if slots s < slot_capacity h then Some (s\<lparr>slots := slots s + 1\<rparr>) else None)"

definition count_throttled :: "Server \<Rightarrow> Server" where
  "count_throttled = update_met (\<lambda>m. m\<lparr>RequestsThrottledTotal := RequestsThrottledTotal m + 1\<rparr>)"

definition releaseSlot :: "Server \<Rightarrow> Server" where
  "releaseSlot s = s\<lparr>slots := slots s - 1\<rparr>"

section \<open>Reading\<close>

definition handshakeProbeBytes :: nat where
  "handshakeProbeBytes = 8192"

text \<open>A read error is reported by a read of its own, after the bytes before it.\<close>

definition readProbe :: "Request \<Rightarrow> nat \<Rightarrow> go_error + bytes \<times> bool" where
  "readProbe r n =
     (if length (body_data r) \<le> n \<and> body_fails r then Inl ErrBodyRead
      else (let probe = take (n + 1) (body_data r) in Inr (probe, length probe \<le> n)))"

text \<open>The rest of the body, after \<open>from\<close> bytes have been read, with at most \<open>maxBody\<close> more.\<close>

definition readBody :: "Request \<Rightarrow> nat \<Rightarrow> int \<Rightarrow> go_error + bytes" where
  "readBody r from maxBody =
     (let rest = drop from (body_data r) in
      if max 0 maxBody < int (length rest) \<or> body_fails r then Inl ErrBodyRead else Inr rest)"

definition isLivenessDialect :: "name_tables \<Rightarrow> Dialect \<Rightarrow> bytes \<Rightarrow> bool" where
  "isLivenessDialect nt d decoded =
     (case d of
        DialectRegisterRequest \<Rightarrow> True
      | DialectHeartBeatRequest \<Rightarrow> True
      | DialectCheckFileRequest \<Rightarrow> checkFileActionDecoded nt decoded = OneFSHeartbeatAction
      | _ \<Rightarrow> False)"

section \<open>Answering\<close>

definition respond :: "bytes \<Rightarrow> bytes \<Rightarrow> string \<Rightarrow> Response" where
  "respond reqBody reply contentType =
     \<lparr>StatusCode = 200, ContentType = contentType,
      response_body = (if IsUTF16 reqBody then EncodeUTF16LE reply else reply)\<rparr>"

definition answerUnreadableBody :: "bytes \<Rightarrow> go_error \<Rightarrow> Server \<Rightarrow> Response \<times> Server" where
  "answerUnreadableBody probe err s =
     (respond probe checkEventResponse ''text/xml'',
      log_entry (Failure ''cepa_body_read_error'' err) (count_payload_lost s))"

definition method_not_allowed :: Response where
  "method_not_allowed =
     \<lparr>StatusCode = 405, ContentType = ''text/plain; charset=utf-8'',
      response_body = ''method not allowed'' @ nl\<rparr>"

definition bare_ok :: Response where
  "bare_ok = \<lparr>StatusCode = 200, ContentType = [], response_body = []\<rparr>"

text \<open>The branches of \<^verbatim>\<open>ServeHTTP\<close> after classification.  The result is the reply the handler
  writes, the events it goes on to enqueue, and the new state.  Only the two event dialects
  that acknowledge before parsing look at whether the reply could be written.\<close>

definition answer_register :: "Handler \<Rightarrow> string \<Rightarrow> bytes \<Rightarrow> Server \<Rightarrow> Response \<times> CEPAEvent list \<times> Server" where
  "answer_register h peer body s =
     (respond body (registerReply h) ''text/xml'', [], update_met (RecordPeerRegistration peer) s)"

definition answer_heartbeat :: "string \<Rightarrow> bytes \<Rightarrow> Server \<Rightarrow> Response \<times> CEPAEvent list \<times> Server" where
  "answer_heartbeat peer body s =
     (respond body heartbeatReply ''text/plain'', [], update_met (RecordPeerHeartbeat peer) s)"

definition answer_check_file ::
  "environment \<Rightarrow> string \<Rightarrow> bytes \<Rightarrow> bytes \<Rightarrow> Server \<Rightarrow> Response \<times> CEPAEvent list \<times> Server" where
  "answer_check_file env peer body decoded s =
     (let heartbeat = checkFileActionDecoded (names env) decoded = OneFSHeartbeatAction;
          s1 = (if heartbeat then update_met (RecordPeerHeartbeat peer) s else s);
          resp = respond body checkFileResponse ''text/xml'' in
      if \<not> write_ok env \<or> heartbeat then (resp, [], s1)
      else case parseOneFSEventDecoded (names env) decoded (clock_receive env) of
             Inl err \<Rightarrow>
               (let seen = onefsUnhandled s1 + 1 in
                (resp, [], logUnhandled ''cepa_onefs_event_unhandled'' seen decoded body
                   (count_payload_lost (s1\<lparr>onefsUnhandled := seen\<rparr>))))
           | Inr events \<Rightarrow> (resp, events, s1))"

definition answer_check_event ::
  "environment \<Rightarrow> bytes \<Rightarrow> bytes \<Rightarrow> Server \<Rightarrow> Response \<times> CEPAEvent list \<times> Server" where
  "answer_check_event env body decoded s =
     (let resp = respond body checkEventResponse ''text/xml'' in
      if \<not> write_ok env then (resp, [], s)
      else case parseCheckEventRequestDecoded (names env) decoded (clock_receive env) of
             Inl err \<Rightarrow>
               (let seen = ceeUnhandled s + 1 in
                (resp, [], logUnhandled ''cepa_cee_event_unhandled'' seen decoded body
                   (count_payload_lost (s\<lparr>ceeUnhandled := seen\<rparr>))))
           | Inr events \<Rightarrow> (resp, events, s))"

definition answer_vcaps ::
  "environment \<Rightarrow> bytes \<Rightarrow> Server \<Rightarrow> Response \<times> CEPAEvent list \<times> Server" where
  "answer_vcaps env decoded s =
     (case parseDecoded (names env) decoded (clock_receive env) of
        Inl err \<Rightarrow> (bare_ok, [], log_entry (Failure ''cepa_parse_error'' err) s)
      | Inr events \<Rightarrow> (bare_ok, events, s))"

definition answer_body ::
  "Handler \<Rightarrow> environment \<Rightarrow> Request \<Rightarrow> bytes \<Rightarrow> go_error + Dialect \<times> bytes \<Rightarrow> Server \<Rightarrow>
    Response \<times> CEPAEvent list \<times> Server" where
  "answer_body h env r body classified s =
     (case classified of
        Inl err \<Rightarrow>
          (respond body checkEventResponse ''text/xml'', [],
           log_entry (Failure ''cepa_decode_error'' err) s)
      | Inr (dialect, decoded) \<Rightarrow>
          (case dialect of
             DialectRegisterRequest \<Rightarrow> answer_register h (peerHost (RemoteAddr r)) body s
           | DialectCheckFileRequest \<Rightarrow> answer_check_file env (peerHost (RemoteAddr r)) body decoded s
           | DialectHeartBeatRequest \<Rightarrow> answer_heartbeat (peerHost (RemoteAddr r)) body s
           | DialectCheckEventRequest \<Rightarrow> answer_check_event env body decoded s
           | DialectUnknown \<Rightarrow> answer_vcaps env decoded s))"

text \<open>\<^verbatim>\<open>ServeHTTP\<close> up to the slot: finished, answerable without a slot, or in need of one.\<close>

datatype started =
    Finished Response
  | Live bytes "go_error + Dialect \<times> bytes"
  | Need_slot bytes "(go_error + Dialect \<times> bytes) option"

definition liveness :: "name_tables \<Rightarrow> go_error + Dialect \<times> bytes \<Rightarrow> bool" where
  "liveness nt c = (case c of Inl err \<Rightarrow> False | Inr (d, decoded) \<Rightarrow> isLivenessDialect nt d decoded)"

definition serve_start :: "environment \<Rightarrow> Request \<Rightarrow> Server \<Rightarrow> started \<times> Server" where
  "serve_start env r s =
     (if Method r \<noteq> ''PUT'' \<and> Method r \<noteq> ''POST'' then (Finished method_not_allowed, s)
      else
        (let s1 = update_met (RecordPeerRequestAt (peerHost (RemoteAddr r)) (clock_start env)) s in
         case readProbe r handshakeProbeBytes of
           Inl err \<Rightarrow> (case answerUnreadableBody [] err s1 of (resp, s2) \<Rightarrow> (Finished resp, s2))
         | Inr (probe, complete) \<Rightarrow>
             if complete then
               (if liveness (names env) (Classify probe) then (Live probe (Classify probe), s1)
                else (Need_slot probe (Some (Classify probe)), s1))
             else (Need_slot probe None, s1)))"

text \<open>What the cap leaves for the rest of a body; the subtraction is on 64 bits and wraps.\<close>

definition remaining_cap :: "LimitsConfig \<Rightarrow> nat \<Rightarrow> int" where
  "remaining_cap c n = signed_take_bit 63 (maxBodyBytes c - int n)"

text \<open>And with the slot.\<close>

definition serve_with_slot ::
  "Handler \<Rightarrow> environment \<Rightarrow> Request \<Rightarrow> bytes \<Rightarrow> (go_error + Dialect \<times> bytes) option \<Rightarrow> Server \<Rightarrow>
    Response \<times> CEPAEvent list \<times> Server" where
  "serve_with_slot h env r probe c s =
     (case c of
        Some classified \<Rightarrow> answer_body h env r probe classified s
      | None \<Rightarrow>
          (case readBody r (length probe) (remaining_cap (limits h) (length probe)) of
             Inl err \<Rightarrow> (case answerUnreadableBody probe err s of (resp, s1) \<Rightarrow> (resp, [], s1))
           | Inr rest \<Rightarrow> answer_body h env r (probe @ rest) (Classify (probe @ rest)) s))"

section \<open>Enqueueing\<close>

definition count_received :: "nat \<Rightarrow> Server \<Rightarrow> Server" where
  "count_received n = update_met (\<lambda>m. m\<lparr>EventsReceivedTotal := EventsReceivedTotal m + int n\<rparr>)"

definition event_host :: "Handler \<Rightarrow> Request \<Rightarrow> string" where
  "event_host h r = (if hostname h = [] then Host r else hostname h)"

definition enqueue_one :: "Handler \<Rightarrow> environment \<Rightarrow> Request \<Rightarrow> CEPAEvent \<Rightarrow> Server \<Rightarrow> Server" where
  "enqueue_one h env r e s =
     (let s1 = update_met (RecordEvent (EventType e) (Protocol e) (CEPAEvent.Server e)) s in
      s1\<lparr>queue := snd (Enqueue (q_config h) (Map (os_Hostname env) e (event_host h r)) (queue s1))\<rparr>)"

definition enqueue :: "Handler \<Rightarrow> environment \<Rightarrow> Request \<Rightarrow> CEPAEvent list \<Rightarrow> Server \<Rightarrow> Server" where
  "enqueue h env r events s = fold (enqueue_one h env r) events (count_received (length events) s)"

text \<open>One request from beginning to end, when no other runs.  \<open>None\<close> is a handler still
  waiting for a slot.\<close>

definition ServeHTTP :: "Handler \<Rightarrow> environment \<Rightarrow> Request \<Rightarrow> Server \<Rightarrow> (Response \<times> Server) option" where
  "ServeHTTP h env r s =
     (case serve_start env r s of
        (Finished resp, s1) \<Rightarrow> Some (resp, s1)
      | (Live body c, s1) \<Rightarrow>
          (case answer_body h env r body c s1 of
             (resp, events, s2) \<Rightarrow> Some (resp, enqueue h env r events s2))
      | (Need_slot probe c, s1) \<Rightarrow>
          (case acquireSlot_now h s1 of
             None \<Rightarrow> None
           | Some s2 \<Rightarrow>
               (case serve_with_slot h env r probe c s2 of
                  (resp, events, s3) \<Rightarrow> Some (resp, releaseSlot (enqueue h env r events s3)))))"

section \<open>What a handler leaves alone\<close>

text \<open>Everything before the enqueueing touches the queue only through the shared metrics, and
  of the counters the queue's accounting rests on only the dropped one.\<close>

definition queue_counters :: "Store \<Rightarrow> int list" where
  "queue_counters m =
     [EventsReceivedTotal m, EventsWrittenTotal m, WriterErrorsTotal m, WriterBatchesTotal m,
      WriterBatchErrorsTotal m]"

definition touches :: "int \<Rightarrow> Server \<Rightarrow> Server \<Rightarrow> bool" where
  "touches d s s' \<longleftrightarrow>
     slots s' = slots s \<and>
     queue s' = (queue s)\<lparr>met := met (queue s')\<rparr> \<and>
     queue_counters (met (queue s')) = queue_counters (met (queue s)) \<and>
     EventsDroppedTotal (met (queue s')) = EventsDroppedTotal (met (queue s)) + d"

lemma touches_refl [simp]: "touches 0 s s"
  by (simp add: touches_def)

lemma touches_trans: "touches d s s' \<Longrightarrow> touches e s' s'' \<Longrightarrow> touches (d + e) s s''"
  unfolding touches_def by (metis (no_types, lifting) Queue.surjective Queue.update_convs(5) add.assoc)

lemma peer_counters [simp]:
  "queue_counters (RecordPeerRequestAt p t m) = queue_counters m"
  "queue_counters (RecordPeerRegistration p m) = queue_counters m"
  "queue_counters (RecordPeerHeartbeat p m) = queue_counters m"
  "EventsDroppedTotal (RecordPeerRequestAt p t m) = EventsDroppedTotal m"
  "EventsDroppedTotal (RecordPeerRegistration p m) = EventsDroppedTotal m"
  "EventsDroppedTotal (RecordPeerHeartbeat p m) = EventsDroppedTotal m"
  by (simp_all add: queue_counters_def RecordPeerRequestAt_def RecordPeerRegistration_def
      RecordPeerHeartbeat_def stamp_peer_def create_peer_def split: option.splits)

lemma breakdown_counters [simp]:
  "queue_counters (RecordEvent a b c m) = queue_counters m"
  "EventsDroppedTotal (RecordEvent a b c m) = EventsDroppedTotal m"
  by (simp_all add: queue_counters_def RecordEvent_def recordBreakdown_slow slow_breakdown_def
      split: prod.splits)

named_theorems touches_intros \<open>the pieces of a handler that only touch the metrics\<close>

lemma touches_met [touches_intros]:
  "queue_counters (f (met (queue s))) = queue_counters (met (queue s)) \<Longrightarrow>
   EventsDroppedTotal (f (met (queue s))) = EventsDroppedTotal (met (queue s)) \<Longrightarrow>
   touches 0 s (update_met f s)"
  by (simp add: touches_def update_met_def)

lemma touches_log [touches_intros]:
  "touches d s s' \<Longrightarrow> touches d s (log_entry e s')"
  "touches d s s' \<Longrightarrow> touches d s (logUnhandled ev n decoded body s')"
  by (simp_all add: touches_def logUnhandled_def log_entry_def Let_def)

lemma touches_lost [touches_intros]: "touches 1 s (count_payload_lost s)"
  by (simp add: touches_def count_payload_lost_def count_dropped_def queue_counters_def)

lemma touches_seen [touches_intros]:
  "touches d s s' \<Longrightarrow> touches d s (s'\<lparr>onefsUnhandled := n\<rparr>)"
  "touches d s s' \<Longrightarrow> touches d s (s'\<lparr>ceeUnhandled := n\<rparr>)"
  by (simp_all add: touches_def)

lemma touches_unreadable:
  "answerUnreadableBody probe err s = (resp, s') \<Longrightarrow> touches 1 s s'"
  by (auto simp: answerUnreadableBody_def intro: touches_intros)

lemma touches_answer:
  assumes "answer_body h env r body c s = (resp, events, s')"
  shows "\<exists>d \<in> {0, 1}. touches d s s'"
proof -
  have lost: "touches 1 s (count_payload_lost (s\<lparr>onefsUnhandled := n\<rparr>))"
    "touches 1 s (count_payload_lost (s\<lparr>ceeUnhandled := n\<rparr>))" for s :: Server and n
    by (simp_all add: touches_def count_payload_lost_def count_dropped_def queue_counters_def)
  have cf: "\<exists>d \<in> {0, 1}. touches d s s'"
    if "answer_check_file env peer body decoded s = (resp, events, s')" for peer decoded
    using that
    by (auto simp: answer_check_file_def Let_def intro: lost touches_intros
        split: if_splits sum.splits)
  have ce: "\<exists>d \<in> {0, 1}. touches d s s'"
    if "answer_check_event env body decoded s = (resp, events, s')" for decoded
    using that
    by (auto simp: answer_check_event_def Let_def intro: lost touches_intros split: if_splits sum.splits)
  have other: "\<exists>d \<in> {0, 1}. touches d s s'"
    if "answer_register h peer body s = (resp, events, s') \<or>
        answer_heartbeat peer body s = (resp, events, s') \<or>
        answer_vcaps env decoded s = (resp, events, s')" for peer decoded
    using that
    by (auto simp: answer_register_def answer_heartbeat_def answer_vcaps_def intro: touches_intros
        split: sum.splits)
  show ?thesis
  proof (cases c)
    case (Inl err)
    then show ?thesis using assms by (auto simp: answer_body_def intro: touches_intros)
  next
    case (Inr p)
    obtain d x where p: "p = (d, x)" by (cases p)
    show ?thesis using assms cf ce other unfolding Inr p
      by (cases d; simp only: answer_body_def sum.case prod.case Dialect.case; blast)
  qed
qed

lemma touches_start:
  assumes "serve_start env r s = (st, s')"
  shows "\<exists>d \<in> {0, 1}. touches d s s'"
proof -
  let ?s1 = "update_met (RecordPeerRequestAt (peerHost (RemoteAddr r)) (clock_start env)) s"
  have s1: "touches 0 s ?s1" by (intro touches_intros) simp_all
  then have "touches 1 s s2" if "answerUnreadableBody p e ?s1 = (resp, s2)" for p e resp s2
    using touches_trans [OF s1 touches_unreadable [OF that]] by simp
  then show ?thesis using assms s1
    by (auto simp: serve_start_def Let_def split: if_splits sum.splits prod.splits)
qed

lemma touches_with_slot:
  assumes "serve_with_slot h env r probe c s = (resp, events, s')"
  shows "\<exists>d \<in> {0, 1}. touches d s s'"
  using assms touches_answer touches_unreadable
  by (fastforce simp: serve_with_slot_def split: option.splits sum.splits prod.splits)

end
