(* ===== verification/Serving.thy ===== *)
theory Serving
  imports Cepa_Handler
begin

text \<open>
  What the handler of \<^verbatim>\<open>pkg/server/server.go\<close> promises: the accounting of one request, the
  reply every dialect gets, the exemption of liveness traffic from the slots, and the
  delivery of a document's events to the queue.  The second half lets requests of many
  connections and the queue's workers interleave and shows what holds in every reachable
  state.
\<close>

section \<open>One request\<close>

abbreviation received :: "Server \<Rightarrow> int" where
  "received s \<equiv> EventsReceivedTotal (met (queue s))"

abbreviation dropped :: "Server \<Rightarrow> int" where
  "dropped s \<equiv> EventsDroppedTotal (met (queue s))"

lemma touches_totals:
  assumes "touches d s s'"
  shows "received s' = received s" "dropped s' = dropped s + d" "slots s' = slots s"
    "accepted (queue s') = accepted (queue s)" "ch (queue s') = ch (queue s)"
    "closed (queue s') = closed (queue s)"
proof -
  have "\<exists>m. queue s' = (queue s)\<lparr>met := m\<rparr>" using assms unfolding touches_def by blast
  then show "accepted (queue s') = accepted (queue s)" "ch (queue s') = ch (queue s)"
    "closed (queue s') = closed (queue s)" by auto
qed (use assms in \<open>simp_all add: touches_def queue_counters_def\<close>)

lemma count_received_simps [simp]:
  "received (count_received n s) = received s + int n" "dropped (count_received n s) = dropped s"
  "slots (count_received n s) = slots s" "accepted (queue (count_received n s)) = accepted (queue s)"
  "ch (queue (count_received n s)) = ch (queue s)" "closed (queue (count_received n s)) = closed (queue s)"
  by (simp_all add: count_received_def update_met_def)

text \<open>The event the queue is offered for a parsed one.\<close>

definition mapped :: "Handler \<Rightarrow> environment \<Rightarrow> Request \<Rightarrow> CEPAEvent \<Rightarrow> WindowsEvent" where
  "mapped h env r e = Map (os_Hostname env) e (event_host h r)"

lemma enqueue_one_totals:
  "received (enqueue_one h env r e s) = received s"
  "slots (enqueue_one h env r e s) = slots s"
  "if closed (queue s) \<or> capacity (q_config h) \<le> length (ch (queue s))
   then accepted (queue (enqueue_one h env r e s)) = accepted (queue s) \<and>
        ch (queue (enqueue_one h env r e s)) = ch (queue s) \<and>
        dropped (enqueue_one h env r e s) = dropped s + 1
   else accepted (queue (enqueue_one h env r e s)) = accepted (queue s) @ [mapped h env r e] \<and>
        ch (queue (enqueue_one h env r e s)) = ch (queue s) @ [mapped h env r e] \<and>
        dropped (enqueue_one h env r e s) = dropped s"
  "closed (queue (enqueue_one h env r e s)) = closed (queue s)"
proof -
  let ?m = "RecordEvent (EventType e) (Protocol e) (CEPAEvent.Server e) (met (queue s))"
  have r: "EventsReceivedTotal ?m = received s"
    using breakdown_counters(1) [of "EventType e" "Protocol e" "CEPAEvent.Server e" "met (queue s)"]
    by (simp add: queue_counters_def)
  show "received (enqueue_one h env r e s) = received s" "slots (enqueue_one h env r e s) = slots s"
    "closed (queue (enqueue_one h env r e s)) = closed (queue s)"
    using r by (simp_all add: enqueue_one_def update_met_def Enqueue_def Let_def count_dropped_def
        SetQueueDepth_def)
  show "if closed (queue s) \<or> capacity (q_config h) \<le> length (ch (queue s))
   then accepted (queue (enqueue_one h env r e s)) = accepted (queue s) \<and>
        ch (queue (enqueue_one h env r e s)) = ch (queue s) \<and>
        dropped (enqueue_one h env r e s) = dropped s + 1
   else accepted (queue (enqueue_one h env r e s)) = accepted (queue s) @ [mapped h env r e] \<and>
        ch (queue (enqueue_one h env r e s)) = ch (queue s) @ [mapped h env r e] \<and>
        dropped (enqueue_one h env r e s) = dropped s"
    by (simp add: enqueue_one_def update_met_def Enqueue_def Let_def count_dropped_def
        SetQueueDepth_def mapped_def)
qed

lemma enqueue_all_totals:
  "received (fold (enqueue_one h env r) events s) = received s \<and>
   slots (fold (enqueue_one h env r) events s) = slots s \<and>
   int (length (accepted (queue (fold (enqueue_one h env r) events s)))) +
     dropped (fold (enqueue_one h env r) events s) =
   int (length (accepted (queue s))) + dropped s + int (length events)"
proof (induction events arbitrary: s)
  case (Cons e es)
  show ?case using Cons.IH [of "enqueue_one h env r e s"] enqueue_one_totals [where h = h and env = env and r = r and e = e and s = s]
    by (auto split: if_splits)
qed simp

lemma enqueue_room:
  assumes "\<not> closed (queue s)" "length (ch (queue s)) + length events \<le> capacity (q_config h)"
  shows "accepted (queue (fold (enqueue_one h env r) events s)) =
      accepted (queue s) @ map (mapped h env r) events \<and>
    dropped (fold (enqueue_one h env r) events s) = dropped s"
  using assms
proof (induction events arbitrary: s)
  case (Cons e es)
  then show ?case using Cons.IH [of "enqueue_one h env r e s"] enqueue_one_totals [where h = h and env = env and r = r and e = e and s = s]
    by (auto split: if_splits)
qed simp

lemma acquireSlot_now_Some:
  "acquireSlot_now h s = Some s' \<longleftrightarrow> slots s < slot_capacity h \<and> s' = s\<lparr>slots := slots s + 1\<rparr>"
  by (auto simp: acquireSlot_now_def)

lemma releaseSlot_simps [simp]: "queue (releaseSlot s) = queue s" "slots (releaseSlot s) = slots s - 1"
  by (simp_all add: releaseSlot_def)

lemma enqueue_totals:
  "received (enqueue h env r events s) = received s + int (length events)"
  "slots (enqueue h env r events s) = slots s"
  "int (length (accepted (queue (enqueue h env r events s)))) + dropped (enqueue h env r events s) =
     int (length (accepted (queue s))) + dropped s + int (length events)"
  using enqueue_all_totals [where h = h and env = env and r = r and events = events and s = "count_received (length events) s"]
  by (simp_all add: enqueue_def)

text \<open>Nothing a request brings goes missing without a count.  Whatever the request, its
  body and the state, the events it adds to the received counter plus the payloads it
  counts as lost (at most one) are the events the queue took plus the rise of the dropped
  counter; and the slot it took is given back.\<close>

theorem ServeHTTP_accounts:
  assumes "ServeHTTP h env r s = Some (resp, s')"
  shows "\<exists>lost \<in> {0, 1}.
      received s' - received s + lost =
        int (length (accepted (queue s'))) - int (length (accepted (queue s))) + (dropped s' - dropped s) \<and>
      slots s' = slots s"
proof -
  obtain st s1 where st: "serve_start env r s = (st, s1)" by fastforce
  obtain d where d: "d \<in> {0, 1}" "touches d s s1" using touches_start [OF st] by blast
  note t1 = touches_totals [OF d(2)]
  show ?thesis
  proof (cases st)
    case (Finished resp1)
    then show ?thesis using assms st t1 d(1) by (auto simp: ServeHTTP_def)
  next
    case (Live body c)
    obtain resp2 events s2 where a: "answer_body h env r body c s1 = (resp2, events, s2)"
      by (metis prod.collapse)
    obtain e where e: "e \<in> {0, 1}" "touches e s1 s2" using touches_answer [OF a] by blast
    have "d = 0" using st Live d(2)
      by (auto simp: serve_start_def Let_def touches_def update_met_def split: if_splits sum.splits prod.splits)
    then show ?thesis
      using assms st Live a e(1) t1 touches_totals [OF e(2)] enqueue_totals [where h = h and env = env and r = r and events = events and s = s2]
      by (auto simp: ServeHTTP_def)
  next
    case (Need_slot probe c)
    obtain s2 where s2: "acquireSlot_now h s1 = Some s2" "s2 = s1\<lparr>slots := slots s1 + 1\<rparr>"
      using assms st Need_slot by (auto simp: ServeHTTP_def acquireSlot_now_Some split: option.splits)
    obtain resp3 events s3 where a: "serve_with_slot h env r probe c s2 = (resp3, events, s3)"
      by (metis prod.collapse)
    obtain e where e: "e \<in> {0, 1}" "touches e s2 s3" using touches_with_slot [OF a] by blast
    have "d = 0" using st Need_slot d(2)
      by (auto simp: serve_start_def Let_def touches_def update_met_def split: if_splits sum.splits prod.splits)
    then show ?thesis
      using assms st Need_slot a s2 e(1) t1 touches_totals [OF e(2)] enqueue_totals [where h = h and env = env and r = r and events = events and s = s3]
      by (auto simp: ServeHTTP_def)
  qed
qed

section \<open>A body that can be read\<close>

definition accepted_method :: "Request \<Rightarrow> bool" where
  "accepted_method r \<longleftrightarrow> Method r = ''PUT'' \<or> Method r = ''POST''"

text \<open>The cap in force: the probe with its extra byte, and what is left after it.\<close>

definition body_limit :: "Handler \<Rightarrow> int" where
  "body_limit h = 8193 + max 0 (remaining_cap (limits h) 8193)"

definition unreadable :: "Handler \<Rightarrow> Request \<Rightarrow> bool" where
  "unreadable h r \<longleftrightarrow> body_fails r \<or> body_limit h < int (length (body_data r))"

definition readable :: "Handler \<Rightarrow> Request \<Rightarrow> bool" where
  "readable h r \<longleftrightarrow> accepted_method r \<and> \<not> unreadable h r"

lemma readable_small:
  "accepted_method r \<Longrightarrow> \<not> body_fails r \<Longrightarrow> length (body_data r) \<le> 8193 \<Longrightarrow> readable h r"
  by (simp add: readable_def unreadable_def body_limit_def)

text \<open>For every cap below eight exbibytes it is the configured number of mebibytes; just there the
  subtraction wraps, and there is none.\<close>

lemma body_limit_configured:
  assumes "0 < MaxBodyMB (limits h)" "MaxBodyMB (limits h) < 2 ^ 43"
  shows "body_limit h = MaxBodyMB (limits h) * 2 ^ 20"
proof -
  have "MaxBodyMB (limits h) * 2 ^ 20 < 2 ^ 43 * 2 ^ 20" "2 ^ 20 \<le> MaxBodyMB (limits h) * 2 ^ 20"
    using assms by simp_all
  then show ?thesis
    by (simp add: body_limit_def remaining_cap_def maxBodyBytes_def push_bit_eq_mult signed_take_bit_int_eq_self)
qed

lemma body_limit_overflow: "MaxBodyMB (limits h) = 2 ^ 43 \<Longrightarrow> body_limit h = 2 ^ 63"
  by (simp add: body_limit_def remaining_cap_def maxBodyBytes_def push_bit_eq_mult signed_take_bit_eq_take_bit_shift
      take_bit_eq_mod)

definition stamped :: "environment \<Rightarrow> Request \<Rightarrow> Server \<Rightarrow> Server" where
  "stamped env r = update_met (RecordPeerRequestAt (peerHost (RemoteAddr r)) (clock_start env))"

lemma touches_stamped: "touches 0 s (stamped env r s)"
  unfolding stamped_def by (intro touches_intros) simp_all

lemma readProbe_ok:
  assumes "\<not> body_fails r"
  shows "readProbe r 8192 = Inr (take 8193 (body_data r), length (body_data r) \<le> 8192)"
  using assms by (simp add: readProbe_def Let_def min_def)

lemma serve_start_readable:
  assumes "accepted_method r" "\<not> body_fails r"
  shows "serve_start env r s =
    ((if length (body_data r) \<le> 8192 then
        (if liveness (names env) (Classify (body_data r)) then Live (body_data r) (Classify (body_data r))
         else Need_slot (body_data r) (Some (Classify (body_data r))))
      else Need_slot (take 8193 (body_data r)) None), stamped env r s)"
  using assms readProbe_ok [OF assms(2)]
  by (auto simp: serve_start_def accepted_method_def stamped_def handshakeProbeBytes_def Let_def)

text \<open>What is done with a readable body, with or without a slot.\<close>

definition served ::
  "Handler \<Rightarrow> environment \<Rightarrow> Request \<Rightarrow> Server \<Rightarrow> Response \<times> Server" where
  "served h env r s =
     (case answer_body h env r (body_data r) (Classify (body_data r)) s of
        (resp, events, s') \<Rightarrow> (resp, enqueue h env r events s'))"

lemma serve_with_slot_readable:
  assumes "readable h r" "8192 < length (body_data r)"
  shows "serve_with_slot h env r (take 8193 (body_data r)) None s =
    answer_body h env r (body_data r) (Classify (body_data r)) s"
proof -
  have "int (length (body_data r)) \<le> body_limit h" "\<not> body_fails r"
    using assms by (simp_all add: readable_def unreadable_def)
  then have "readBody r 8193 (remaining_cap (limits h) 8193) = Inr (drop 8193 (body_data r))"
    using assms(2) by (auto simp: readBody_def Let_def body_limit_def)
  moreover have "length (take 8193 (body_data r)) = 8193" using assms(2) by simp
  ultimately show ?thesis
    by (simp only: serve_with_slot_def option.case sum.case of_nat_numeral append_take_drop_id)
qed

lemma ServeHTTP_readable:
  assumes "readable h r"
  shows "ServeHTTP h env r s =
    (if length (body_data r) \<le> 8192 \<and> liveness (names env) (Classify (body_data r))
     then Some (served h env r (stamped env r s))
     else if slots s < slot_capacity h
     then (case served h env r ((stamped env r s)\<lparr>slots := slots s + 1\<rparr>) of
             (resp, s') \<Rightarrow> Some (resp, releaseSlot s'))
     else None)"
proof -
  have ok: "accepted_method r" "\<not> body_fails r" using assms by (simp_all add: readable_def unreadable_def)
  have sl: "slots (stamped env r s) = slots s"
    using touches_totals(3) [OF touches_stamped] .
  show ?thesis
  proof (cases "length (body_data r) \<le> 8192")
    case True
    then show ?thesis
      using sl by (auto simp: ServeHTTP_def serve_start_readable [OF ok] served_def acquireSlot_now_def
          serve_with_slot_def split: prod.splits)
  next
    case False
    then show ?thesis
      using sl serve_with_slot_readable [OF assms]
      by (auto simp: ServeHTTP_def serve_start_readable [OF ok] served_def acquireSlot_now_def
          split: prod.splits)
  qed
qed

text \<open>And with a body that cannot be read: in the probe, where nothing of it is kept and no slot is
  taken, or behind it.\<close>

lemma ServeHTTP_unreadable:
  assumes "accepted_method r" "unreadable h r"
  shows "ServeHTTP h env r s =
    (if length (body_data r) \<le> 8192 then Some (answerUnreadableBody [] ErrBodyRead (stamped env r s))
     else if slots s < slot_capacity h
     then (case answerUnreadableBody (take 8193 (body_data r)) ErrBodyRead ((stamped env r s)\<lparr>slots := slots s + 1\<rparr>) of
             (resp, s') \<Rightarrow> Some (resp, releaseSlot (enqueue h env r [] s')))
     else None)"
proof (cases "length (body_data r) \<le> 8192")
  case True
  then have "body_fails r" using assms(2) by (auto simp: unreadable_def body_limit_def)
  then show ?thesis using True assms(1)
    by (auto simp: ServeHTTP_def serve_start_def accepted_method_def readProbe_def handshakeProbeBytes_def
        stamped_def Let_def split: prod.splits)
next
  case False
  have st: "serve_start env r s = (Need_slot (take 8193 (body_data r)) None, stamped env r s)"
    using False assms(1)
    by (auto simp: serve_start_def accepted_method_def readProbe_def handshakeProbeBytes_def stamped_def Let_def min_def)
  have len: "length (take 8193 (body_data r)) = 8193" using False by simp
  have "readBody r 8193 (remaining_cap (limits h) 8193) = Inl ErrBodyRead"
    using assms(2) False by (auto simp: readBody_def Let_def unreadable_def body_limit_def)
  then have "serve_with_slot h env r (take 8193 (body_data r)) None s2 =
      (case answerUnreadableBody (take 8193 (body_data r)) ErrBodyRead s2 of (resp, s1) \<Rightarrow> (resp, [], s1))" for s2
    by (simp only: serve_with_slot_def option.case sum.case len)
  then show ?thesis
    using False st touches_totals(3) [OF touches_stamped]
    by (auto simp: ServeHTTP_def acquireSlot_now_def split: prod.splits)
qed

lemma answer_liveness:
  assumes "liveness (names env) c" "answer_body h env r body c s = (resp, events, s')"
  shows "events = [] \<and> touches 0 s s'"
proof -
  obtain d x where c: "c = Inr (d, x)" "isLivenessDialect (names env) d x"
    using assms(1) by (auto simp: liveness_def split: sum.splits)
  then show ?thesis using assms(2)
    by (cases d) (auto simp: answer_body_def answer_register_def answer_heartbeat_def
        answer_check_file_def isLivenessDialect_def Let_def intro: touches_intros)
qed

lemma served_liveness:
  assumes "liveness (names env) (Classify (body_data r))" "served h env r s = (resp, s')"
  shows "touches 0 s s'"
proof -
  obtain resp1 events s1 where a: "answer_body h env r (body_data r) (Classify (body_data r)) s = (resp1, events, s1)"
    by (metis prod.collapse)
  note l = answer_liveness [OF assms(1) a]
  have "touches 0 s1 (enqueue h env r [] s1)"
    by (simp add: enqueue_def count_received_def) (rule touches_intros; simp add: queue_counters_def)
  then show ?thesis using assms(2) a l touches_trans [of 0 s s1 0] by (auto simp: served_def)
qed

text \<open>C14: Liveness traffic never waits and never enters the queue.  A request is left waiting just
  when every slot is taken and it needs one, which every request with an accepted method does
  unless its whole body came in the probe of 8192 bytes and either is liveness traffic or
  could not be read.  Such a liveness document is answered in every state, takes no slot, and
  changes the queue in nothing but the metrics it shares.  A liveness document that is
  larger than the probe waits like any other body.\<close>

theorem liveness_never_waits:
  "(ServeHTTP h env r s = None \<longleftrightarrow> accepted_method r \<and> slot_capacity h \<le> slots s \<and>
      \<not> (length (body_data r) \<le> 8192 \<and> (body_fails r \<or> liveness (names env) (Classify (body_data r))))) \<and>
   (accepted_method r \<and> \<not> body_fails r \<and> length (body_data r) \<le> 8192 \<and>
    liveness (names env) (Classify (body_data r)) \<longrightarrow>
      (\<exists>resp s'. ServeHTTP h env r s = Some (resp, s') \<and> slots s' = slots s \<and>
        queue s' = (queue s)\<lparr>met := met (queue s')\<rparr> \<and> received s' = received s \<and> dropped s' = dropped s))"
proof (intro conjI impI)
  show "ServeHTTP h env r s = None \<longleftrightarrow> accepted_method r \<and> slot_capacity h \<le> slots s \<and>
      \<not> (length (body_data r) \<le> 8192 \<and> (body_fails r \<or> liveness (names env) (Classify (body_data r))))"
  proof (cases "accepted_method r")
    case False
    then show ?thesis by (simp add: ServeHTTP_def serve_start_def accepted_method_def)
  next
    case a: True
    show ?thesis
    proof (cases "unreadable h r")
      case True
      have "length (body_data r) \<le> 8192 \<Longrightarrow> body_fails r"
        using True by (auto simp: unreadable_def body_limit_def)
      then show ?thesis using a by (auto simp: ServeHTTP_unreadable [OF a True] split: prod.splits)
    next
      case False
      then have "readable h r" "\<not> body_fails r" using a by (simp_all add: readable_def unreadable_def)
      then show ?thesis using a by (auto simp: ServeHTTP_readable split: prod.splits)
    qed
  qed
next
  assume l: "accepted_method r \<and> \<not> body_fails r \<and> length (body_data r) \<le> 8192 \<and>
    liveness (names env) (Classify (body_data r))"
  then have r: "readable h r" by (simp add: readable_small)
  obtain resp s' where s': "served h env r (stamped env r s) = (resp, s')" by fastforce
  have t: "touches 0 s s'"
    using touches_trans [OF touches_stamped served_liveness [OF _ s']] l by simp
  have "ServeHTTP h env r s = Some (resp, s')" using l s' by (simp add: ServeHTTP_readable [OF r])
  moreover have "queue s' = (queue s)\<lparr>met := met (queue s')\<rparr>" using t unfolding touches_def by blast
  ultimately show "\<exists>resp s'. ServeHTTP h env r s = Some (resp, s') \<and> slots s' = slots s \<and>
        queue s' = (queue s)\<lparr>met := met (queue s')\<rparr> \<and> received s' = received s \<and> dropped s' = dropped s"
    using touches_totals [OF t] by (intro exI [of _ resp] exI [of _ s']) simp
qed

definition plain_handler :: Handler where
  "plain_handler = NewHandler one_worker ''exporter'' default_registration
     \<lparr>MaxBodyMB = 0, MaxConcurrentRequests = 1\<rparr>"

definition plain_env :: environment where
  "plain_env = \<lparr>clock_start = mk_time 10 0, clock_receive = mk_time 10 5, write_ok = True,
     os_Hostname = ''host'', names = ascii_tables\<rparr>"

definition put :: "bytes \<Rightarrow> Request" where
  "put body = \<lparr>Method = ''PUT'', RemoteAddr = ''10.0.0.9:4711'', Host = ''cee:12228'',
     body_data = body, body_fails = False\<rparr>"

lemma classify_root:
  assumes "elem @ c # rest = drop 1 body" "hd body = CHR ''<''" "body \<noteq> []" "byte_val (hd (tl body)) \<noteq> 0"
    and "elem \<in> set root_names" "c \<in> name_end" "CHR ''>'' \<in> set (c # rest)" "name \<in> set root_names"
  shows "rootIs body name \<longleftrightarrow> elem = name"
proof -
  have b: "body = [] @ ''<'' @ elem @ c # rest" using assms(1-3) by (cases body) auto
  have "prolog []" by (simp add: prolog_def)
  moreover have "elem \<noteq> []" "hd elem \<noteq> CHR ''?''" using assms(5) by (auto simp: root_names_def)
  ultimately show ?thesis unfolding b
    using rootIs_after_prolog root_names_chars assms(5-8) by blast
qed

text \<open>The dialect of a document is the one its root element names.\<close>

definition dialect_of :: "string \<Rightarrow> Dialect" where
  "dialect_of elem =
     (if elem = ''RegisterRequest'' then DialectRegisterRequest
      else if elem = ''HeartBeatRequest'' then DialectHeartBeatRequest
      else if elem = ''CheckFileRequest'' then DialectCheckFileRequest
      else if elem = ''CheckEventRequest'' then DialectCheckEventRequest else DialectUnknown)"

lemma classifyDecoded_root:
  assumes "body = ''<'' @ elem @ c # rest" "elem \<in> set root_names" "c \<in> name_end"
    "CHR ''>'' \<in> set (c # rest)"
  shows "classifyDecoded body = dialect_of elem"
proof -
  have "byte_val (hd (tl body)) \<noteq> 0" using assms(1,2) by (auto simp: root_names_def)
  then have r: "rootIs body name \<longleftrightarrow> elem = name" if "name \<in> set root_names" for name
    using classify_root [of elem c rest body name] assms that by simp
  show ?thesis
    using r [of "''RegisterRequest''"] r [of "''HeartBeatRequest''"] r [of "''CheckFileRequest''"]
      r [of "''CheckEventRequest''"]
    by (simp add: classifyDecoded_def dialect_of_def root_names_def)
qed

lemma Classify_root:
  assumes "DecodeBody body = Inr (''<'' @ elem @ c # rest)" "elem \<in> set root_names" "c \<in> name_end"
    "CHR ''>'' \<in> set (c # rest)"
  shows "Classify body = Inr (dialect_of elem, ''<'' @ elem @ c # rest)"
  using classifyDecoded_root [OF refl assms(2-4)] assms(1) by (simp add: Classify_def)

lemma classify_heartbeat:
  "Classify ''<HeartBeatRequest />'' = Inr (DialectHeartBeatRequest, ''<HeartBeatRequest />'')"
  using Classify_root [of "''<HeartBeatRequest />''" "''HeartBeatRequest''" "CHR '' ''" "''/>''"]
  by (simp add: DecodeBody_def root_names_def name_end_def dialect_of_def)

theorem liveness_never_waits_witness:
  "\<exists>resp s'. ServeHTTP plain_handler plain_env (put ''<HeartBeatRequest />'')
     ((new_server (New new_store))\<lparr>slots := 1\<rparr>) = Some (resp, s') \<and> slots s' = 1"
proof -
  have "liveness (names plain_env) (Classify (body_data (put ''<HeartBeatRequest />'')))"
    by (simp add: put_def classify_heartbeat liveness_def isLivenessDialect_def)
  with liveness_never_waits [of plain_handler plain_env "put ''<HeartBeatRequest />''"
      "(new_server (New new_store))\<lparr>slots := 1\<rparr>"]
  show ?thesis by (auto simp: put_def accepted_method_def new_server_def)
qed

section \<open>The replies\<close>

text \<open>The document each dialect is answered with.\<close>

definition reply_for :: "Handler \<Rightarrow> Dialect \<Rightarrow> bytes" where
  "reply_for h d =
     (case d of
        DialectRegisterRequest \<Rightarrow> registerReply h
      | DialectHeartBeatRequest \<Rightarrow> heartbeatReply
      | DialectCheckFileRequest \<Rightarrow> checkFileResponse
      | DialectCheckEventRequest \<Rightarrow> checkEventResponse
      | DialectUnknown \<Rightarrow> [])"

lemma answer_reply:
  assumes "answer_body h env r body (Inr (d, x)) s = (resp, events, s')" "d \<noteq> DialectUnknown"
  shows "StatusCode resp = 200 \<and>
    response_body resp = (if IsUTF16 body then EncodeUTF16LE (reply_for h d) else reply_for h d)"
  using assms
  by (cases d)
     (auto simp: answer_body_def answer_register_def answer_heartbeat_def answer_check_file_def
       answer_check_event_def respond_def reply_for_def Let_def split: if_splits sum.splits)

text \<open>A text that starts with two ASCII characters survives either encoding, and its
  encoding can be told from its first two bytes.\<close>

lemma mirrored:
  assumes "doc = c # e # rest" "0 < byte_val c" "byte_val c < 0x80" "0 < byte_val e" "byte_val e < 0x80"
    "valid_utf8 doc"
  shows "DecodeBody (if b then EncodeUTF16LE doc else doc) = Inr doc"
    "IsUTF16 (if b then EncodeUTF16LE doc else doc) = b"
proof -
  have r: "runes_of doc = byte_val c # runes_of (e # rest)" using assms(1,3) by (simp add: runes_of_ascii)
  have p: "\<not> IsUTF16 doc" "DecodeBody doc = Inr doc"
    using assms(1-5) by (auto simp: IsUTF16_def DecodeBody_def)
  have u: "DecodeBody (EncodeUTF16LE doc) = Inr doc" "IsUTF16 (EncodeUTF16LE doc)"
    using DecodeBody_le [OF assms(6) r] assms(2,3) by simp_all
  show "DecodeBody (if b then EncodeUTF16LE doc else doc) = Inr doc"
    "IsUTF16 (if b then EncodeUTF16LE doc else doc) = b"
    using p u by simp_all
qed

lemma heartbeat_text: "heartbeatReply = ''hbStatus=0&ntStatus=0''"
  by (simp add: heartbeatReply_def Itoa_def format_nat.simps digit_char_def char_of_eq_iff take_bit_eq_mod)

lemma reply_text:
  assumes "h = NewHandler cfg host rc l" "texts_valid (registration_withDefaults rc)" "d \<noteq> DialectUnknown"
  shows "\<exists>c e rest. reply_for h d = c # e # rest \<and> 0 < byte_val c \<and> byte_val c < 0x80 \<and>
      0 < byte_val e \<and> byte_val e < 0x80" and "valid_utf8 (reply_for h d)"
proof -
  show "\<exists>c e rest. reply_for h d = c # e # rest \<and> 0 < byte_val c \<and> byte_val c < 0x80 \<and>
      0 < byte_val e \<and> byte_val e < 0x80"
    using assms(1,3)
    by (cases d) (auto simp: reply_for_def NewHandler_def registrationResponseXML_def heartbeatReply_def
        checkFileResponse_def checkEventResponse_def)
  have "valid_utf8 heartbeatReply" "valid_utf8 checkFileResponse" "valid_utf8 checkEventResponse"
    by (simp_all add: heartbeat_text checkFileResponse_def
        checkEventResponse_def numbered_attr_def nl_def)
  then show "valid_utf8 (reply_for h d)"
    using assms valid_registrationResponseXML
    by (cases d) (auto simp: reply_for_def NewHandler_def)
qed

text \<open>The document a request is answered with; \<open>None\<close> is a bare status.\<close>

definition reply_to :: "Handler \<Rightarrow> Request \<Rightarrow> bytes option" where
  "reply_to h r =
     (if unreadable h r then Some checkEventResponse
      else case Classify (body_data r) of
             Inl err \<Rightarrow> Some checkEventResponse
           | Inr (d, x) \<Rightarrow> (if d = DialectUnknown then None else Some (reply_for h d)))"

lemma IsUTF16_take: "IsUTF16 (take (Suc (Suc n)) b) = IsUTF16 b"
  by (auto simp: IsUTF16_def split: list.split)

lemma reply_given:
  assumes "accepted_method r" "ServeHTTP h env r s = Some (resp, s')"
  shows "StatusCode resp = 200 \<and>
    (case reply_to h r of
       None \<Rightarrow> response_body resp = []
     | Some doc \<Rightarrow> response_body resp =
         (if IsUTF16 (body_data r) \<and> \<not> (body_fails r \<and> length (body_data r) \<le> 8192)
          then EncodeUTF16LE doc else doc))"
proof (cases "unreadable h r")
  case True
  have u: "IsUTF16 (take 8193 b) = IsUTF16 b" for b
    using IsUTF16_take [of 8191 b] by simp
  have "length (body_data r) \<le> 8192 \<Longrightarrow> body_fails r" using True by (auto simp: unreadable_def body_limit_def)
  then show ?thesis
    using assms(2) True u [of "body_data r"]
    by (auto simp: ServeHTTP_unreadable [OF assms(1) True] answerUnreadableBody_def respond_def reply_to_def
        IsUTF16_def [of "[]"] split: if_splits)
next
  case False
  then have r: "readable h r" "\<not> body_fails r" using assms(1) by (simp_all add: readable_def unreadable_def)
  obtain s1 s2 where "served h env r s1 = (resp, s2)"
    using assms(2) by (auto simp: ServeHTTP_readable [OF r(1)] split: if_splits prod.splits)
  then obtain events s3 where a: "answer_body h env r (body_data r) (Classify (body_data r)) s1 = (resp, events, s3)"
    by (auto simp: served_def split: prod.splits)
  show ?thesis
  proof (cases "Classify (body_data r)")
    case (Inl err)
    then show ?thesis using a False r(2) by (auto simp: answer_body_def respond_def reply_to_def)
  next
    case (Inr p)
    obtain d x where p: "p = (d, x)" by fastforce
    show ?thesis
    proof (cases "d = DialectUnknown")
      case True
      then show ?thesis using a False Inr p
        by (auto simp: answer_body_def answer_vcaps_def bare_ok_def reply_to_def split: sum.splits)
    next
      case known: False
      then show ?thesis using answer_reply [OF a [unfolded Inr p] known] False Inr p r(2)
        by (simp add: reply_to_def)
    qed
  qed
qed

lemma reply_to_document:
  assumes "reply_to h r = Some doc"
  obtains d where "d \<noteq> DialectUnknown" "doc = reply_for h d"
proof (cases "unreadable h r")
  case True
  then show ?thesis using assms that [of DialectCheckEventRequest] by (simp add: reply_to_def reply_for_def)
next
  case False
  show ?thesis
  proof (cases "Classify (body_data r)")
    case (Inl err)
    then show ?thesis using False assms that [of DialectCheckEventRequest] by (simp add: reply_to_def reply_for_def)
  next
    case (Inr p)
    then show ?thesis using False assms that [of "fst p"] by (cases p) (simp add: reply_to_def split: if_splits)
  qed
qed


lemma default_registration_ok: "config_ok (registration_withDefaults default_registration)"
  by (simp add: config_ok_def protocol_list_def default_registration_def sample_registration_def registration_withDefaults_def
      cmp_Or_def attr_value_ok_ascii TrimSpace_id ascii_nonspace_def DefaultGUID_def DefaultVersion_def
      DefaultDescription_def DefaultEventFilter_def)

lemma plain_limits: "slot_capacity plain_handler = 1" "maxBodyBytes (limits plain_handler) = 8388608"
  by (simp_all add: plain_handler_def NewHandler_def slot_capacity_def limits_withDefaults_def
      maxBodyBytes_def push_bit_eq_mult signed_take_bit_int_eq_self)

lemma default_texts_valid: "texts_valid (registration_withDefaults default_registration)"
  using config_ok_texts [OF default_registration_ok] .


section \<open>Errors\<close>

text \<open>C19: A body that cannot be read is counted and answered.  When reading fails, or the body
  is larger than the cap in force, which is the configured number of mebibytes for every
  \<^verbatim>\<open>max_body_mb\<close> below 2^43, the handler never parses it: the dropped counter rises by exactly
  one, no event is received or enqueued, the slot is given back, and the reply is an event
  acknowledgement with status 200, so the publisher does not resend it for ever.\<close>

theorem unreadable_body_counted:
  assumes "accepted_method r" "slots s < slot_capacity h" "unreadable h r"
  shows "(\<exists>resp s'. ServeHTTP h env r s = Some (resp, s') \<and> StatusCode resp = 200 \<and>
    response_body resp \<in> {checkEventResponse, EncodeUTF16LE checkEventResponse} \<and>
    dropped s' = dropped s + 1 \<and> received s' = received s \<and>
    accepted (queue s') = accepted (queue s) \<and> slots s' = slots s) \<and>
    (0 < MaxBodyMB (limits h) \<and> MaxBodyMB (limits h) < 2 ^ 43 \<longrightarrow>
      body_limit h = MaxBodyMB (limits h) * 2 ^ 20)"
proof -
  let ?s1 = "stamped env r s"
  note t = touches_totals [OF touches_stamped [of s env r]]
  have unread: "StatusCode resp = 200 \<and>
      response_body resp \<in> {checkEventResponse, EncodeUTF16LE checkEventResponse} \<and> touches 1 s2 s3"
    if "answerUnreadableBody probe err s2 = (resp, s3)" for probe err s2 resp s3
    using touches_unreadable [OF that] that by (auto simp: answerUnreadableBody_def respond_def)
  have "\<exists>resp s'. ServeHTTP h env r s = Some (resp, s') \<and> StatusCode resp = 200 \<and>
    response_body resp \<in> {checkEventResponse, EncodeUTF16LE checkEventResponse} \<and>
    dropped s' = dropped s + 1 \<and> received s' = received s \<and>
    accepted (queue s') = accepted (queue s) \<and> slots s' = slots s"
  proof (cases "length (body_data r) \<le> 8192")
    case True
    obtain resp s2 where a: "answerUnreadableBody [] ErrBodyRead ?s1 = (resp, s2)" by fastforce
    then have "ServeHTTP h env r s = Some (resp, s2)" using True by (simp add: ServeHTTP_unreadable [OF assms(1,3)])
    then show ?thesis using unread [OF a] touches_totals [of 1 ?s1 s2] t by simp
  next
    case False
    let ?s2 = "?s1\<lparr>slots := slots s + 1\<rparr>"
    obtain resp s3 where a: "answerUnreadableBody (take 8193 (body_data r)) ErrBodyRead ?s2 = (resp, s3)"
      by fastforce
    then have "ServeHTTP h env r s = Some (resp, releaseSlot (enqueue h env r [] s3))"
      using False assms(2) by (simp add: ServeHTTP_unreadable [OF assms(1,3)])
    then show ?thesis using unread [OF a] touches_totals [of 1 ?s2 s3] t
        enqueue_totals [where h = h and env = env and r = r and events = "[]" and s = s3]
      by (simp add: enqueue_def)
  qed
  then show ?thesis using body_limit_configured by blast
qed

theorem unreadable_body_counted_witness:
  "\<exists>resp s'. ServeHTTP plain_handler plain_env ((put ''<CheckEv'')\<lparr>body_fails := True\<rparr>)
      (new_server (New new_store)) = Some (resp, s') \<and> dropped s' = 1"
  using unreadable_body_counted [of "(put ''<CheckEv'')\<lparr>body_fails := True\<rparr>"
      "new_server (New new_store)" plain_handler plain_env]
  by (auto simp: put_def accepted_method_def unreadable_def plain_limits new_server_def New_def new_store_def)

text \<open>The other losses: an event document that was acknowledged and then could not be parsed is
  counted, a body that cannot be transcoded or an unknown document that is no event batch
  is answered but not counted.\<close>

lemma unparsed_counted:
  assumes "write_ok env" "d = DialectCheckEventRequest \<and> parseCheckEventRequestDecoded (names env) x (clock_receive env) = Inl err \<or>
      d = DialectCheckFileRequest \<and> checkFileActionDecoded (names env) x \<noteq> OneFSHeartbeatAction \<and>
        parseOneFSEventDecoded (names env) x (clock_receive env) = Inl err"
    and "answer_body h env r body (Inr (d, x)) s = (resp, events, s')"
  shows "events = [] \<and> dropped s' = dropped s + 1"
  using assms
  by (auto simp: answer_body_def answer_check_event_def answer_check_file_def Let_def logUnhandled_def
      log_entry_def count_payload_lost_def count_dropped_def split: if_splits)

lemma undecoded_not_counted:
  "answer_body h env r body (Inl err) s = (resp, events, s') \<Longrightarrow> events = [] \<and> dropped s' = dropped s"
  "parseDecoded (names env) x (clock_receive env) = Inl err \<Longrightarrow>
   answer_body h env r body (Inr (DialectUnknown, x)) s = (resp, events, s') \<Longrightarrow>
   events = [] \<and> dropped s' = dropped s \<and> response_body resp = []"
  by (auto simp: answer_body_def answer_vcaps_def log_entry_def bare_ok_def)

section \<open>From the wire to the queue\<close>

lemma check_event_classified:
  assumes "request_ok q"
    and "body = print_node (request_doc q) \<or> body = EncodeUTF16LE (print_node (request_doc q))"
  shows "Classify body = Inr (DialectCheckEventRequest, print_node (request_doc q))"
    "parseCheckEventRequestDecoded nt (print_node (request_doc q)) t =
      (if q_Events q = [] then Inl (ErrNoEvents (q_Count q))
       else Inr (map (\<lambda>e. convertCheckEvent e t) (q_Events q)))"
proof -
  have ok: "ok_node (Elem ([], ''CheckEventRequest'') [] (request_children q))"
    using ok_request_doc [OF assms(1)] by (simp add: request_doc_def)
  note dec = DecodeBody_print [OF ok, folded request_doc_def]
  have d: "print_node (request_doc q) = ''<'' @ ''CheckEventRequest'' @ CHR ''>'' #
      (concat (map print_node (request_children q)) @ ''</CheckEventRequest>'')"
    by (simp add: request_doc_def)
  have b: "DecodeBody body = Inr (print_node (request_doc q))" using dec assms(2) by auto
  show "Classify body = Inr (DialectCheckEventRequest, print_node (request_doc q))"
    using Classify_root [OF b [unfolded d]] d by (simp add: root_names_def name_end_def dialect_of_def)
  show "parseCheckEventRequestDecoded nt (print_node (request_doc q)) t =
      (if q_Events q = [] then Inl (ErrNoEvents (q_Count q))
       else Inr (map (\<lambda>e. convertCheckEvent e t) (q_Events q)))"
    using ParseCheckEventRequest_doc [OF assms(1) disjI1 [OF refl], of nt t] dec(1)
    by (simp add: ParseCheckEventRequest_def del: print_node.simps)
qed

text \<open>C7: A delivery reaches the queue whole.  When CEE sends a document with \<open>n\<close> events, in
  UTF-8 or UTF-16LE, to a handler with a free slot and a queue with room, the \<open>n\<close> mapped
  events are appended to the queue in document order, all of them are counted as received,
  none as dropped, and the reply acknowledges the delivery in the publisher's encoding.\<close>

theorem delivery_reaches_queue:
  assumes "request_ok q" "q_Events q \<noteq> []"
    and "body_data r = print_node (request_doc q) \<or> body_data r = EncodeUTF16LE (print_node (request_doc q))"
    and "readable h r" "write_ok env" "slots s < slot_capacity h" "\<not> closed (queue s)"
    and "length (ch (queue s)) + length (q_Events q) \<le> capacity (q_config h)"
  shows "\<exists>s'. ServeHTTP h env r s =
      Some (respond (body_data r) checkEventResponse ''text/xml'', s') \<and>
    accepted (queue s') = accepted (queue s) @
      map (\<lambda>e. Map (os_Hostname env) (convertCheckEvent e (clock_receive env)) (event_host h r)) (q_Events q) \<and>
    received s' = received s + int (length (q_Events q)) \<and> dropped s' = dropped s \<and> slots s' = slots s"
proof -
  let ?es = "map (\<lambda>e. convertCheckEvent e (clock_receive env)) (q_Events q)"
  let ?ack = "respond (body_data r) checkEventResponse ''text/xml''"
  let ?s2 = "(stamped env r s)\<lparr>slots := slots s + 1\<rparr>"
  note c = check_event_classified(1) [OF assms(1,3)]
  have a: "answer_body h env r (body_data r) (Classify (body_data r)) s2 = (?ack, ?es, s2)" for s2
    using assms(2,5) check_event_classified(2) [OF assms(1) disjI1 [OF refl]]
    by (simp add: c answer_body_def answer_check_event_def Let_def del: print_node.simps)
  have "\<not> liveness (names env) (Classify (body_data r))"
    by (simp add: c liveness_def isLivenessDialect_def)
  then have sv: "ServeHTTP h env r s = Some (?ack, releaseSlot (enqueue h env r ?es ?s2))"
    using assms(6) by (simp add: ServeHTTP_readable [OF assms(4)] served_def a)
  note t = touches_totals [OF touches_stamped [of s env r]]
  have "accepted (queue (enqueue h env r ?es ?s2)) = accepted (queue s) @ map (mapped h env r) ?es \<and>
      dropped (enqueue h env r ?es ?s2) = dropped s"
    using enqueue_room [of "count_received (length ?es) ?s2" ?es h env r] assms(7,8) t
    by (simp add: enqueue_def)
  then show ?thesis
    using sv t enqueue_totals [where h = h and env = env and r = r and events = ?es and s = ?s2]
    by (simp add: mapped_def o_def)
qed

text \<open>A document with one event.\<close>

definition one_event_request :: checkEventRequest where
  "one_event_request = \<lparr>q_Count = ''1'', q_Events = [sample_event]\<rparr>"

definition delivery :: Request where
  "delivery = put (print_node (request_doc one_event_request))"

lemma one_event_request_ok:
  "request_ok one_event_request" "length (print_node (request_doc one_event_request)) \<le> 8192"
  "\<not> IsUTF16 (print_node (request_doc one_event_request))" "q_Events one_event_request = [sample_event]"
  by (simp_all add: one_event_request_def request_ok_def event_ok_def sample_event_def fields_ok_def
      event_fields_def ext_fields_def unmarshal_event_def attr_field_def xml_chars_def in_char_range_def
      request_doc_def request_children_def event_node_def attr_list_def EscapeText_def escape_char_def IsUTF16_def)

theorem delivery_reaches_queue_witness:
  "\<exists>s'. ServeHTTP plain_handler plain_env delivery (new_server (New new_store)) =
      Some (\<lparr>StatusCode = 200, ContentType = ''text/xml'', response_body = checkEventResponse\<rparr>, s') \<and>
    map w_ObjectName (accepted (queue s')) = [''/fs/<a>''] \<and> received s' = 1"
proof -
  let ?s = "new_server (New new_store)"
  have r: "readable plain_handler delivery" "body_data delivery = print_node (request_doc one_event_request)"
    using one_event_request_ok(2) readable_small [of delivery plain_handler]
    by (simp_all add: delivery_def put_def accepted_method_def del: print_node.simps)
  have k: "q_config plain_handler = one_worker" by (simp add: plain_handler_def NewHandler_def)
  have f: "x_EncodedPath sample_event = []" "x_Path sample_event = ''/fs/<a>''"
    by (simp_all add: sample_event_def unmarshal_event_def attr_field_def)
  show ?thesis
    using delivery_reaches_queue [of one_event_request delivery plain_handler plain_env ?s] r one_event_request_ok
    by (auto simp: plain_env_def plain_limits k new_server_def New_def new_store_def respond_def
        convertCheckEvent_def ceeEventPath_def f simp del: print_node.simps)
qed

theorem ServeHTTP_accounts_witness:
  "\<exists>resp s'. ServeHTTP plain_handler plain_env ((put ''<CheckEv'')\<lparr>body_fails := True\<rparr>)
      (new_server (New new_store)) = Some (resp, s') \<and> dropped s' = 1 \<and>
    (\<exists>lost \<in> {0, 1}. received s' - 0 + lost = int (length (accepted (queue s'))) - 0 + (dropped s' - 0) \<and>
      slots s' = 0)"
proof -
  let ?r = "(put ''<CheckEv'')\<lparr>body_fails := True\<rparr>" and ?s = "new_server (New new_store)"
  obtain resp s' where r: "answerUnreadableBody [] ErrBodyRead (stamped plain_env ?r ?s) = (resp, s')"
    by fastforce
  then have "ServeHTTP plain_handler plain_env ?r ?s = Some (resp, s')"
    by (simp add: ServeHTTP_def serve_start_def readProbe_def handshakeProbeBytes_def put_def
        stamped_def Let_def)
  moreover have "dropped s' = 1"
    using touches_totals(2) [OF touches_unreadable [OF r]] touches_totals(2) [OF touches_stamped [of ?s plain_env ?r]]
    by (simp add: new_server_def New_def new_store_def)
  ultimately show ?thesis
    using ServeHTTP_accounts [of plain_handler plain_env ?r ?s resp s']
    by (simp add: new_server_def New_def new_store_def)
qed

end
