(* ===== verification/Concurrent_Serving.thy ===== *)
theory Concurrent_Serving
  imports Serving
begin

text \<open>
  Many connections at once.  Every connection is a goroutine running \<^verbatim>\<open>ServeHTTP\<close>
  (\<^verbatim>\<open>pkg/server/server.go\<close>); the queue's workers (\<^verbatim>\<open>pkg/queue/queue.go\<close>) run beside them on
  the same queue and metrics.  A connection is modelled by where its handler stands, and a
  step is one stretch of it: up to the slot, the throttling count before a blocked wait,
  from the slot to the parsed events, one event of the enqueueing loop, and the deferred
  release.  The steps of one connection happen in this order; those of different
  connections and of the workers interleave in any way.
\<close>

section \<open>The system\<close>

datatype conn =
    Arrived environment Request
  | Parked environment Request bytes "(go_error + Dialect \<times> bytes) option" bool
  | Enqueueing environment Request bool Response "CEPAEvent list"
  | Answered Response

record System =
  srv :: Server
  conns :: "conn list"
  lost :: int

text \<open>\<open>lost\<close> is a history: the payloads the handlers themselves have counted as dropped.\<close>

definition initial :: "Handler \<Rightarrow> System" where
  "initial h = \<lparr>srv = new_server (started (q_config h)), conns = [], lost = 0\<rparr>"

definition start_conn :: "Handler \<Rightarrow> environment \<Rightarrow> Request \<Rightarrow> Server \<Rightarrow> conn \<times> Server" where
  "start_conn h env r s =
     (case serve_start env r s of
        (Finished resp, s1) \<Rightarrow> (Answered resp, s1)
      | (Live body c, s1) \<Rightarrow>
          (case answer_body h env r body c s1 of
             (resp, events, s2) \<Rightarrow> (Enqueueing env r False resp events, count_received (length events) s2))
      | (Need_slot probe c, s1) \<Rightarrow> (Parked env r probe c False, s1))"

definition slot_conn ::
  "Handler \<Rightarrow> environment \<Rightarrow> Request \<Rightarrow> bytes \<Rightarrow> (go_error + Dialect \<times> bytes) option \<Rightarrow> Server \<Rightarrow> conn \<times> Server" where
  "slot_conn h env r probe c s =
     (case serve_with_slot h env r probe c s of
        (resp, events, s1) \<Rightarrow> (Enqueueing env r True resp events, count_received (length events) s1))"

text \<open>A connection moves to its next place with the server it leaves behind.\<close>

definition move :: "nat \<Rightarrow> conn \<times> Server \<Rightarrow> System \<Rightarrow> System" where
  "move i p y = y\<lparr>srv := snd p, conns := (conns y)[i := fst p]\<rparr>"

definition move_counting :: "nat \<Rightarrow> conn \<times> Server \<Rightarrow> System \<Rightarrow> System" where
  "move_counting i p y = (move i p y)\<lparr>lost := lost y + (dropped (snd p) - dropped (srv y))\<rparr>"

inductive system_step :: "Handler \<Rightarrow> System \<Rightarrow> System \<Rightarrow> bool" for h where
  sy_connect: "system_step h y (y\<lparr>conns := conns y @ [Arrived env r]\<rparr>)"
| sy_start: "i < length (conns y) \<Longrightarrow> conns y ! i = Arrived env r \<Longrightarrow>
    system_step h y (move_counting i (start_conn h env r (srv y)) y)"
| sy_throttle: "i < length (conns y) \<Longrightarrow> conns y ! i = Parked env r probe c False \<Longrightarrow>
    slot_capacity h \<le> slots (srv y) \<Longrightarrow>
    system_step h y (move i (Parked env r probe c True, count_throttled (srv y)) y)"
| sy_slot: "i < length (conns y) \<Longrightarrow> conns y ! i = Parked env r probe c waited \<Longrightarrow>
    acquireSlot_now h (srv y) = Some s \<Longrightarrow>
    system_step h y (move_counting i (slot_conn h env r probe c s) y)"
| sy_enqueue: "i < length (conns y) \<Longrightarrow> conns y ! i = Enqueueing env r holds resp (e # es) \<Longrightarrow>
    system_step h y (move i (Enqueueing env r holds resp es, enqueue_one h env r e (srv y)) y)"
| sy_finish: "i < length (conns y) \<Longrightarrow> conns y ! i = Enqueueing env r holds resp [] \<Longrightarrow>
    system_step h y (move i (Answered resp, if holds then releaseSlot (srv y) else srv y) y)"
| sy_worker: "worker_step (q_config h) j (queue (srv y)) q' \<Longrightarrow>
    system_step h y (y\<lparr>srv := (srv y)\<lparr>queue := q'\<rparr>\<rparr>)"

abbreviation serving :: "Handler \<Rightarrow> System \<Rightarrow> bool" where
  "serving h y \<equiv> (system_step h)\<^sup>*\<^sup>* (initial h) y"

section \<open>The invariant\<close>

fun pending :: "conn \<Rightarrow> nat" where
  "pending (Enqueueing env r holds resp es) = length es"
| "pending c = 0"

fun holding :: "conn \<Rightarrow> nat" where
  "holding (Enqueueing env r True resp es) = 1"
| "holding c = 0"

definition slots_ok :: "Handler \<Rightarrow> System \<Rightarrow> bool" where
  "slots_ok h y \<longleftrightarrow> slots (srv y) = sum_list (map holding (conns y)) \<and> slots (srv y) \<le> slot_capacity h"

definition totals_ok :: "System \<Rightarrow> bool" where
  "totals_ok y \<longleftrightarrow>
     received (srv y) + lost y =
       int (length (accepted (queue (srv y)))) + dropped (srv y) + int (sum_list (map pending (conns y)))"

definition system_ok :: "Handler \<Rightarrow> System \<Rightarrow> bool" where
  "system_ok h y \<longleftrightarrow> queue_ok (q_config h) (queue (srv y)) \<and> slots_ok h y \<and> totals_ok y"

lemma sum_list_move:
  fixes f :: "conn \<Rightarrow> nat"
  assumes "i < length cs"
  shows "sum_list (map f (cs[i := c])) + f (cs ! i) = sum_list (map f cs) + f c"
  using assms
proof (induction cs arbitrary: i)
  case (Cons x xs)
  then show ?case by (cases i) (simp_all add: ac_simps)
qed simp

lemma move_simps [simp]:
  "srv (move i p y) = snd p" "srv (move_counting i p y) = snd p"
  "conns (move i p y) = (conns y)[i := fst p]" "conns (move_counting i p y) = (conns y)[i := fst p]"
  "lost (move i p y) = lost y" "lost (move_counting i p y) = lost y + (dropped (snd p) - dropped (srv y))"
  by (simp_all add: move_def move_counting_def)

text \<open>The queue's own invariant does not look at the counters a handler touches.\<close>

lemma queue_ok_met:
  assumes "queue_ok cfg q" "queue_counters m = queue_counters (met q)"
  shows "queue_ok cfg (q\<lparr>met := m\<rparr>)"
  using assms
  by (simp add: queue_ok_def bounds_ok_def flow_ok_def flight_ok_def outcome_ok_def close_ok_def
      workers_done_def queue_counters_def)

lemma queue_ok_received:
  assumes "queue_ok cfg (queue s)"
  shows "queue_ok cfg (queue (count_received n s))"
  using assms
  by (simp add: count_received_def update_met_def queue_ok_def bounds_ok_def flow_ok_def flight_ok_def
      outcome_ok_def close_ok_def workers_done_def)

lemma queue_ok_touches:
  assumes "touches d s s'" "queue_ok cfg (queue s)"
  shows "queue_ok cfg (queue s')"
proof -
  have "queue s' = (queue s)\<lparr>met := met (queue s')\<rparr>"
    "queue_counters (met (queue s')) = queue_counters (met (queue s))"
    using assms(1) by (simp_all add: touches_def)
  then show ?thesis using queue_ok_met [OF assms(2), of "met (queue s')"] by simp
qed

lemma queue_ok_enqueue_one:
  assumes "queue_ok (q_config h) (queue s)"
  shows "queue_ok (q_config h) (queue (enqueue_one h env r e s))"
proof -
  let ?s1 = "update_met (RecordEvent (EventType e) (Protocol e) (CEPAEvent.Server e)) s"
  have "queue_ok (q_config h) (queue ?s1)"
    by (rule queue_ok_touches [OF touches_met assms]) simp_all
  then show ?thesis by (simp add: enqueue_one_def Let_def Enqueue_ok)
qed

text \<open>Where a connection goes when it starts and when it gets its slot.\<close>

lemma start_conn_effect:
  assumes "start_conn h env r s = (c, s')"
  shows "\<exists>d. dropped s' = dropped s + d \<and>
      received s' = received s + int (pending c) \<and> accepted (queue s') = accepted (queue s) \<and>
      slots s' = slots s \<and> holding c = 0 \<and>
      (queue_ok cfg (queue s) \<longrightarrow> queue_ok cfg (queue s'))"
proof -
  obtain st s1 where st: "serve_start env r s = (st, s1)" by fastforce
  obtain d where d: "touches d s s1" using touches_start [OF st] by blast
  note t = touches_totals [OF d] and q = queue_ok_touches [OF d]
  show ?thesis
  proof (cases st)
    case (Live body c1)
    obtain resp events s2 where a: "answer_body h env r body c1 s1 = (resp, events, s2)"
      by (metis prod.collapse)
    obtain e where e: "touches e s1 s2" using touches_answer [OF a] by blast
    then show ?thesis
      using assms st Live a t q touches_totals [OF e] queue_ok_touches [OF e] queue_ok_received [of cfg s2]
      by (auto simp: start_conn_def)
  qed (use assms st t q in \<open>auto simp: start_conn_def\<close>)
qed

lemma slot_conn_effect:
  assumes "slot_conn h env r probe c1 s = (c, s')"
  shows "\<exists>d. dropped s' = dropped s + d \<and>
      received s' = received s + int (pending c) \<and> accepted (queue s') = accepted (queue s) \<and>
      slots s' = slots s \<and> holding c = 1 \<and>
      (queue_ok cfg (queue s) \<longrightarrow> queue_ok cfg (queue s'))"
proof -
  obtain resp events s1 where a: "serve_with_slot h env r probe c1 s = (resp, events, s1)"
    by (metis prod.collapse)
  obtain e where e: "touches e s s1" using touches_with_slot [OF a] by blast
  then show ?thesis
    using assms a touches_totals [OF e] queue_ok_touches [OF e] queue_ok_received [of cfg s1]
    by (auto simp: slot_conn_def)
qed

lemma worker_step_keeps:
  assumes "worker_step cfg i q q'"
  shows "EventsReceivedTotal (met q') = EventsReceivedTotal (met q)"
    "EventsDroppedTotal (met q') = EventsDroppedTotal (met q)" "accepted q' = accepted q"
  using assms
  by (cases rule: worker_step.cases;
      simp add: begin_write_def finish_write_def SetQueueDepth_def RecordEventAt_def Let_def)+

lemma initial_ok: "system_ok h (initial h)"
proof -
  have "EventsReceivedTotal (met (started cfg)) = 0" "EventsDroppedTotal (met (started cfg)) = 0"
    "accepted (started cfg) = []" for cfg
    by (simp_all add: started_def Start_def New_def new_store_def)
  then show ?thesis
    by (simp add: system_ok_def initial_def new_server_def started_ok slots_ok_def totals_ok_def)
qed

lemma system_step_ok:
  assumes "system_step h y y'" "system_ok h y"
  shows "system_ok h y'"
  using assms(1)
proof (cases rule: system_step.cases)
  case (sy_connect env r)
  then show ?thesis using assms(2) by (simp add: system_ok_def slots_ok_def totals_ok_def)
next
  case (sy_start i env r)
  obtain c s' where c: "start_conn h env r (srv y) = (c, s')" by fastforce
  from start_conn_effect [OF c, of "q_config h"] sum_list_move [OF sy_start(2), of pending c]
    sum_list_move [OF sy_start(2), of holding c] assms(2) show ?thesis
    by (auto simp: sy_start c system_ok_def slots_ok_def totals_ok_def)
next
  case (sy_throttle i env r probe c)
  have "touches 0 (srv y) (count_throttled (srv y))"
    unfolding count_throttled_def by (rule touches_met) (simp_all add: queue_counters_def)
  from touches_totals [OF this] queue_ok_touches [OF this, of "q_config h"]
    sum_list_move [OF sy_throttle(2), of pending "Parked env r probe c True"]
    sum_list_move [OF sy_throttle(2), of holding "Parked env r probe c True"] assms(2) show ?thesis
    by (simp add: sy_throttle system_ok_def slots_ok_def totals_ok_def)
next
  case (sy_slot i env r probe c waited s)
  obtain d s' where c: "slot_conn h env r probe c s = (d, s')" by fastforce
  have s: "slots s = slots (srv y) + 1" "queue s = queue (srv y)" "slots (srv y) < slot_capacity h"
    using sy_slot(4) by (simp_all add: acquireSlot_now_Some)
  have y': "y' = move_counting i (d, s') y" using sy_slot(1) c by simp
  from slot_conn_effect [OF c, of "q_config h"] sum_list_move [OF sy_slot(2), of pending d]
    sum_list_move [OF sy_slot(2), of holding d] assms(2) s show ?thesis
    by (auto simp: y' sy_slot(3) system_ok_def slots_ok_def totals_ok_def)
next
  case (sy_enqueue i env r holds resp e es)
  let ?c = "Enqueueing env r holds resp es"
  have "holding ?c = holding (conns y ! i)" by (cases holds) (simp_all add: sy_enqueue(3))
  moreover have "int (length (accepted (queue (enqueue_one h env r e (srv y))))) +
      dropped (enqueue_one h env r e (srv y)) = int (length (accepted (queue (srv y)))) + dropped (srv y) + 1"
    using enqueue_one_totals(3) [of "srv y" h env r e] by (auto split: if_splits)
  moreover note enqueue_one_totals(1,2) [where h = h and env = env and r = r and e = e and s = "srv y"]
    queue_ok_enqueue_one [of h "srv y" env r e] sum_list_move [OF sy_enqueue(2), of pending ?c]
    sum_list_move [OF sy_enqueue(2), of holding ?c]
  ultimately show ?thesis using assms(2)
    by (auto simp: sy_enqueue(1,3) system_ok_def slots_ok_def totals_ok_def)
next
  case (sy_finish i env r holds resp)
  from sum_list_move [OF sy_finish(2), of pending "Answered resp"]
    sum_list_move [OF sy_finish(2), of holding "Answered resp"] assms(2) show ?thesis
    by (cases holds) (auto simp: sy_finish system_ok_def slots_ok_def totals_ok_def)
next
  case (sy_worker j q')
  have "queue_ok (q_config h) q'"
    using queue_step_ok [OF qs_worker [OF sy_worker(2)]] assms(2) by (simp add: system_ok_def)
  then show ?thesis using worker_step_keeps [OF sy_worker(2)] assms(2)
    by (simp add: sy_worker system_ok_def slots_ok_def totals_ok_def)
qed

interpretation system_runs: invariant "system_step h" "system_ok h" "initial h" for h
  by unfold_locales (auto intro: initial_ok system_step_ok)

lemmas serving_ok = system_runs.reached

section \<open>Properties\<close>

text \<open>C6: Every event the exporter has received is in exactly one place, at every moment and
  under every interleaving of connections and workers: the received counter and the
  payloads the handlers counted as lost add up to the events still to be enqueued by some
  handler, those in the channel, those in a worker's batch, those handed to the writer, and
  the dropped counter.\<close>

theorem serving_conserves_events:
  assumes "serving h y"
  shows "received (srv y) + lost y =
    int (sum_list (map pending (conns y))) + int (length (ch (queue (srv y)))) +
    int (length (concat (map held (pool (queue (srv y)))))) +
    int (length (concat (map fst (written (queue (srv y)))))) + dropped (srv y)"
proof -
  have ok: "system_ok h y" by (rule serving_ok [OF assms])
  then have "mset (accepted (queue (srv y))) = mset (ch (queue (srv y))) +
      mset (concat (map held (pool (queue (srv y))))) + mset (concat (map fst (written (queue (srv y)))))"
    by (intro flow_mset) (simp add: system_ok_def queue_ok_def)
  from arg_cong [OF this, of size] have "length (accepted (queue (srv y))) = length (ch (queue (srv y))) +
      length (concat (map held (pool (queue (srv y))))) + length (concat (map fst (written (queue (srv y)))))"
    by (simp only: size_union size_mset)
  then show ?thesis using ok by (simp add: system_ok_def totals_ok_def)
qed

text \<open>C20: The slots bound what is in flight and none is lost.  Under every interleaving the
  slots taken are exactly the connections that hold one, they never exceed the configured
  number, and once no connection holds one all are free again.\<close>

theorem slots_bounded:
  assumes "serving h y"
  shows "slots (srv y) = length (filter (\<lambda>c. holding c = 1) (conns y)) \<and> slots (srv y) \<le> slot_capacity h"
proof -
  have "holding c \<le> 1" for c by (cases c rule: holding.cases) simp_all
  then have "sum_list (map holding cs) = length (filter (\<lambda>c. holding c = 1) cs)" for cs
  proof (induction cs)
    case (Cons c cs)
    have "holding c = 0 \<or> holding c = 1" using Cons.prems [of c] by linarith
    then show ?case using Cons by auto
  qed simp
  then show ?thesis using serving_ok [OF assms] by (simp add: system_ok_def slots_ok_def)
qed

text \<open>A run for the witnesses: one connection with an empty body takes the only slot.\<close>

definition one_served :: System where
  "one_served =
     (let r = put ''<CheckEventRequest>'';
          y1 = (initial plain_handler)\<lparr>conns := [Arrived plain_env r]\<rparr>;
          y2 = move_counting 0 (start_conn plain_handler plain_env r (srv y1)) y1 in
      move_counting 0 (slot_conn plain_handler plain_env r ''<CheckEventRequest>''
        (Some (Classify ''<CheckEventRequest>'')) ((srv y2)\<lparr>slots := 1\<rparr>)) y2)"

lemma serving_one: "serving plain_handler one_served"
proof -
  let ?r = "put ''<CheckEventRequest>''" and ?h = plain_handler
  let ?c = "Classify ''<CheckEventRequest>''"
  let ?y1 = "(initial ?h)\<lparr>conns := [Arrived plain_env ?r]\<rparr>"
  let ?y2 = "move_counting 0 (start_conn ?h plain_env ?r (srv ?y1)) ?y1"
  have c: "?c = Inr (DialectCheckEventRequest, ''<CheckEventRequest>'')"
    using Classify_root [of "''<CheckEventRequest>''" "''CheckEventRequest''" "CHR ''>''" "[]"]
    by (simp add: DecodeBody_def root_names_def name_end_def dialect_of_def)
  have st: "serve_start plain_env ?r s = (Need_slot ''<CheckEventRequest>'' (Some ?c), stamped plain_env ?r s)" for s
    using serve_start_readable [of ?r plain_env s]
    by (simp add: put_def accepted_method_def c liveness_def isLivenessDialect_def)
  have "slots (srv ?y2) = 0"
    using touches_totals(3) [OF touches_stamped [of "srv (initial ?h)" plain_env ?r]]
    by (simp add: start_conn_def st initial_def new_server_def)
  then have a: "acquireSlot_now ?h (srv ?y2) = Some ((srv ?y2)\<lparr>slots := 1\<rparr>)"
    by (simp add: acquireSlot_now_def plain_limits)
  have s1: "system_step ?h (initial ?h) ?y1"
    using sy_connect [of ?h "initial ?h" plain_env ?r] by (simp add: initial_def)
  have s2: "system_step ?h ?y1 ?y2" by (rule sy_start) simp_all
  have s3: "system_step ?h ?y2 one_served"
    unfolding one_served_def Let_def
    by (rule sy_slot [OF _ _ a, where waited = False]) (simp_all add: start_conn_def st)
  show ?thesis using s1 s2 s3 by (meson converse_rtranclp_into_rtranclp rtranclp.rtrancl_refl)
qed

theorem serving_conserves_events_witness:
  "received (srv one_served) + lost one_served =
    int (sum_list (map pending (conns one_served))) + int (length (ch (queue (srv one_served)))) +
    int (length (concat (map held (pool (queue (srv one_served)))))) +
    int (length (concat (map fst (written (queue (srv one_served)))))) + dropped (srv one_served)"
  by (rule serving_conserves_events [OF serving_one])

theorem slots_bounded_witness:
  "slots (srv one_served) = length (filter (\<lambda>c. holding c = 1) (conns one_served)) \<and>
   slots (srv one_served) \<le> 1"
  using slots_bounded [OF serving_one] by (simp add: plain_limits)

end
