(* ===== verification/Writer_Core.thy ===== *)
theory Writer_Core
  imports Mapper Utf16 "HOL-Library.Sublist"
begin

text \<open>
  What the output writers of \<^verbatim>\<open>pkg/evtx\<close> share (\<^verbatim>\<open>writer.go\<close>): the errors they report, the
  retry loop, the serial batch, and the network connection they write to.  A connection is
  modelled by what the network will do, one outcome for each coming write and each coming
  dial (success once the script has run out), and by what has gone out on it, the pieces of
  failed writes included.
\<close>

section \<open>Errors\<close>

datatype write_error =
    WriteFailed
  | DialFailed
  | BuildFailed
  | RecordFailed nat
  | Send_reconnect write_error write_error
  | After_reconnect write_error
  | At_event string nat nat write_error
  | Wrapped string write_error
  | Refused string
  | Joined "write_error list"

text \<open>\<^verbatim>\<open>errors.Join\<close>: \<open>None\<close> is Go's nil error.\<close>

definition errors_Join :: "write_error list \<Rightarrow> write_error option" where
  "errors_Join errs = (if errs = [] then None else Some (Joined errs))"

fun error_list :: "write_error option \<Rightarrow> write_error list" where
  "error_list None = []"
| "error_list (Some e) = [e]"

lemma errors_Join_None [simp]: "errors_Join errs = None \<longleftrightarrow> errs = []"
  by (simp add: errors_Join_def)

section \<open>Shared operations\<close>

definition ShortMessage :: "WindowsEvent \<Rightarrow> string" where
  "ShortMessage e = w_CEPAEventType e @ '' on '' @ w_ObjectName e"

text \<open>\<^verbatim>\<open>net.JoinHostPort\<close>.\<close>

definition hostPort :: "string \<Rightarrow> int \<Rightarrow> string" where
  "hostPort host port =
     (if CHR '':'' \<in> set host then ''['' @ host @ '']:'' @ Itoa port else host @ '':'' @ Itoa port)"

definition sendWithRetry ::
  "('s \<Rightarrow> write_error option \<times> 's) \<Rightarrow> ('s \<Rightarrow> write_error option \<times> 's) \<Rightarrow> 's \<Rightarrow> write_error option \<times> 's" where
  "sendWithRetry send reconnect s =
     (case send s of
        (None, s1) \<Rightarrow> (None, s1)
      | (Some err, s1) \<Rightarrow>
          (case reconnect s1 of
             (Some rerr, s2) \<Rightarrow> (Some (Send_reconnect err rerr), s2)
           | (None, s2) \<Rightarrow>
               (case send s2 of
                  (Some err2, s3) \<Rightarrow> (Some (After_reconnect err2), s3)
                | (None, s3) \<Rightarrow> (None, s3))))"

text \<open>\<^verbatim>\<open>writeBatchSerially\<close> with the writer's own \<^verbatim>\<open>WriteEvent\<close>; \<open>i\<close> is the index of the loop and
  \<open>n\<close> the length of the batch.\<close>

fun serial_loop ::
  "(WindowsEvent \<Rightarrow> 's \<Rightarrow> write_error option \<times> 's) \<Rightarrow> nat \<Rightarrow> nat \<Rightarrow> WindowsEvent list \<Rightarrow> 's \<Rightarrow>
    write_error list \<times> 's" where
  "serial_loop write i n [] s = ([], s)"
| "serial_loop write i n (e # es) s =
     (case write e s of (r, s1) \<Rightarrow>
        (case serial_loop write (i + 1) n es s1 of (errs, s2) \<Rightarrow>
           (map (At_event ''batch'' (i + 1) n) (error_list r) @ errs, s2)))"

definition writeBatchSerially ::
  "(WindowsEvent \<Rightarrow> 's \<Rightarrow> write_error option \<times> 's) \<Rightarrow> WindowsEvent list \<Rightarrow> 's \<Rightarrow> write_error option \<times> 's" where
  "writeBatchSerially write events s =
     (case serial_loop write 0 (length events) events s of (errs, s1) \<Rightarrow> (errors_Join errs, s1))"

section \<open>Connections\<close>

text \<open>
  A write of the network takes the whole payload, or fails when some of its bytes, from none
  to all, have already gone out: a deadline can expire in the middle of a \<^verbatim>\<open>Write\<close>.  The traffic
  of a writer is what went out in order, with a mark for every new connection.  A dial is
  listed with its outcome when it returns; a dial that never returns is a call that never
  ends.
\<close>

datatype write_outcome = Wrote_all | Broke nat

datatype traffic = Dialled | Whole bytes | Cut bytes

record socket =
  write_script :: "write_outcome list"
  dial_script :: "bool list"
  wire :: "traffic list"
  sock_open :: bool
  close_error :: "write_error option"

text \<open>The next outcome of a script.\<close>

definition next_outcome :: "bool list \<Rightarrow> bool" where
  "next_outcome s = (case s of [] \<Rightarrow> True | ok # rest \<Rightarrow> ok)"

definition next_write :: "write_outcome list \<Rightarrow> write_outcome" where
  "next_write s = (case s of [] \<Rightarrow> Wrote_all | o1 # rest \<Rightarrow> o1)"

definition sock_write :: "bytes \<Rightarrow> socket \<Rightarrow> write_error option \<times> socket" where
  "sock_write b k =
     (if \<not> sock_open k then (Some WriteFailed, k)
      else case next_write (write_script k) of
        Wrote_all \<Rightarrow> (None, k\<lparr>write_script := tl (write_script k), wire := wire k @ [Whole b]\<rparr>)
      | Broke n \<Rightarrow> (Some WriteFailed, k\<lparr>write_script := tl (write_script k), wire := wire k @ [Cut (take n b)]\<rparr>))"

text \<open>A successful dial replaces the connection; a failed one leaves the old connection in place,
  with whatever has gone out on it.\<close>

definition sock_dial :: "socket \<Rightarrow> write_error option \<times> socket" where
  "sock_dial k =
     (if next_outcome (dial_script k)
      then (None, k\<lparr>dial_script := tl (dial_script k), wire := wire k @ [Dialled], sock_open := True\<rparr>)
      else (Some DialFailed, k\<lparr>dial_script := tl (dial_script k)\<rparr>))"

text \<open>Closing reports the error the network has for it; a write on a closed connection fails.\<close>

definition sock_close :: "socket \<Rightarrow> write_error option \<times> socket" where
  "sock_close k = (if sock_open k then (close_error k, k\<lparr>sock_open := False\<rparr>) else (Some WriteFailed, k))"

definition retrySend :: "bytes \<Rightarrow> socket \<Rightarrow> write_error option \<times> socket" where
  "retrySend b = sendWithRetry (sock_write b) sock_dial"

section \<open>At least once\<close>

text \<open>What one attempt that failed can have left, what a send with retry leaves when it
  succeeds, and what when it gives up.  A success may follow a cut copy of itself, on the
  connection before.\<close>

definition broken :: "bytes \<Rightarrow> traffic list \<Rightarrow> bool" where
  "broken b t \<longleftrightarrow> (case t of [] \<Rightarrow> True | [Cut c] \<Rightarrow> starts_with c b | _ \<Rightarrow> False)"

definition landed :: "bytes \<Rightarrow> traffic list \<Rightarrow> bool" where
  "landed b t \<longleftrightarrow> t = [Whole b] \<or>
     drop (length t - 2) t = [Dialled, Whole b] \<and> broken b (take (length t - 2) t)"

definition gave_up :: "bytes \<Rightarrow> traffic list \<Rightarrow> bool" where
  "gave_up b t \<longleftrightarrow> broken b t \<or>
     list_ex (\<lambda>i. t ! i = Dialled \<and> broken b (take i t) \<and> broken b (drop (Suc i) t)) [0..<length t]"

text \<open>The payloads that went out whole, and the pieces of which traffic is made.\<close>

fun wholes :: "traffic list \<Rightarrow> bytes list" where
  "wholes [] = []"
| "wholes (Whole b # t) = b # wholes t"
| "wholes (_ # t) = wholes t"

fun piece_of :: "bytes list \<Rightarrow> traffic \<Rightarrow> bool" where
  "piece_of ps Dialled = True"
| "piece_of ps (Whole b) = (b \<in> set ps)"
| "piece_of ps (Cut c) = list_ex (starts_with c) ps"

text \<open>What the peer has got on the connection that is open.\<close>

fun stream_onto :: "bytes \<Rightarrow> traffic list \<Rightarrow> bytes" where
  "stream_onto s [] = s"
| "stream_onto s (Dialled # t) = stream_onto [] t"
| "stream_onto s (Whole b # t) = stream_onto (s @ b) t"
| "stream_onto s (Cut c # t) = stream_onto (s @ c) t"

definition stream :: "traffic list \<Rightarrow> bytes" where
  "stream = stream_onto []"

lemma stream_onto_append: "stream_onto s (t @ u) = stream_onto (stream_onto s t) u"
  by (induction s t rule: stream_onto.induct) simp_all

lemma stream_append: "stream (t @ u) = stream_onto (stream t) u"
  by (simp add: stream_def stream_onto_append)

lemma wholes_append [simp]: "wholes (t @ u) = wholes t @ wholes u"
  by (induction t rule: wholes.induct) simp_all

lemma starts_with_take [simp]: "starts_with (take n b) b"
  by (metis append_take_drop_id starts_with_append)

lemma broken_cases: "broken b t \<longleftrightarrow> t = [] \<or> (\<exists>c. t = [Cut c] \<and> starts_with c b)"
proof (cases t)
  case (Cons x u)
  then show ?thesis by (cases x; cases u) (simp_all add: broken_def)
qed (simp add: broken_def)

lemma landed_cases: "landed b t \<longleftrightarrow> t = [Whole b] \<or> (\<exists>c. broken b c \<and> t = c @ [Dialled, Whole b])"
proof
  assume "landed b t"
  then show "t = [Whole b] \<or> (\<exists>c. broken b c \<and> t = c @ [Dialled, Whole b])"
    unfolding landed_def by (metis append_take_drop_id)
qed (auto simp: landed_def)

lemma gave_up_cases:
  "gave_up b t \<longleftrightarrow> broken b t \<or> (\<exists>c d. broken b c \<and> broken b d \<and> t = c @ Dialled # d)"
proof
  assume "gave_up b t"
  then consider "broken b t"
    | i where "i < length t" "t ! i = Dialled" "broken b (take i t)" "broken b (drop (Suc i) t)"
    by (auto simp: gave_up_def list_ex_iff)
  then show "broken b t \<or> (\<exists>c d. broken b c \<and> broken b d \<and> t = c @ Dialled # d)"
    by cases (metis, metis id_take_nth_drop)
next
  assume "broken b t \<or> (\<exists>c d. broken b c \<and> broken b d \<and> t = c @ Dialled # d)"
  then consider "broken b t" | c d where "broken b c" "broken b d" "t = c @ Dialled # d" by blast
  then show "gave_up b t"
  proof cases
    case 2
    then have "t ! length c = Dialled \<and> broken b (take (length c) t) \<and> broken b (drop (Suc (length c)) t)"
      "length c < length t" by simp_all
    then show ?thesis unfolding gave_up_def list_ex_iff by (metis atLeastLessThan_iff le0 set_upt)
  qed (simp add: gave_up_def)
qed

lemma sock_write_wire:
  assumes "sock_write b k = (r, k')"
  shows "\<exists>t. wire k' = wire k @ t \<and> (if r = None then t = [Whole b] else broken b t)"
  using assms by (auto simp: sock_write_def broken_cases split: if_splits write_outcome.splits)

lemma sock_dial_wire:
  "sock_dial k = (r, k') \<Longrightarrow> wire k' = wire k @ (if r = None then [Dialled] else [])"
  by (auto simp: sock_dial_def split: if_splits)

text \<open>A send with retry that succeeds has put the payload on the wire whole, and one that fails
  has not, but pieces of it may be there in both cases.\<close>

lemma retrySend_wire:
  assumes "retrySend b k = (r, k')"
  shows "\<exists>t. wire k' = wire k @ t \<and> (if r = None then landed b t else gave_up b t)"
proof -
  obtain r1 k1 where 1: "sock_write b k = (r1, k1)" by fastforce
  obtain t1 where t1: "wire k1 = wire k @ t1" "if r1 = None then t1 = [Whole b] else broken b t1"
    using sock_write_wire [OF 1] by blast
  obtain r2 k2 where 2: "sock_dial k1 = (r2, k2)" by fastforce
  obtain r3 k3 where 3: "sock_write b k2 = (r3, k3)" by fastforce
  obtain t3 where t3: "wire k3 = wire k2 @ t3" "if r3 = None then t3 = [Whole b] else broken b t3"
    using sock_write_wire [OF 3] by blast
  show ?thesis
    using assms 1 2 3 t1 t3 sock_dial_wire [OF 2]
    by (cases r1; cases r2; cases r3)
      (fastforce simp: retrySend_def sendWithRetry_def landed_cases gave_up_cases)+
qed

lemma landed_wholes: "landed b t \<Longrightarrow> wholes t = [b] \<and> list_all (piece_of [b]) t"
  by (auto simp: landed_cases broken_cases)

lemma gave_up_wholes: "gave_up b t \<Longrightarrow> wholes t = [] \<and> list_all (piece_of [b]) t"
  by (auto simp: gave_up_cases broken_cases)

lemma landed_stream: "landed b t \<Longrightarrow> stream (w @ t) = stream w @ b \<or> stream (w @ t) = b"
  by (auto simp: landed_cases stream_append stream_onto_append)

lemma piece_of_mono: "piece_of ps x \<Longrightarrow> set ps \<subseteq> set qs \<Longrightarrow> piece_of qs x"
  by (cases x) (auto simp: list_ex_iff)

text \<open>What the retry needs: the first write, or a reconnection and the second.\<close>

lemma retrySend_outcome:
  "fst (retrySend b k) = None \<longleftrightarrow>
     sock_open k \<and> next_write (write_script k) = Wrote_all \<or>
     next_outcome (dial_script k) \<and> next_write ((if sock_open k then tl else id) (write_script k)) = Wrote_all"
  by (simp add: retrySend_def sendWithRetry_def sock_write_def sock_dial_def split: write_outcome.split)

section \<open>Framed batches\<close>

text \<open>The body of the batch methods of the GELF and the syslog writer, which the source has
  twice: build every payload first, then one framed write (a stream) or one datagram each.\<close>

definition build_errors :: "string \<Rightarrow> (WindowsEvent \<Rightarrow> bytes option) \<Rightarrow> WindowsEvent list \<Rightarrow> write_error list" where
  "build_errors name build events =
     concat (map (\<lambda>(i, e). case build e of None \<Rightarrow> [At_event (name @ '' build'') (i + 1) (length events) BuildFailed]
                                       | Some p \<Rightarrow> []) (zip [0..<length events] events))"

definition payloads_of :: "(WindowsEvent \<Rightarrow> bytes option) \<Rightarrow> WindowsEvent list \<Rightarrow> bytes list" where
  "payloads_of build events = List.map_filter build events"

fun send_datagrams :: "string \<Rightarrow> nat \<Rightarrow> nat \<Rightarrow> bytes list \<Rightarrow> socket \<Rightarrow> write_error list \<times> socket" where
  "send_datagrams name i n [] k = ([], k)"
| "send_datagrams name i n (p # ps) k =
     (case retrySend p k of (r, k1) \<Rightarrow>
        (case send_datagrams name (i + 1) n ps k1 of (errs, k2) \<Rightarrow>
           (map (At_event (name @ '' batch'') (i + 1) n) (error_list r) @ errs, k2)))"

definition framed_batch ::
  "string \<Rightarrow> bool \<Rightarrow> (WindowsEvent \<Rightarrow> bytes option) \<Rightarrow> (bytes \<Rightarrow> bytes) \<Rightarrow> WindowsEvent list \<Rightarrow> socket \<Rightarrow>
    write_error option \<times> socket" where
  "framed_batch name tcp build frame events k =
     (if events = [] then (None, k)
      else
        (let buildErrs = build_errors name build events; payloads = payloads_of build events in
         if payloads = [] then (errors_Join buildErrs, k)
         else if tcp then
           (case retrySend (concat (map frame payloads)) k of
              (Some err, k1) \<Rightarrow> (errors_Join (buildErrs @ [Wrapped (name @ '' batch'') err]), k1)
            | (None, k1) \<Rightarrow> (errors_Join buildErrs, k1))
         else
           (case send_datagrams name 0 (length payloads) payloads k of
              (errs, k1) \<Rightarrow> (errors_Join (buildErrs @ errs), k1))))"

definition framed_event ::
  "string \<Rightarrow> bool \<Rightarrow> (WindowsEvent \<Rightarrow> bytes option) \<Rightarrow> (bytes \<Rightarrow> bytes) \<Rightarrow> WindowsEvent \<Rightarrow> socket \<Rightarrow>
    write_error option \<times> socket" where
  "framed_event name tcp build frame e k =
     (case build e of
        None \<Rightarrow> (Some (Wrapped (name @ '' build'') BuildFailed), k)
      | Some payload \<Rightarrow>
          (case retrySend (if tcp then frame payload else payload) k of
             (Some err, k1) \<Rightarrow> (Some (Wrapped name err), k1)
           | (None, k1) \<Rightarrow> (None, k1)))"

section \<open>What a batch leaves on the wire\<close>

lemma build_errors_length:
  "length (build_errors name build events) + length (payloads_of build events) = length events"
proof -
  have "length (concat (map (\<lambda>(i, e). case build e of None \<Rightarrow> [At_event nm (i + 1) n BuildFailed] | Some p \<Rightarrow> [])
      (zip [m..<m + length events] events))) + length (payloads_of build events) = length events" for nm n m
  proof (induction events arbitrary: m)
    case (Cons e es)
    have z: "[m..<m + length (e # es)] = m # [Suc m..<Suc m + length es]"
      by (subst upt_conv_Cons) (simp_all del: upt_Suc)
    show ?case unfolding z using Cons [of "Suc m"]
      by (simp add: payloads_of_def List.map_filter_simps del: upt_Suc split: option.splits)
  qed (simp add: payloads_of_def List.map_filter_simps)
  from this [where m = 0 and n = "length events" and nm = "name @ '' build''"] show ?thesis
    by (simp add: build_errors_def)
qed

lemma payloads_of_all:
  "length (payloads_of build events) = length events \<Longrightarrow>
    list_all (\<lambda>e. build e \<noteq> None) events \<and> payloads_of build events = map (the \<circ> build) events"
proof (induction events)
  case (Cons e es)
  have "length (payloads_of build es) \<le> length es"
    using build_errors_length [of "[]" build es] by simp
  then show ?case using Cons
    by (auto simp: payloads_of_def List.map_filter_simps split: option.splits)
qed (simp add: payloads_of_def List.map_filter_simps)

lemma payloads_of_set: "p \<in> set (payloads_of build events) \<Longrightarrow> \<exists>e \<in> set events. build e = Some p"
  by (auto simp: payloads_of_def List.map_filter_def)

lemma stream_batch:
  assumes "framed_batch name True build frame events k = (r, k')" "payloads_of build events \<noteq> []"
  shows "\<exists>t. wire k' = wire k @ t \<and>
    (landed (concat (map frame (payloads_of build events))) t \<and> r = errors_Join (build_errors name build events) \<or>
     gave_up (concat (map frame (payloads_of build events))) t \<and> r \<noteq> None)"
proof -
  have "events \<noteq> []" using assms(2) by (auto simp: payloads_of_def List.map_filter_simps)
  moreover obtain q k1 where q: "retrySend (concat (map frame (payloads_of build events))) k = (q, k1)"
    by fastforce
  ultimately show ?thesis using assms retrySend_wire [OF q]
    by (cases q) (auto simp: framed_batch_def Let_def errors_Join_def)
qed

lemma stream_batch_nil:
  assumes "framed_batch name True build frame events k = (None, k')" "events \<noteq> []"
  shows "payloads_of build events = map (the \<circ> build) events \<and>
    (\<exists>t. wire k' = wire k @ t \<and> landed (concat (map frame (map (the \<circ> build) events))) t)"
proof -
  have ne: "payloads_of build events \<noteq> []"
  proof
    assume "payloads_of build events = []"
    then show False using assms build_errors_length [of name build events]
      by (auto simp: framed_batch_def Let_def errors_Join_def split: if_splits)
  qed
  from stream_batch [OF assms(1) ne] obtain t where
    w: "wire k' = wire k @ t" "landed (concat (map frame (payloads_of build events))) t"
    "build_errors name build events = []"
    by (auto simp: errors_Join_def split: if_splits)
  with build_errors_length [of name build events] payloads_of_all [of build events]
  show ?thesis by auto
qed

lemma datagrams_accounted:
  assumes "send_datagrams name i n ps k = (errs, k')"
  shows "\<exists>t. wire k' = wire k @ t \<and> subseq (wholes t) ps \<and> list_all (piece_of ps) t \<and>
    length errs + length (wholes t) = length ps"
  using assms
proof (induction ps arbitrary: i k errs)
  case (Cons p ps)
  obtain r k1 where r: "retrySend p k = (r, k1)" by fastforce
  obtain es k2 where e: "send_datagrams name (i + 1) n ps k1 = (es, k2)" by fastforce
  have k': "k' = k2" "errs = map (At_event (name @ '' batch'') (i + 1) n) (error_list r) @ es"
    using Cons.prems r e by simp_all
  obtain t where t: "wire k' = wire k1 @ t" "subseq (wholes t) ps" "list_all (piece_of ps) t"
    "length es + length (wholes t) = length ps"
    using Cons.IH [of "i + 1" k1 es] e k'(1) by blast
  obtain u where u: "wire k1 = wire k @ u" "if r = None then landed p u else gave_up p u"
    using retrySend_wire [OF r] by blast
  have "list_all (piece_of (p # ps)) u"
    using u(2) landed_wholes gave_up_wholes piece_of_mono [of "[p]" _ "p # ps"]
    by (fastforce simp: list_all_iff split: if_splits)
  moreover have "list_all (piece_of (p # ps)) t"
    using t(3) piece_of_mono [of ps _ "p # ps"] by (auto simp: list_all_iff)
  moreover have "wholes u = (if r = None then [p] else [])"
    using u(2) landed_wholes gave_up_wholes by (auto split: if_splits)
  ultimately show ?case using t u(1) k'(2)
    by (intro exI [of _ "u @ t"]) (cases r, auto simp: list_emb_Cons)
qed (simp add: list.rel_eq)

lemma datagram_batch:
  assumes "framed_batch name False build frame events k = (r, k')"
  shows "\<exists>t errs. wire k' = wire k @ t \<and> subseq (wholes t) (payloads_of build events) \<and>
    list_all (piece_of (payloads_of build events)) t \<and>
    r = errors_Join errs \<and> length errs + length (wholes t) = length events"
proof (cases "payloads_of build events = []")
  case True
  then show ?thesis using assms build_errors_length [of name build events]
    by (intro exI [of _ "[]"] exI [of _ "build_errors name build events"])
       (auto simp: framed_batch_def errors_Join_def Let_def split: if_splits)
next
  case False
  then have "events \<noteq> []" by (auto simp: payloads_of_def List.map_filter_simps)
  obtain errs k1 where e: "send_datagrams name 0 (length (payloads_of build events)) (payloads_of build events) k = (errs, k1)"
    by fastforce
  obtain t where "wire k1 = wire k @ t" "subseq (wholes t) (payloads_of build events)"
    "list_all (piece_of (payloads_of build events)) t"
    "length errs + length (wholes t) = length (payloads_of build events)"
    using datagrams_accounted [OF e] by blast
  then show ?thesis using assms False \<open>events \<noteq> []\<close> e build_errors_length [of name build events]
    by (intro exI [of _ t] exI [of _ "build_errors name build events @ errs"])
       (auto simp: framed_batch_def Let_def)
qed

text \<open>A writer whose frames delimit themselves: what it sends as one write can be split again.\<close>

locale framed_writer = stream_codec frame unframe ok
  for frame :: "bytes \<Rightarrow> bytes" and unframe :: "bytes \<Rightarrow> (bytes \<times> bytes) option" and ok :: "bytes \<Rightarrow> bool" +
  fixes build :: "WindowsEvent \<Rightarrow> bytes option"
  assumes build_ok: "build e = Some p \<Longrightarrow> ok p"
begin

lemma payloads_read_back:
  "read_frames (length (payloads_of build events)) (concat (map frame (payloads_of build events))) =
    Some (payloads_of build events)"
  using payloads_of_set build_ok by (intro read_frames_concat) blast+

lemma batch_read_back:
  assumes "framed_batch name True build frame events k = (None, k')" "events \<noteq> []"
  shows "\<exists>t s. wire k' = wire k @ t \<and> landed s t \<and> s = concat (map frame (map (the \<circ> build) events)) \<and>
    read_frames (length events) s = Some (map (the \<circ> build) events)"
  using stream_batch_nil [OF assms] payloads_read_back [of events] by auto

text \<open>What the receiver reads: after what it had read on the connection so far, if that was whole
  frames, or from the start of a new connection.\<close>

lemma stream_read_back:
  assumes "landed (concat (map frame ps)) t" "stream w = concat (map frame ds)" "list_all ok ds" "list_all ok ps"
  shows "read_frames (length ds + length ps) (stream (w @ t)) \<in> {Some (ds @ ps), Some ps}"
proof -
  have "stream (w @ t) = concat (map frame (ds @ ps)) \<or> stream (w @ t) = concat (map frame ps)"
    using landed_stream [OF assms(1), of w] assms(2) by simp
  moreover have "read_frames (length ds + length ps) (concat (map frame (ds @ ps))) = Some (ds @ ps)"
    by (rule read_frames_concat) (use assms(3,4) in \<open>auto simp: list_all_iff\<close>)
  moreover have "read_frames (length ds + length ps) (concat (map frame ps)) = Some ps"
    by (rule read_frames_concat) (use assms(4) in \<open>auto simp: list_all_iff\<close>)
  ultimately show ?thesis by (metis insertI1 insertI2)
qed

end

section \<open>Serial batches\<close>

lemma serial_loop_states:
  "snd (serial_loop write i n events s) = fold (\<lambda>e s. snd (write e s)) events s"
  by (induction events arbitrary: i s) (simp_all add: case_prod_beta)

fun failures :: "(WindowsEvent \<Rightarrow> 's \<Rightarrow> write_error option \<times> 's) \<Rightarrow> WindowsEvent list \<Rightarrow> 's \<Rightarrow> nat" where
  "failures write [] s = 0"
| "failures write (e # es) s =
     (if fst (write e s) = None then 0 else 1) + failures write es (snd (write e s))"

lemma serial_loop_errors: "length (fst (serial_loop write i n events s)) = failures write events s"
proof (induction events arbitrary: i s)
  case (Cons e es)
  then show ?case by (cases "fst (write e s)") (simp_all add: case_prod_beta)
qed simp

end
