(* ===== verification/Go_Json.thy ===== *)
theory Go_Json
  imports Utf16 Go_Time
begin

text \<open>
  \<^verbatim>\<open>encoding/json\<close> as the GELF writer uses it: an object of string and number members,
  written by an encoder with HTML escaping off.  A reader of JSON strings shows that an
  encoded text cannot leave its quotes and is recovered exactly when it is valid UTF-8.
\<close>

section \<open>Encoding\<close>

definition hex4 :: "nat \<Rightarrow> string" where
  "hex4 n = [digit_char (n div 4096 mod 16), digit_char (n div 256 mod 16), digit_char (n div 16 mod 16),
     digit_char (n mod 16)]"

definition json_u :: "nat \<Rightarrow> string" where
  "json_u n = CHR 0x5C # CHR ''u'' # hex4 n"

definition json_ascii :: "char \<Rightarrow> string" where
  "json_ascii c =
     (if c = CHR 0x22 \<or> c = CHR 0x5C then [CHR 0x5C, c]
      else if c = CHR 0x08 then [CHR 0x5C, CHR ''b'']
      else if c = CHR 0x0C then [CHR 0x5C, CHR ''f'']
      else if c = CHR 0x0A then [CHR 0x5C, CHR ''n'']
      else if c = CHR 0x0D then [CHR 0x5C, CHR ''r'']
      else if c = CHR 0x09 then [CHR 0x5C, CHR ''t'']
      else if byte_val c < 0x20 then json_u (byte_val c)
      else [c])"

text \<open>A byte that begins no rune is written as the escape of the replacement rune; the line
  and paragraph separators are escaped too.\<close>

function json_body :: "bytes \<Rightarrow> string" where
  "json_body s =
     (case s of
        [] \<Rightarrow> []
      | c # cs \<Rightarrow>
          if byte_val c < 0x80 then json_ascii c @ json_body cs
          else (case valid_rune s of
                  None \<Rightarrow> json_u 0xFFFD @ json_body cs
                | Some (r, w) \<Rightarrow>
                    (if r = 0x2028 \<or> r = 0x2029 then json_u r else take w s) @ json_body (drop (max 1 w) s)))"
  by pat_completeness auto
termination
  by (relation "measure length") auto

declare json_body.simps [simp del]

definition json_string :: "bytes \<Rightarrow> string" where
  "json_string s = [CHR 0x22] @ json_body s @ [CHR 0x22]"

datatype json_value = JString string | JInt int | JFloat string

fun encode_value :: "json_value \<Rightarrow> string" where
  "encode_value (JString s) = json_string s"
| "encode_value (JInt n) = Itoa n"
| "encode_value (JFloat s) = s"

text \<open>Members are written in the order of their keys.\<close>

fun json_members :: "(string \<times> json_value) list \<Rightarrow> string" where
  "json_members [] = []"
| "json_members [(k, v)] = json_string k @ '':'' @ encode_value v"
| "json_members ((k, v) # ms) = json_string k @ '':'' @ encode_value v @ '','' @ json_members ms"

definition json_object :: "(string \<times> json_value) list \<Rightarrow> string" where
  "json_object ms = ''{'' @ json_members ms @ ''}''"

section \<open>Reading a string back\<close>

definition hex_val :: "string \<Rightarrow> nat" where
  "hex_val s = foldl (\<lambda>a c. 16 * a + (case digit_val c of Some d \<Rightarrow> d | None \<Rightarrow> 0)) 0 s"

function read_string :: "bytes \<Rightarrow> bytes \<Rightarrow> (bytes \<times> bytes) option" where
  "read_string acc s =
     (case s of
        [] \<Rightarrow> None
      | c # cs \<Rightarrow>
          if c = CHR 0x22 then Some (acc, cs)
          else if c \<noteq> CHR 0x5C then read_string (acc @ [c]) cs
          else (case cs of
             [] \<Rightarrow> None
           | e # r \<Rightarrow>
               if e = CHR ''u'' then
                 (if length r < 4 then None
                  else read_string (acc @ append_rune (hex_val (take 4 r))) (drop 4 r))
               else if e = CHR ''b'' then read_string (acc @ [CHR 0x08]) r
               else if e = CHR ''f'' then read_string (acc @ [CHR 0x0C]) r
               else if e = CHR ''n'' then read_string (acc @ [CHR 0x0A]) r
               else if e = CHR ''r'' then read_string (acc @ [CHR 0x0D]) r
               else if e = CHR ''t'' then read_string (acc @ [CHR 0x09]) r
               else if e = CHR 0x22 \<or> e = CHR 0x5C \<or> e = CHR ''/'' then read_string (acc @ [e]) r
               else None))"
  by pat_completeness auto
termination
  by (relation "measure (\<lambda>(acc, s). length s)") auto

declare read_string.simps [simp del]

lemma read_plain: "c \<noteq> CHR 0x22 \<Longrightarrow> c \<noteq> CHR 0x5C \<Longrightarrow> read_string acc (c # s) = read_string (acc @ [c]) s"
  by (subst read_string.simps) simp

lemma read_plains:
  "\<forall>c \<in> set t. 0x80 \<le> byte_val c \<Longrightarrow> read_string acc (t @ s) = read_string (acc @ t) s"
proof (induction t arbitrary: acc)
  case (Cons c t)
  have "c \<noteq> CHR 0x22" "c \<noteq> CHR 0x5C" using Cons.prems by auto
  then show ?case using Cons by (simp add: read_plain)
qed simp

lemma digit_val_hex: "d < 16 \<Longrightarrow> digit_val (digit_char d) = Some d"
  by (rule digit_val_digit_char) simp

lemma hex_val_hex4: "n < 65536 \<Longrightarrow> hex_val (hex4 n) = n"
proof -
  assume n: "n < 65536"
  have top: "n div 4096 < 16" using n by (simp add: less_mult_imp_div_less)
  then have "n div 4096 mod 16 = n div 4096" by simp
  moreover have "n div 256 = 16 * (n div 4096) + n div 256 mod 16" "n div 16 = 16 * (n div 256) + n div 16 mod 16"
    "n = 16 * (n div 16) + n mod 16"
    using mult_div_mod_eq [of 16 "n div 256"] mult_div_mod_eq [of 16 "n div 16"] mult_div_mod_eq [of 16 n]
    by (simp_all add: div_mult2_eq [symmetric])
  ultimately show ?thesis using top by (simp add: hex_val_def hex4_def digit_val_hex)
qed

lemma read_u: "n < 65536 \<Longrightarrow> read_string acc (json_u n @ s) = read_string (acc @ append_rune n) s"
  using hex_val_hex4 [of n] by (subst read_string.simps) (simp add: json_u_def hex4_def)

lemma read_ascii:
  assumes "byte_val c < 0x80"
  shows "read_string acc (json_ascii c @ s) = read_string (acc @ [c]) s"
proof -
  have "byte_val c < 0x20 \<Longrightarrow> append_rune (byte_val c) = [c]"
    by (simp add: append_rune_ascii)
  then show ?thesis using read_u [of "byte_val c" acc s] read_plain [of c acc s]
    by (auto simp: json_ascii_def read_string.simps [of _ "CHR 0x5C # _"])
qed

text \<open>The text a reader gets: itself when it is valid, and otherwise with the replacement rune for
  every byte that begins no rune.\<close>

definition as_text :: "bytes \<Rightarrow> bytes" where
  "as_text s = utf8_encode (runes_of s)"

lemma as_text_valid: "valid_utf8 s \<Longrightarrow> as_text s = s"
  by (simp add: as_text_def valid_utf8_encode_runes)

lemma valid_as_text: "valid_utf8 (as_text s)"
  by (simp add: as_text_def)

lemma as_text_step:
  "v \<noteq> [] \<Longrightarrow> as_text v =
    (case valid_rune v of None \<Rightarrow> append_rune rune_error @ as_text (tl v)
     | Some (r, w) \<Rightarrow> append_rune r @ as_text (drop w v))"
  unfolding as_text_def
  by (subst runes_of.simps) (simp add: decode_rune_def drop_Suc split: option.split prod.split del: valid_rune.simps)

text \<open>The quote that ends an encoded text is the first that the reader takes for one.\<close>

lemma read_string_json_body:
  "read_string acc (json_body v @ CHR 0x22 # s) = Some (acc @ as_text v, s)"
proof (induction v arbitrary: acc rule: json_body.induct)
  case (1 v)
  show ?case
  proof (cases v)
    case Nil
    then show ?thesis by (simp add: json_body.simps read_string.simps as_text_def)
  next
    case (Cons c cs)
    let ?tail = "CHR 0x22 # s"
    show ?thesis
    proof (cases "byte_val c < 0x80")
      case True
      then have "json_body v = json_ascii c @ json_body cs" "as_text v = c # as_text cs"
        using Cons by (subst json_body.simps, simp, simp add: as_text_def append_rune_ascii)
      then show ?thesis using "1.IH"(1) [OF Cons True] read_ascii [OF True] by simp
    next
      case False
      show ?thesis
      proof (cases "valid_rune v")
        case None
        then have "json_body v = json_u 0xFFFD @ json_body cs"
          using Cons False by (subst json_body.simps) simp
        moreover have "as_text v = append_rune rune_error @ as_text cs"
          using as_text_step [of v] Cons None by (simp del: valid_rune.simps)
        ultimately show ?thesis using "1.IH"(2) [OF Cons False None] read_u [of rune_error] by simp
      next
        case (Some p)
        obtain r w where p: "p = (r, w)" by fastforce
        have w: "is_scalar r" "append_rune r = take w v" "0 < w" using valid_rune_Some [of v r w] Some p by simp_all
        have h: "0x80 \<le> r"
        proof (rule ccontr)
          assume "\<not> 0x80 \<le> r"
          then have "take w v = [char_of r]" using w by (simp add: append_rune_ascii)
          then have "c = char_of r" using Cons w(3) by (cases w) auto
          then show False using False \<open>\<not> 0x80 \<le> r\<close> by simp
        qed
        have m: "max 1 w = w" using w(3) by simp
        have b: "json_body v =
            (if r = 0x2028 \<or> r = 0x2029 then json_u r else append_rune r) @ json_body (drop w v)"
          using Cons False Some p w(2) m by (subst json_body.simps) simp
        have a: "as_text v = append_rune r @ as_text (drop w v)"
          using as_text_step [of v] Cons Some p by (simp del: valid_rune.simps)
        have IH: "read_string acc (json_body (drop w v) @ ?tail) = Some (acc @ as_text (drop w v), s)" for acc
          using "1.IH"(3) [OF Cons False Some p [symmetric]] m by simp
        have "\<forall>c \<in> set (append_rune r). 0x80 \<le> byte_val c" using append_rune_high [of r] h by simp
        then show ?thesis unfolding a b
          using IH read_u [of r acc] read_plains [of "append_rune r" acc "json_body (drop w v) @ ?tail"] by auto
      qed
    qed
  qed
qed

text \<open>Whatever the text, valid or not, what is written holds no control character.\<close>

definition printable :: "char \<Rightarrow> bool" where
  "printable c \<longleftrightarrow> 0x20 \<le> byte_val c"

lemma digit_char_printable: "d < 16 \<Longrightarrow> printable (digit_char d)"
  by (simp add: digit_char_def printable_def)

lemma json_u_printable: "list_all printable (json_u n)"
  using digit_char_printable by (simp add: json_u_def hex4_def) (simp add: printable_def)

lemma json_ascii_printable: "list_all printable (json_ascii c)"
  using json_u_printable by (simp add: json_ascii_def printable_def)

lemma json_body_printable: "list_all printable (json_body s)"
proof (induction s rule: json_body.induct)
  case (1 s)
  show ?case
  proof (cases s)
    case Nil
    then show ?thesis by (simp add: json_body.simps)
  next
    case (Cons c cs)
    show ?thesis
    proof (cases "byte_val c < 0x80")
      case True
      then show ?thesis using "1.IH"(1) [OF Cons] json_ascii_printable Cons
        by (subst json_body.simps) simp
    next
      case False
      show ?thesis
      proof (cases "valid_rune s")
        case None
        then show ?thesis using "1.IH"(2) [OF Cons False] json_u_printable Cons False
          by (subst json_body.simps) simp
      next
        case (Some p)
        obtain r w where p: "p = (r, w)" by fastforce
        have w: "append_rune r = take w s" "0 < w" using valid_rune_Some [of s r w] Some p by simp_all
        have "0x80 \<le> r"
        proof (rule ccontr)
          assume "\<not> 0x80 \<le> r"
          then have "take w s = [char_of r]" using w by (simp add: append_rune_ascii)
          then have "c = char_of r" using Cons w(2) by (cases w) auto
          then show False using False \<open>\<not> 0x80 \<le> r\<close> by simp
        qed
        then have "list_all printable (take w s)"
          using append_rune_high [of r] w(1) by (fastforce simp: list_all_iff printable_def)
        then show ?thesis using "1.IH"(3) [OF Cons False Some p [symmetric]] json_u_printable Cons False Some p
          by (subst json_body.simps) simp
      qed
    qed
  qed
qed

lemma json_string_printable: "list_all printable (json_string s)"
  using json_body_printable by (simp add: json_string_def) (simp add: printable_def)

lemma Itoa_printable: "list_all printable (Itoa n)"
proof -
  have "list_all printable (format_nat 10 m)" for m
    using format_nat_digits [of m] by (auto simp: list_all_iff is_digit_def printable_def)
  then show ?thesis by (simp add: Itoa_def) (simp add: printable_def)
qed

section \<open>Reading an object back\<close>

text \<open>A reader of flat objects: string members are decoded, numbers are kept as their text.  A value
  is readable when it is a text or a well-formed number.\<close>

definition number_char :: "char \<Rightarrow> bool" where
  "number_char c \<longleftrightarrow> is_digit c \<or> c = CHR ''-'' \<or> c = CHR ''.'' \<or> c = CHR ''e''"

definition read_value :: "bytes \<Rightarrow> ((string + string) \<times> bytes) option" where
  "read_value s =
     (if starts_with [CHR 0x22] s then map_option (\<lambda>(v, r). (Inl v, r)) (read_string [] (tl s))
      else case takeWhile number_char s of
             [] \<Rightarrow> None
           | t \<Rightarrow> Some (Inr t, dropWhile number_char s))"

fun read_members :: "nat \<Rightarrow> bytes \<Rightarrow> (string \<times> (string + string)) list option" where
  "read_members 0 s = None"
| "read_members (Suc n) s =
     (if \<not> starts_with [CHR 0x22] s then None
      else case read_string [] (tl s) of
        None \<Rightarrow> None
      | Some (k, r) \<Rightarrow>
          (if \<not> starts_with '':'' r then None
           else case read_value (tl r) of
             None \<Rightarrow> None
           | Some (v, r1) \<Rightarrow>
               (if r1 = ''}'' then Some [(k, v)]
                else if starts_with '','' r1 then map_option (Cons (k, v)) (read_members n (tl r1))
                else None)))"

definition read_object :: "bytes \<Rightarrow> (string \<times> (string + string)) list option" where
  "read_object s = (if starts_with ''{'' s then read_members (length s) (tl s) else None)"

fun value_text :: "json_value \<Rightarrow> string + string" where
  "value_text (JString s) = Inl (as_text s)"
| "value_text (JInt n) = Inr (Itoa n)"
| "value_text (JFloat s) = Inr s"

fun readable_value :: "json_value \<Rightarrow> bool" where
  "readable_value (JString s) = True"
| "readable_value (JInt n) = True"
| "readable_value (JFloat s) = (s \<noteq> [] \<and> list_all number_char s)"

lemma Itoa_number: "list_all number_char (Itoa n) \<and> Itoa n \<noteq> []"
proof -
  have "list_all number_char (format_nat 10 m)" for m
    using format_nat_digits [of m] by (auto simp: list_all_iff number_char_def)
  then show ?thesis using format_nat_not_Nil by (simp add: Itoa_def number_char_def [of "CHR ''-''"])
qed

lemma read_value_number:
  assumes "list_all number_char t" "t \<noteq> []" "\<not> number_char c"
  shows "read_value (t @ c # r) = Some (Inr t, c # r)"
proof -
  have "takeWhile number_char (t @ c # r) = t" "dropWhile number_char (t @ c # r) = c # r"
    using assms(1,3) by (induction t) auto
  moreover have "\<not> starts_with [CHR 0x22] (t @ c # r)"
    using assms(1,2) by (cases t) (auto simp: number_char_def is_digit_def)
  ultimately show ?thesis using assms(2) by (cases t) (simp_all add: read_value_def)
qed

lemma read_value_encode:
  assumes "readable_value v" "c = CHR '','' \<or> c = CHR ''}''"
  shows "read_value (encode_value v @ c # r) = Some (value_text v, c # r)"
proof -
  have c: "\<not> number_char c" using assms(2) by (auto simp: number_char_def is_digit_def)
  show ?thesis
  proof (cases v)
    case (JString s)
    then show ?thesis using assms(1) read_string_json_body [of "[]" s]
      by (simp add: read_value_def json_string_def)
  qed (use assms(1) read_value_number [OF _ _ c] Itoa_number in simp_all)
qed

lemma read_members_json:
  assumes "list_all (\<lambda>(k, v). valid_utf8 k \<and> readable_value v) ms" "ms \<noteq> []" "length ms \<le> n"
  shows "read_members n (json_members ms @ ''}'') = Some (map (\<lambda>(k, v). (k, value_text v)) ms)"
  using assms
proof (induction ms arbitrary: n rule: json_members.induct)
  case (2 k v)
  then obtain m where n: "n = Suc m" by (cases n) auto
  show ?case using "2.prems" n as_text_valid [of k] read_string_json_body [of "[]" k "'':'' @ encode_value v @ ''}''"]
      read_value_encode [of v "CHR ''}''" "[]"]
    by (simp add: json_string_def)
next
  case (3 k v m ms)
  then obtain j where n: "n = Suc j" by (cases n) auto
  let ?rest = "json_members (m # ms) @ ''}''"
  have IH: "read_members j ?rest = Some (map (\<lambda>(k, v). (k, value_text v)) (m # ms))"
    using 3 n by simp
  show ?case using "3.prems" n IH as_text_valid [of k] read_string_json_body [of "[]" k "'':'' @ encode_value v @ '','' @ ?rest"]
      read_value_encode [of v "CHR '',''" ?rest]
    by (simp add: json_string_def)
qed simp

lemma read_object_json:
  assumes "list_all (\<lambda>(k, v). valid_utf8 k \<and> readable_value v) ms" "ms \<noteq> []"
  shows "read_object (json_object ms) = Some (map (\<lambda>(k, v). (k, value_text v)) ms)"
proof -
  have "length ms \<le> length (json_members ms)" for ms
    by (induction ms rule: json_members.induct) (simp_all add: json_string_def)
  then have "length ms \<le> length (json_object ms)" by (simp add: json_object_def le_SucI)
  from read_members_json [OF assms this] show ?thesis
    by (simp add: read_object_def json_object_def)
qed

end
