(* ===== verification/Go_Float.thy ===== *)
theory Go_Float
  imports Go_Json "HOL-Library.Log_Nat"
begin

text \<open>
  The 64-bit floating point numbers of the GELF timestamp: the conversion of an integer, one
  division, and the shortest decimal that reads back as the same number, in the form
  \<^verbatim>\<open>encoding/json\<close> writes.  A finite number is a mantissa below 2 to the 53 and a power of
  two; the magnitudes here keep clear of subnormals and overflow.
\<close>

section \<open>Rounding\<close>

text \<open>The quotient rounded to the nearest integer, ties to even.\<close>

definition round_div :: "nat \<Rightarrow> nat \<Rightarrow> nat" where
  "round_div a b =
     (let q = a div b; r = a mod b in
      if 2 * r < b \<or> 2 * r = b \<and> even q then q else q + 1)"

text \<open>\<open>a / b\<close> scaled by a power of two, as a fraction of natural numbers.\<close>

definition scale2 :: "nat \<Rightarrow> nat \<Rightarrow> int \<Rightarrow> nat \<times> nat" where
  "scale2 a b e = (if 0 \<le> e then (a, b * 2 ^ nat e) else (a * 2 ^ nat (- e), b))"

definition scale10 :: "nat \<Rightarrow> nat \<Rightarrow> int \<Rightarrow> nat \<times> nat" where
  "scale10 a b e = (if 0 \<le> e then (a, b * 10 ^ nat e) else (a * 10 ^ nat (- e), b))"

definition bits :: "nat \<Rightarrow> int" where
  "bits n = int (floorlog 2 n)"

text \<open>The nearest number to \<open>a / b\<close> as mantissa and exponent.\<close>

definition round_double :: "nat \<Rightarrow> nat \<Rightarrow> nat \<times> int" where
  "round_double a b =
     (if a = 0 then (0, 0)
      else
        (let e0 = bits a - bits b - 53;
             (n0, d0) = scale2 a b e0;
             e = (if n0 < d0 * 2 ^ 53 then e0 else e0 + 1);
             (n, d) = scale2 a b e;
             m = round_div n d in
         if m = 2 ^ 53 then (2 ^ 52, e + 1) else (m, e)))"

section \<open>The shortest decimal\<close>

definition fraction_of :: "nat \<times> int \<Rightarrow> nat \<times> nat" where
  "fraction_of f = (case f of (m, e) \<Rightarrow> if 0 \<le> e then (m * 2 ^ nat e, 1) else (m, 2 ^ nat (- e)))"

text \<open>How often \<open>a / b\<close> must be multiplied by ten to reach one.\<close>

fun tens_to_one :: "nat \<Rightarrow> nat \<Rightarrow> nat \<Rightarrow> nat" where
  "tens_to_one 0 a b = 0"
| "tens_to_one (Suc n) a b = (if b \<le> a then 0 else 1 + tens_to_one n (10 * a) b)"

text \<open>The position of the decimal point, counted from the first digit.\<close>

definition point_of :: "nat \<Rightarrow> nat \<Rightarrow> int" where
  "point_of a b = (if b \<le> a then int (floorlog 10 (a div b)) else 1 - int (tens_to_one 400 a b))"

text \<open>The decimal of \<open>d\<close> digits next to the number on each side, if it reads back.\<close>

definition with_digits :: "nat \<times> int \<Rightarrow> nat \<Rightarrow> (nat \<times> int) option" where
  "with_digits f d =
     (let (a, b) = fraction_of f;
          k = point_of a b - int d;
          (n, dn) = scale10 a b k;
          c = n div dn; r = n mod dn;
          reads = (\<lambda>c. case scale10 c 1 (- k) of (x, y) \<Rightarrow> round_double x y = f) in
      if reads c \<and> (2 * r \<le> dn \<or> \<not> reads (c + 1)) then Some (c, k)
      else if reads (c + 1) then Some (if c + 1 = 10 ^ d then (10 ^ (d - 1), k + 1) else (c + 1, k))
      else None)"

fun shortest :: "nat \<Rightarrow> nat \<Rightarrow> nat \<times> int \<Rightarrow> nat \<times> int" where
  "shortest 0 d f = (0, 0)"
| "shortest (Suc n) d f = (case with_digits f d of Some r \<Rightarrow> r | None \<Rightarrow> shortest n (d + 1) f)"

text \<open>Fixed notation from a millionth on, exponent notation below, as \<^verbatim>\<open>encoding/json\<close> chooses.\<close>

definition zeros :: "nat \<Rightarrow> string" where
  "zeros n = replicate n CHR ''0''"

definition format_decimal :: "nat \<Rightarrow> int \<Rightarrow> string" where
  "format_decimal c k =
     (let ds = format_nat 10 c; p = int (length ds) + k in
      if p < - 5 then take 1 ds @ (if length ds = 1 then [] else ''.'' @ drop 1 ds) @ ''e-'' @ format_nat 10 (nat (1 - p))
      else if p \<le> 0 then ''0.'' @ zeros (nat (- p)) @ ds
      else if int (length ds) \<le> p then ds @ zeros (nat k)
      else take (nat p) ds @ ''.'' @ drop (nat p) ds)"

definition json_float :: "bool \<Rightarrow> nat \<times> int \<Rightarrow> string" where
  "json_float neg f =
     (if fst f = 0 then ''0''
      else (if neg then ''-'' else []) @ (case shortest 17 1 f of (c, k) \<Rightarrow> format_decimal c k))"

text \<open>\<^verbatim>\<open>float64(ns) / 1e9\<close>.\<close>

definition seconds_of_nanos :: "int \<Rightarrow> string" where
  "seconds_of_nanos ns =
     (let (a, b) = fraction_of (round_double (nat \<bar>ns\<bar>) 1) in
      json_float (ns < 0) (round_double a (b * 1000000000)))"

lemma format_nat_number: "list_all number_char (format_nat 10 n)"
  using format_nat_digits [of n] by (auto simp: list_all_iff number_char_def)

lemma list_all_take_drop: "list_all P xs \<Longrightarrow> list_all P (take n xs) \<and> list_all P (drop n xs)"
  by (metis append_take_drop_id list_all_append)

lemma format_decimal_number: "list_all number_char (format_decimal c k) \<and> format_decimal c k \<noteq> []"
proof -
  have z: "list_all number_char (zeros n)" for n by (simp add: zeros_def list_all_iff number_char_def is_digit_def)
  have p: "number_char CHR ''.''" "number_char CHR ''0''" "number_char CHR ''e''" "number_char CHR ''-''"
    by (simp_all add: number_char_def is_digit_def)
  show ?thesis using z p list_all_take_drop [OF format_nat_number] format_nat_number format_nat_not_Nil
    by (simp add: format_decimal_def Let_def)
qed

text \<open>What is printed is a JSON number, and so holds no control character.\<close>

lemma seconds_number: "list_all number_char (seconds_of_nanos ns) \<and> seconds_of_nanos ns \<noteq> []"
proof -
  have "list_all number_char (json_float neg f) \<and> json_float neg f \<noteq> []" for neg f
    using format_decimal_number
    by (auto simp: json_float_def number_char_def [of "CHR ''0''"] number_char_def [of "CHR ''-''"]
        is_digit_def split: prod.splits)
  then show ?thesis by (simp add: seconds_of_nanos_def split: prod.splits)
qed

lemma seconds_printable: "list_all printable (seconds_of_nanos ns)"
  using seconds_number [of ns]
  by (auto simp: list_all_iff number_char_def is_digit_def printable_def)

end
