(* ===== verification/Gelf_Writer.thy ===== *)
theory Gelf_Writer
  imports Writer_Core Go_Float "HOL-Library.List_Lexorder"
begin

text \<open>
  The GELF output of \<^verbatim>\<open>pkg/evtx/writer_gelf.go\<close>: the JSON document of an event, the writer
  with its connection, single events and batches over TCP (documents ended by a NUL byte)
  and UDP (one datagram each).
\<close>

section \<open>Definitions\<close>

record GELFConfig =
  g_Host :: string
  g_Port :: int
  g_Protocol :: string
  g_TLS :: bool

record GELFWriter =
  g_cfg :: GELFConfig
  g_sock :: socket

text \<open>\<^verbatim>\<open>encoding/json\<close> writes the members of a map in the byte order of their keys.\<close>

definition json_map :: "(string \<times> json_value) list \<Rightarrow> string" where
  "json_map ms = json_object (sort_key (\<lambda>m. map byte_val (fst m)) ms)"

definition gelf_members :: "WindowsEvent \<Rightarrow> (string \<times> json_value) list" where
  "gelf_members e =
     [(''version'', JString ''1.1''),
      (''host'', JString (w_Computer e)),
      (''short_message'', JString (take 250 (ShortMessage e))),
      (''timestamp'', JFloat (seconds_of_nanos (sint (UnixNano (w_TimeCreated e))))),
      (''level'', JInt 6),
      (''_event_id'', JInt (w_EventID e)),
      (''_provider'', JString (w_ProviderName e)),
      (''_object_name'', JString (w_ObjectName e)),
      (''_object_type'', JString (w_ObjectType e)),
      (''_account_name'', JString (w_SubjectUsername e)),
      (''_account_domain'', JString (w_SubjectDomain e)),
      (''_account_sid'', JString (w_SubjectUserSID e)),
      (''_logon_id'', JString (w_SubjectLogonID e)),
      (''_client_address'', JString (w_ClientAddr e)),
      (''_access_mask'', JString (w_AccessMask e)),
      (''_accesses'', JString (w_Accesses e)),
      (''_cepa_event_type'', JString (w_CEPAEventType e))] @
     (if 0 < w_BytesRead e then [(''_bytes_read'', JInt (w_BytesRead e))] else []) @
     (if 0 < w_BytesWritten e then [(''_bytes_written'', JInt (w_BytesWritten e))] else [])"

text \<open>The encoder ends the document with a line feed, which is stripped again; encoding strings
  and numbers cannot fail.\<close>

definition TrimRight_nl :: "bytes \<Rightarrow> bytes" where
  "TrimRight_nl s = rev (dropWhile (\<lambda>c. c = CHR 0x0A) (rev s))"

definition buildGELF :: "WindowsEvent \<Rightarrow> bytes option" where
  "buildGELF e = Some (TrimRight_nl (json_map (gelf_members e) @ [CHR 0x0A]))"

definition gelf_frame :: "bytes \<Rightarrow> bytes" where
  "gelf_frame p = p @ [CHR 0x00]"

definition gelf_connect :: "GELFWriter \<Rightarrow> write_error option \<times> GELFWriter" where
  "gelf_connect w =
     (case sock_dial (g_sock w) of
        (None, k) \<Rightarrow> (None, w\<lparr>g_sock := k\<rparr>)
      | (Some err, k) \<Rightarrow> (Some (Wrapped (''gelf connect '' @ g_Protocol (g_cfg w) @ ''://'' @
            hostPort (g_Host (g_cfg w)) (g_Port (g_cfg w))) err), w\<lparr>g_sock := k\<rparr>))"

definition gelf_defaults :: "GELFConfig \<Rightarrow> GELFConfig" where
  "gelf_defaults cfg =
     cfg\<lparr>g_Port := (if g_Port cfg = 0 then 12201 else g_Port cfg),
         g_Protocol := (if g_Protocol cfg = [] then ''udp'' else g_Protocol cfg)\<rparr>"

definition NewGELFWriter :: "GELFConfig \<Rightarrow> socket \<Rightarrow> write_error + GELFWriter" where
  "NewGELFWriter cfg net =
     (case gelf_connect \<lparr>g_cfg = gelf_defaults cfg, g_sock = net\<rparr> of
        (None, w) \<Rightarrow> Inr w
      | (Some err, w) \<Rightarrow> Inl err)"

definition gelf_WriteEvent :: "WindowsEvent \<Rightarrow> GELFWriter \<Rightarrow> write_error option \<times> GELFWriter" where
  "gelf_WriteEvent e w =
     (case framed_event ''gelf'' (g_Protocol (g_cfg w) = ''tcp'') buildGELF gelf_frame e (g_sock w) of
        (r, k) \<Rightarrow> (r, w\<lparr>g_sock := k\<rparr>))"

definition gelf_WriteBatch :: "WindowsEvent list \<Rightarrow> GELFWriter \<Rightarrow> write_error option \<times> GELFWriter" where
  "gelf_WriteBatch events w =
     (case framed_batch ''gelf'' (g_Protocol (g_cfg w) = ''tcp'') buildGELF gelf_frame events (g_sock w) of
        (r, k) \<Rightarrow> (r, w\<lparr>g_sock := k\<rparr>))"

definition gelf_Close :: "GELFWriter \<Rightarrow> write_error option \<times> GELFWriter" where
  "gelf_Close w = (case sock_close (g_sock w) of (r, k) \<Rightarrow> (r, w\<lparr>g_sock := k\<rparr>))"

section \<open>The documents\<close>

lemma json_members_printable:
  assumes "\<And>k v. (k, v) \<in> set ms \<Longrightarrow> list_all printable (encode_value v)"
  shows "list_all printable (json_members ms)"
proof -
  have p: "printable CHR '':''" "printable CHR '',''" by (simp_all add: printable_def)
  show ?thesis using assms
    by (induction ms rule: json_members.induct) (auto simp: p json_string_printable)
qed

lemma gelf_document_printable: "list_all printable (json_map (gelf_members e))"
proof -
  have "list_all printable (encode_value v)" if "(k, v) \<in> set (gelf_members e)" for k v
    using that
    by (auto simp: gelf_members_def json_string_printable Itoa_printable seconds_printable split: if_splits)
  then have "list_all printable (json_members (sort_key (\<lambda>m. map byte_val (fst m)) (gelf_members e)))"
    by (intro json_members_printable) auto
  moreover have "printable CHR ''{''" "printable CHR ''}''" by (simp_all add: printable_def)
  ultimately show ?thesis by (simp add: json_map_def json_object_def)
qed

lemma buildGELF_document: "buildGELF e = Some (json_map (gelf_members e))"
  by (simp add: buildGELF_def TrimRight_nl_def json_map_def json_object_def)

text \<open>The receiver of the stream: a document ends at the first NUL.\<close>

definition gelf_unframe :: "bytes \<Rightarrow> (bytes \<times> bytes) option" where
  "gelf_unframe s =
     (case dropWhile (\<lambda>c. c \<noteq> CHR 0x00) s of
        [] \<Rightarrow> None
      | z # rest \<Rightarrow> Some (takeWhile (\<lambda>c. c \<noteq> CHR 0x00) s, rest))"

interpretation gelf_stream: framed_writer gelf_frame gelf_unframe "list_all printable" buildGELF
proof
  fix p rest
  assume "list_all printable p"
  then have "\<forall>c \<in> set p. c \<noteq> CHR 0x00" by (auto simp: list_all_iff printable_def)
  then have "takeWhile (\<lambda>c. c \<noteq> CHR 0x00) (p @ CHR 0x00 # rest) = p"
    "dropWhile (\<lambda>c. c \<noteq> CHR 0x00) (p @ CHR 0x00 # rest) = CHR 0x00 # rest"
    by (induction p) auto
  then show "gelf_unframe (gelf_frame p @ rest) = Some (p, rest)"
    by (simp add: gelf_unframe_def gelf_frame_def)
next
  show "gelf_frame p \<noteq> []" for p by (simp add: gelf_frame_def)
next
  fix e p
  assume "buildGELF e = Some p"
  then have "p = json_map (gelf_members e)" by (simp add: buildGELF_document)
  then show "list_all printable p" by (simp only: gelf_document_printable)
qed

section \<open>Properties\<close>

text \<open>C24: A GELF batch on TCP goes out whole or is reported, at least once.  The batch is one
  write: the documents of all events in order, each ended by a NUL byte.  When \<^verbatim>\<open>WriteBatch\<close>
  returns no error that write succeeded, either at once or on a new connection after a
  first attempt of which any part may have gone out; a receiver that splits it at the NUL
  bytes reads one JSON document for each event, since no text in an event, not even one with
  NUL bytes or line feeds, can break the framing.  If the connection carried whole frames
  before, the receiver reads the batch after them, or alone on the new connection.  When it
  returns an error no attempt succeeded, and what went out is a beginning of the write for
  each of at most two attempts.\<close>

theorem gelf_batch_stream:
  assumes "g_Protocol (g_cfg w) = ''tcp''" "events \<noteq> []" "gelf_WriteBatch events w = (r, w')"
  shows "\<exists>s t. s = concat (map (\<lambda>e. json_map (gelf_members e) @ [CHR 0x00]) events) \<and>
    wire (g_sock w') = wire (g_sock w) @ t \<and>
    (if r = None then landed s t else gave_up s t) \<and>
    gelf_stream.read_frames (length events) s = Some (map (\<lambda>e. json_map (gelf_members e)) events) \<and>
    (\<forall>ds. r = None \<longrightarrow> list_all (list_all printable) ds \<longrightarrow>
       stream (wire (g_sock w)) = concat (map (\<lambda>d. d @ [CHR 0x00]) ds) \<longrightarrow>
       gelf_stream.read_frames (length ds + length events) (stream (wire (g_sock w'))) \<in>
         {Some (ds @ map (\<lambda>e. json_map (gelf_members e)) events),
          Some (map (\<lambda>e. json_map (gelf_members e)) events)})"
proof -
  let ?docs = "map (\<lambda>e. json_map (gelf_members e)) events"
  obtain k where f: "framed_batch ''gelf'' True buildGELF gelf_frame events (g_sock w) = (r, k)"
    "w' = w\<lparr>g_sock := k\<rparr>"
    using assms(1,3) by (auto simp: gelf_WriteBatch_def split: prod.splits)
  have p: "payloads_of buildGELF events = ?docs"
    by (auto simp: buildGELF_document payloads_of_def List.map_filter_def)
  then have b: "build_errors ''gelf'' buildGELF events = []"
    using build_errors_length [of "''gelf''" buildGELF events] by simp
  have g: "gelf_frame = (\<lambda>d. d @ [CHR 0x00])" by (simp add: gelf_frame_def fun_eq_iff)
  obtain t where t: "wire k = wire (g_sock w) @ t"
    "if r = None then landed (concat (map gelf_frame ?docs)) t else gave_up (concat (map gelf_frame ?docs)) t"
    using stream_batch [OF f(1)] p b assms(2) by (auto simp: errors_Join_def split: if_splits)
  have ok: "list_all (list_all printable) ?docs" by (induction events) (simp_all add: gelf_document_printable)
  have "gelf_stream.read_frames (length events) (concat (map gelf_frame ?docs)) = Some ?docs"
    using gelf_stream.payloads_read_back [of events] p by simp
  moreover have "gelf_stream.read_frames (length ds + length events) (stream (wire k)) \<in> {Some (ds @ ?docs), Some ?docs}"
    if "r = None" "list_all (list_all printable) ds" "stream (wire (g_sock w)) = concat (map gelf_frame ds)" for ds
    using gelf_stream.stream_read_back [of ?docs t "wire (g_sock w)" ds] that t ok by simp
  moreover have "concat (map gelf_frame ?docs) = concat (map (\<lambda>e. json_map (gelf_members e) @ [CHR 0x00]) events)"
    by (simp add: g comp_def)
  ultimately show ?thesis using t f(2) unfolding g by (intro exI [of _ t] exI) auto
qed

definition gelf_tcp :: "write_outcome list \<Rightarrow> GELFWriter" where
  "gelf_tcp script =
     \<lparr>g_cfg = \<lparr>g_Host = ''graylog'', g_Port = 12201, g_Protocol = ''tcp'', g_TLS = False\<rparr>,
      g_sock = \<lparr>write_script = script, dial_script = [], wire = [Dialled], sock_open = True, close_error = None\<rparr>\<rparr>"

definition gelf_sample :: WindowsEvent where
  "gelf_sample = Map ''nas'' ((convert sample_raw (mk_time 0 0))\<lparr>BytesWritten := 12\<rparr>) ''nas''"

theorem gelf_batch_stream_witness:
  "\<exists>r w' t s. gelf_WriteBatch [gelf_sample, gelf_sample] (gelf_tcp [Broke 9]) = (r, w') \<and>
     wire (g_sock w') = Dialled # t \<and> landed s t \<and>
     gelf_stream.read_frames 2 s = Some [json_map (gelf_members gelf_sample), json_map (gelf_members gelf_sample)] \<and>
     gelf_stream.read_frames 2 (stream (wire (g_sock w'))) =
       Some [json_map (gelf_members gelf_sample), json_map (gelf_members gelf_sample)]"
proof -
  let ?es = "[gelf_sample, gelf_sample]" and ?w = "gelf_tcp [Broke 9]"
  obtain r w' where f: "gelf_WriteBatch ?es ?w = (r, w')" by fastforce
  have "fst (gelf_WriteBatch ?es ?w) = None"
    by (simp add: gelf_WriteBatch_def gelf_tcp_def framed_batch_def buildGELF_document payloads_of_def
        List.map_filter_simps build_errors_def retrySend_def sendWithRetry_def sock_write_def
        sock_dial_def next_outcome_def next_write_def Let_def)
  then have "r = None" using f by simp
  moreover have "stream (wire (g_sock ?w)) = concat (map (\<lambda>d. d @ [CHR 0x00]) [])"
    by (simp add: gelf_tcp_def stream_def)
  ultimately show ?thesis using gelf_batch_stream [of ?w ?es, OF _ _ f] f
    by (fastforce simp: gelf_tcp_def numeral_2_eq_2 simp del: gelf_stream.read_frames.simps)
qed

text \<open>The framing can be lost, though, when a dial fails as well: the old connection stays in
  place with a cut frame on it, and when it takes the next batch the receiver joins the two.
  Here the second event is reported as written, and the one document the receiver reads is
  neither of the two.\<close>

lemma gelf_unframe_joins:
  assumes "list_all printable c"
  shows "gelf_unframe (c @ gelf_frame (json_map (gelf_members e))) = Some (c @ json_map (gelf_members e), [])"
proof -
  have "list_all printable (c @ json_map (gelf_members e))"
    using assms gelf_document_printable by simp
  from gelf_stream.unframe_frame [OF this, of "[]"] show ?thesis by (simp add: gelf_frame_def)
qed

lemma gelf_batch_one:
  "g_Protocol (g_cfg w) = ''tcp'' \<Longrightarrow> gelf_WriteBatch [e] w =
    (case retrySend (gelf_frame (json_map (gelf_members e))) (g_sock w) of
       (r, k) \<Rightarrow> (map_option (\<lambda>err. Joined [Wrapped ''gelf batch'' err]) r, w\<lparr>g_sock := k\<rparr>))"
  by (simp add: gelf_WriteBatch_def framed_batch_def buildGELF_document payloads_of_def
      List.map_filter_simps build_errors_def Let_def errors_Join_def split: prod.split option.split)

lemma cut_frame_joined:
  assumes "n \<le> length (json_map (gelf_members e1))"
    and "w = (gelf_tcp [Broke n])\<lparr>g_sock := (g_sock (gelf_tcp [Broke n]))\<lparr>dial_script := [False]\<rparr>\<rparr>"
  shows "\<exists>err w1 w2. gelf_WriteBatch [e1] w = (Some err, w1) \<and> gelf_WriteBatch [e2] w1 = (None, w2) \<and>
    gelf_unframe (stream (wire (g_sock w2))) =
      Some (take n (json_map (gelf_members e1)) @ json_map (gelf_members e2), [])"
proof -
  let ?d1 = "json_map (gelf_members e1)" and ?d2 = "json_map (gelf_members e2)"
  let ?k = "(g_sock w)\<lparr>write_script := [], dial_script := [], wire := [Dialled, Cut (take n ?d1)]\<rparr>"
  let ?l = "?k\<lparr>wire := [Dialled, Cut (take n ?d1), Whole (gelf_frame ?d2)]\<rparr>"
  have t: "take n (gelf_frame ?d1) = take n ?d1" using assms(1) by (simp add: gelf_frame_def)
  have p: "list_all printable (take n ?d1)"
    using gelf_document_printable by (auto simp: list_all_iff dest: in_set_takeD)
  have s: "stream (wire ?l) = take n ?d1 @ gelf_frame ?d2" by (simp add: stream_def)
  have w: "write_script (g_sock w) = [Broke n]" "dial_script (g_sock w) = [False]" "wire (g_sock w) = [Dialled]"
    "sock_open (g_sock w)" "g_Protocol (g_cfg w) = ''tcp''"
    by (simp_all add: assms(2) gelf_tcp_def)
  have "retrySend (gelf_frame ?d1) (g_sock w) = (Some (Send_reconnect WriteFailed DialFailed), ?k)"
    unfolding retrySend_def sendWithRetry_def
    by (simp add: w sock_write_def sock_dial_def next_outcome_def next_write_def t)
  moreover have "retrySend (gelf_frame ?d2) ?k = (None, ?l)"
    unfolding retrySend_def sendWithRetry_def
    by (simp add: w sock_write_def next_write_def)
  ultimately show ?thesis
    using w(5) gelf_batch_one [of w e1] gelf_batch_one [of "w\<lparr>g_sock := ?k\<rparr>" e2] gelf_unframe_joins [OF p, of e2] s
    by (intro exI conjI) (simp, simp, simp)
qed

text \<open>C36: A GELF document says what the event says and nothing else.  For every event, whatever
  its texts, the document is a JSON object that reads back as exactly the members of the
  event in the order of their keys: no text can forge, end or swallow a member.  A text reads
  back as itself when it is valid UTF-8, and with the replacement rune in place of every byte
  that begins no rune when it is not.  The short message is the text already cut at 250 bytes,
  which can fall into a character.\<close>

theorem gelf_document_reads_back:
  "\<exists>doc. buildGELF e = Some doc \<and>
    read_object doc = Some (map (\<lambda>(k, v). (k, value_text v))
      (sort_key (\<lambda>m. map byte_val (fst m)) (gelf_members e))) \<and>
    (\<forall>(k, v) \<in> set (gelf_members e). \<forall>s. v = JString s \<longrightarrow> valid_utf8 s \<longrightarrow> value_text v = Inl s)"
proof -
  let ?ms = "sort_key (\<lambda>m. map byte_val (fst m)) (gelf_members e)"
  have "list_all (\<lambda>(k, v). valid_utf8 k \<and> readable_value v) (gelf_members e)"
    using seconds_number by (simp add: gelf_members_def)
  then have "list_all (\<lambda>(k, v). valid_utf8 k \<and> readable_value v) ?ms"
    by (auto simp: list_all_iff)
  moreover have "?ms \<noteq> []"
  proof -
    have "gelf_members e \<noteq> []" by (simp add: gelf_members_def)
    then show ?thesis by (metis length_0_conv length_sort)
  qed
  ultimately show ?thesis using read_object_json [of ?ms]
    by (auto simp: buildGELF_document json_map_def as_text_valid)
qed

theorem gelf_document_reads_back_witness:
  "\<exists>doc ms. buildGELF gelf_sample = Some doc \<and> read_object doc = Some ms \<and> length ms = 18 \<and>
     (''host'', Inl ''nas'') \<in> set ms"
proof -
  let ?f = "\<lambda>(k, v). (k, value_text v)"
  have m: "(''host'', JString ''nas'') \<in> set (gelf_members gelf_sample)" "length (gelf_members gelf_sample) = 18"
    by (simp_all add: gelf_members_def gelf_sample_def Map_def Let_def convert_def sample_raw_def parseInt64_def)
  let ?ms = "map ?f (sort_key (\<lambda>m. map byte_val (fst m)) (gelf_members gelf_sample))"
  have "?f (''host'', JString ''nas'') \<in> set ?ms"
    unfolding set_map set_sort by (rule imageI [OF m(1)])
  then have h: "(''host'', Inl ''nas'') \<in> set ?ms" by (simp add: as_text_valid del: set_map set_sort)
  obtain doc where d: "buildGELF gelf_sample = Some doc" "read_object doc = Some ?ms"
    using gelf_document_reads_back [of gelf_sample] by blast
  have "length ?ms = 18" using m(2) by simp
  with d h show ?thesis by blast
qed

end
