(* ===== verification/Syslog_Writer.thy ===== *)
theory Syslog_Writer
  imports Writer_Core Go_Time
begin

text \<open>
  The syslog output of \<^verbatim>\<open>pkg/evtx/writer_syslog.go\<close>: the RFC 5424 message of an event, the
  writer with its connection, and batches over UDP (one datagram each) and TCP (frames that
  begin with their octet count).  Marshalling a message is the work of a third-party package
  and a parameter, \<open>marshal\<close>; it may refuse a message.
\<close>

section \<open>Definitions\<close>

record SyslogConfig =
  s_Host :: string
  s_Port :: int
  s_Protocol :: string
  s_AppName :: string

record SyslogWriter =
  s_cfg :: SyslogConfig
  s_sock :: socket

text \<open>The message handed to the package.  \<open>data\<close> lists the calls of \<^verbatim>\<open>AddDatum\<close> in order:
  element, name and value.\<close>

datatype priority_flag = Daemon | Info

record message =
  Priority :: "priority_flag list"
  Timestamp :: gotime
  Hostname :: string
  AppName :: string
  MProcessID :: string
  MessageID :: string
  MessageText :: bytes
  data :: "(string \<times> string \<times> string) list"

definition syslog_message :: "WindowsEvent \<Rightarrow> string \<Rightarrow> message" where
  "syslog_message e appName =
     (let sdID = ''audit@32473'' in
      \<lparr>Priority = [Daemon, Info], Timestamp = w_TimeCreated e, Hostname = w_Computer e,
       AppName = appName,
       MProcessID = (if w_ProcessID e \<noteq> 0 then Itoa (w_ProcessID e) else ''-''),
       MessageID = Itoa (w_EventID e), MessageText = ShortMessage e,
       data =
         [(sdID, ''EventID'', Itoa (w_EventID e)),
          (sdID, ''User'', w_SubjectUsername e),
          (sdID, ''Domain'', w_SubjectDomain e),
          (sdID, ''Object'', w_ObjectName e),
          (sdID, ''AccessMask'', w_AccessMask e),
          (sdID, ''ClientAddr'', w_ClientAddr e),
          (sdID, ''CEPAType'', w_CEPAEventType e)]\<rparr>)"

definition buildSyslog5424 :: "(message \<Rightarrow> bytes option) \<Rightarrow> string \<Rightarrow> WindowsEvent \<Rightarrow> bytes option" where
  "buildSyslog5424 marshal appName e = marshal (syslog_message e appName)"

definition frameTCP :: "bytes \<Rightarrow> bytes" where
  "frameTCP payload = Itoa (int (length payload)) @ CHR '' '' # payload"

definition syslog_connect :: "SyslogWriter \<Rightarrow> write_error option \<times> SyslogWriter" where
  "syslog_connect w =
     (case sock_dial (s_sock w) of
        (None, k) \<Rightarrow> (None, w\<lparr>s_sock := k\<rparr>)
      | (Some err, k) \<Rightarrow> (Some (Wrapped (''syslog connect '' @ s_Protocol (s_cfg w) @ ''://'' @
            hostPort (s_Host (s_cfg w)) (s_Port (s_cfg w))) err), w\<lparr>s_sock := k\<rparr>))"

definition syslog_defaults :: "SyslogConfig \<Rightarrow> SyslogConfig" where
  "syslog_defaults cfg =
     cfg\<lparr>s_Port := (if s_Port cfg = 0 then 514 else s_Port cfg),
         s_Protocol := (if s_Protocol cfg = [] then ''udp'' else s_Protocol cfg),
         s_AppName := (if s_AppName cfg = [] then ''cee-exporter'' else s_AppName cfg)\<rparr>"

definition NewSyslogWriter :: "SyslogConfig \<Rightarrow> socket \<Rightarrow> write_error + SyslogWriter" where
  "NewSyslogWriter cfg net =
     (case syslog_connect \<lparr>s_cfg = syslog_defaults cfg, s_sock = net\<rparr> of
        (None, w) \<Rightarrow> Inr w
      | (Some err, w) \<Rightarrow> Inl err)"

definition syslog_WriteEvent ::
  "(message \<Rightarrow> bytes option) \<Rightarrow> WindowsEvent \<Rightarrow> SyslogWriter \<Rightarrow> write_error option \<times> SyslogWriter" where
  "syslog_WriteEvent marshal e w =
     (case framed_event ''syslog'' (s_Protocol (s_cfg w) = ''tcp'')
             (buildSyslog5424 marshal (s_AppName (s_cfg w))) frameTCP e (s_sock w) of
        (r, k) \<Rightarrow> (r, w\<lparr>s_sock := k\<rparr>))"

definition syslog_WriteBatch ::
  "(message \<Rightarrow> bytes option) \<Rightarrow> WindowsEvent list \<Rightarrow> SyslogWriter \<Rightarrow> write_error option \<times> SyslogWriter" where
  "syslog_WriteBatch marshal events w =
     (case framed_batch ''syslog'' (s_Protocol (s_cfg w) = ''tcp'')
             (buildSyslog5424 marshal (s_AppName (s_cfg w))) frameTCP events (s_sock w) of
        (r, k) \<Rightarrow> (r, w\<lparr>s_sock := k\<rparr>))"

definition syslog_Close :: "SyslogWriter \<Rightarrow> write_error option \<times> SyslogWriter" where
  "syslog_Close w = (case sock_close (s_sock w) of (r, k) \<Rightarrow> (r, w\<lparr>s_sock := k\<rparr>))"

section \<open>Octet counting\<close>

text \<open>The receiver of the stream reads a count, a space, and that many bytes.\<close>

definition octet_unframe :: "bytes \<Rightarrow> (bytes \<times> bytes) option" where
  "octet_unframe s =
     (let count = takeWhile is_digit s in
      case drop (length count) s of
        [] \<Rightarrow> None
      | c # rest \<Rightarrow>
          if count = [] \<or> c \<noteq> CHR '' '' \<or> length rest < dec_val count then None
          else Some (take (dec_val count) rest, drop (dec_val count) rest))"

lemma octet_unframe_frame: "octet_unframe (frameTCP p @ rest) = Some (p, rest)"
proof -
  let ?ds = "format_nat 10 (length p)"
  have c: "Itoa (int (length p)) = ?ds" by (simp add: Itoa_def)
  have "list_all is_digit ?ds" by (rule format_nat_digits)
  moreover have "\<not> is_digit CHR '' ''" by (simp add: is_digit_def)
  ultimately have "takeWhile is_digit (?ds @ CHR '' '' # p @ rest) = ?ds"
    by (simp add: list_all_iff takeWhile_append2)
  then show ?thesis by (simp add: octet_unframe_def frameTCP_def c dec_val_format_nat Let_def)
qed

interpretation octet_stream: framed_writer frameTCP octet_unframe "\<lambda>p. True"
  "buildSyslog5424 marshal appName" for marshal :: "message \<Rightarrow> bytes option" and appName
  by unfold_locales (rule octet_unframe_frame, simp_all add: frameTCP_def)

section \<open>Properties\<close>

text \<open>C22: A syslog batch on TCP sends exactly the events that can be marshalled, at least once.
  One event that the package refuses costs only itself: the batch is one write with the
  counted messages of all other events in order.  Either that write succeeded, at once
  or on a new connection after a first attempt of which any part may have gone out, and the
  result is nil just when no event was refused; or no attempt succeeded, what went out is a
  beginning of the write for each of at most two attempts, and the result is an error.  A
  receiver counting octets splits the write into those messages, and if the connection
  carried whole frames before, reads them after those or alone on the new connection.  A
  batch of which no event can be marshalled writes nothing.\<close>

theorem syslog_batch_stream:
  assumes "s_Protocol (s_cfg w) = ''tcp''" "events \<noteq> []" "syslog_WriteBatch marshal events w = (r, w')"
    and "messages = List.map_filter (\<lambda>e. marshal (syslog_message e (s_AppName (s_cfg w)))) events"
  shows "\<exists>t. wire (s_sock w') = wire (s_sock w) @ t \<and>
    (messages = [] \<longrightarrow> t = [] \<and> r \<noteq> None) \<and>
    (messages \<noteq> [] \<longrightarrow> landed (concat (map frameTCP messages)) t \<and> (r = None \<longleftrightarrow> length messages = length events) \<or>
      gave_up (concat (map frameTCP messages)) t \<and> r \<noteq> None) \<and>
    octet_stream.read_frames (length messages) (concat (map frameTCP messages)) = Some messages \<and>
    (\<forall>ds. r = None \<longrightarrow> stream (wire (s_sock w)) = concat (map frameTCP ds) \<longrightarrow>
       octet_stream.read_frames (length ds + length events) (stream (wire (s_sock w'))) \<in>
         {Some (ds @ messages), Some messages})"
proof -
  let ?build = "buildSyslog5424 marshal (s_AppName (s_cfg w))"
  have b: "?build = (\<lambda>e. marshal (syslog_message e (s_AppName (s_cfg w))))"
    by (simp add: buildSyslog5424_def fun_eq_iff)
  then have m: "payloads_of ?build events = messages" by (simp add: assms(4) payloads_of_def)
  obtain k where f: "framed_batch ''syslog'' True ?build frameTCP events (s_sock w) = (r, k)"
    "w' = w\<lparr>s_sock := k\<rparr>"
    using assms(1,3) by (auto simp: syslog_WriteBatch_def split: prod.splits)
  have n: "length (build_errors ''syslog'' ?build events) + length messages = length events"
    using build_errors_length [of "''syslog''" ?build events] m by simp
  have fr: "octet_stream.read_frames (length messages) (concat (map frameTCP messages)) = Some messages"
    by (intro octet_stream.read_frames_concat) auto
  show ?thesis
  proof (cases "messages = []")
    case True
    then have "k = s_sock w \<and> r \<noteq> None" using f(1) assms(2) n m
      by (auto simp: framed_batch_def errors_Join_def Let_def)
    then show ?thesis using f(2) True fr by (intro exI [of _ "[]"]) auto
  next
    case False
    obtain t where t: "wire k = wire (s_sock w) @ t"
      "landed (concat (map frameTCP messages)) t \<and> r = errors_Join (build_errors ''syslog'' ?build events) \<or>
       gave_up (concat (map frameTCP messages)) t \<and> r \<noteq> None"
      using stream_batch [OF f(1)] False m by auto
    have r: "errors_Join (build_errors ''syslog'' ?build events) = None \<longleftrightarrow> length messages = length events"
      using n by (auto simp: errors_Join_def)
    have "octet_stream.read_frames (length ds + length events) (stream (wire k)) \<in> {Some (ds @ messages), Some messages}"
      if "r = None" "stream (wire (s_sock w)) = concat (map frameTCP ds)" for ds
      using octet_stream.stream_read_back [of messages t "wire (s_sock w)" ds] that t r
      by (auto simp: list_all_iff)
    then show ?thesis using t r fr False f(2) by (intro exI [of _ t]) auto
  qed
qed

definition printable_host :: "message \<Rightarrow> bytes option" where
  "printable_host m =
     (if list_all (\<lambda>c. 33 \<le> byte_val c \<and> byte_val c \<le> 126) (Hostname m) then Some (MessageText m) else None)"

definition syslog_tcp :: "string \<Rightarrow> SyslogWriter" where
  "syslog_tcp proto =
     \<lparr>s_cfg = \<lparr>s_Host = ''siem'', s_Port = 514, s_Protocol = proto, s_AppName = ''cee-exporter''\<rparr>,
      s_sock = \<lparr>write_script = [Broke 3], dial_script = [], wire = [Dialled], sock_open = True, close_error = None\<rparr>\<rparr>"

definition syslog_sample :: "string \<Rightarrow> WindowsEvent" where
  "syslog_sample host = Map host (convert sample_raw (mk_time 0 0)) host"

lemma sample_messages:
  "printable_host (syslog_message (syslog_sample ''nas 1'') a) = None"
  "printable_host (syslog_message (syslog_sample ''nas'') a) = Some (ShortMessage (syslog_sample ''nas''))"
  by (simp_all add: printable_host_def syslog_message_def syslog_sample_def Map_def Let_def convert_def
      sample_raw_def)

theorem syslog_batch_stream_witness:
  "\<exists>r w' t. syslog_WriteBatch printable_host [syslog_sample ''nas 1'', syslog_sample ''nas''] (syslog_tcp ''tcp'') = (r, w') \<and>
     r \<noteq> None \<and> wire (s_sock w') = Dialled # t \<and> landed (frameTCP (ShortMessage (syslog_sample ''nas''))) t \<and>
     octet_stream.read_frames 1 (frameTCP (ShortMessage (syslog_sample ''nas''))) = Some [ShortMessage (syslog_sample ''nas'')]"
proof -
  let ?es = "[syslog_sample ''nas 1'', syslog_sample ''nas'']" and ?w = "syslog_tcp ''tcp''"
  let ?m = "ShortMessage (syslog_sample ''nas'')"
  obtain r w' where f: "syslog_WriteBatch printable_host ?es ?w = (r, w')" by fastforce
  have m: "[?m] = List.map_filter (\<lambda>e. printable_host (syslog_message e (s_AppName (s_cfg ?w)))) ?es"
    by (simp add: List.map_filter_simps sample_messages)
  have "wholes (wire (s_sock (snd (syslog_WriteBatch printable_host ?es ?w)))) \<noteq> []"
    by (simp add: syslog_WriteBatch_def framed_batch_def payloads_of_def List.map_filter_simps
        buildSyslog5424_def sample_messages syslog_tcp_def retrySend_def sendWithRetry_def sock_write_def sock_dial_def
        next_outcome_def next_write_def Let_def del: errors_Join_None)
  moreover obtain t where t: "wire (s_sock w') = wire (s_sock ?w) @ t"
      "landed (frameTCP ?m) t \<and> (r = None \<longleftrightarrow> length [?m] = length ?es) \<or> gave_up (frameTCP ?m) t \<and> r \<noteq> None"
      "octet_stream.read_frames 1 (frameTCP ?m) = Some [?m]"
    using syslog_batch_stream [OF _ _ f m] by (auto simp: syslog_tcp_def simp del: octet_stream.read_frames.simps)
  moreover have "wire (s_sock ?w) = [Dialled]" by (simp add: syslog_tcp_def)
  ultimately have "landed (frameTCP ?m) t \<and> r \<noteq> None" using gave_up_wholes f by fastforce
  then show ?thesis using f t by (auto simp: syslog_tcp_def)
qed

text \<open>On UDP a syslog batch loses no event silently.  The datagrams that went out whole are
  messages of the batch in order, one event each, and every event that did not go out,
  because it could not be marshalled or because its sends failed, is one joined error; a
  failing datagram does not stop the ones after it.\<close>

theorem syslog_datagrams_accounted:
  assumes "s_Protocol (s_cfg w) \<noteq> ''tcp''" "syslog_WriteBatch marshal events w = (r, w')"
  shows "\<exists>t errs. wire (s_sock w') = wire (s_sock w) @ t \<and>
    subseq (wholes t) (List.map_filter (\<lambda>e. marshal (syslog_message e (s_AppName (s_cfg w)))) events) \<and>
    r = errors_Join errs \<and> length errs + length (wholes t) = length events"
proof -
  let ?build = "buildSyslog5424 marshal (s_AppName (s_cfg w))"
  have b: "?build = (\<lambda>e. marshal (syslog_message e (s_AppName (s_cfg w))))"
    by (simp add: buildSyslog5424_def fun_eq_iff)
  obtain k where "framed_batch ''syslog'' False ?build frameTCP events (s_sock w) = (r, k)"
    "w' = w\<lparr>s_sock := k\<rparr>"
    using assms by (auto simp: syslog_WriteBatch_def split: prod.splits)
  with datagram_batch [OF this(1)] show ?thesis by (auto simp: payloads_of_def b)
qed

theorem syslog_datagrams_accounted_witness:
  "\<exists>r w' t errs. syslog_WriteBatch printable_host [syslog_sample ''nas 1'', syslog_sample ''nas''] (syslog_tcp ''udp'') = (r, w') \<and>
     wire (s_sock w') = Dialled # t \<and> r = errors_Join errs \<and> length errs + length (wholes t) = 2"
proof -
  obtain r w' where f: "syslog_WriteBatch printable_host [syslog_sample ''nas 1'', syslog_sample ''nas'']
    (syslog_tcp ''udp'') = (r, w')" by fastforce
  show ?thesis using syslog_datagrams_accounted [OF _ f] f by (auto simp: syslog_tcp_def numeral_2_eq_2)
qed

end
