(* ===== verification/Beats_Writer.thy ===== *)
theory Beats_Writer
  imports Writer_Core Go_Json
begin

text \<open>
  The Beats output of \<^verbatim>\<open>pkg/evtx/writer_beats.go\<close>: the map of an event, the writer, single
  events and windows.  The Lumberjack client is a third-party package: what its coming sends
  and dials will do is a script.  A send that fails may have had the first events of its
  window acknowledged already, and the script says how many.
\<close>

section \<open>Definitions\<close>

record BeatsConfig =
  b_Host :: string
  b_Port :: int
  b_TLS :: bool

type_synonym beats_event = "(string \<times> json_value) list"

record SyncClient =
  send_script :: "nat option list"
  redial_script :: "bool list"
  acked :: "beats_event list"
  client_open :: bool
  client_close_error :: "write_error option"

record BeatsWriter =
  b_cfg :: BeatsConfig
  b_client :: SyncClient

definition buildBeatsEvent :: "WindowsEvent \<Rightarrow> beats_event" where
  "buildBeatsEvent e =
     [(''@timestamp'', JString (format_RFC3339Nano (w_TimeCreated e))),
      (''message'', JString (ShortMessage e)),
      (''event_id'', JInt (w_EventID e)),
      (''provider'', JString (w_ProviderName e)),
      (''computer'', JString (w_Computer e)),
      (''user'', JString (w_SubjectUsername e)),
      (''domain'', JString (w_SubjectDomain e)),
      (''user_sid'', JString (w_SubjectUserSID e)),
      (''logon_id'', JString (w_SubjectLogonID e)),
      (''object_name'', JString (w_ObjectName e)),
      (''object_type'', JString (w_ObjectType e)),
      (''access_mask'', JString (w_AccessMask e)),
      (''accesses'', JString (w_Accesses e)),
      (''client_address'', JString (w_ClientAddr e)),
      (''cepa_event_type'', JString (w_CEPAEventType e))]"

text \<open>The client: a send acknowledges its whole window, or fails after some of it.\<close>

definition client_Send :: "beats_event list \<Rightarrow> BeatsWriter \<Rightarrow> write_error option \<times> BeatsWriter" where
  "client_Send window w =
     (let c = b_client w; rest = tl (send_script c) in
      if \<not> client_open c then (Some WriteFailed, w) else
      case (case send_script c of [] \<Rightarrow> None | outcome # _ \<Rightarrow> outcome) of
        None \<Rightarrow> (None, w\<lparr>b_client := c\<lparr>send_script := rest, acked := acked c @ window\<rparr>\<rparr>)
      | Some n \<Rightarrow>
          (Some WriteFailed, w\<lparr>b_client := c\<lparr>send_script := rest, acked := acked c @ take n window\<rparr>\<rparr>))"

definition beats_dial :: "BeatsWriter \<Rightarrow> write_error option \<times> BeatsWriter" where
  "beats_dial w =
     (let c = b_client w; rest = tl (redial_script c) in
      if next_outcome (redial_script c)
      then (None, w\<lparr>b_client := c\<lparr>redial_script := rest, client_open := True\<rparr>\<rparr>)
      else (Some (Wrapped (''beats dial '' @ hostPort (b_Host (b_cfg w)) (b_Port (b_cfg w))) DialFailed),
            w\<lparr>b_client := c\<lparr>redial_script := rest\<rparr>\<rparr>))"

definition beats_defaults :: "BeatsConfig \<Rightarrow> BeatsConfig" where
  "beats_defaults cfg = cfg\<lparr>b_Port := (if b_Port cfg = 0 then 5044 else b_Port cfg)\<rparr>"

definition NewBeatsWriter :: "BeatsConfig \<Rightarrow> SyncClient \<Rightarrow> write_error + BeatsWriter" where
  "NewBeatsWriter cfg net =
     (case beats_dial \<lparr>b_cfg = beats_defaults cfg, b_client = net\<rparr> of
        (None, w) \<Rightarrow> Inr w
      | (Some err, w) \<Rightarrow> Inl (Wrapped ''beats_writer: initial dial:'' err))"

definition close_client :: "BeatsWriter \<Rightarrow> BeatsWriter" where
  "close_client w = w\<lparr>b_client := (b_client w)\<lparr>client_open := False\<rparr>\<rparr>"

definition beats_send :: "string \<Rightarrow> beats_event list \<Rightarrow> BeatsWriter \<Rightarrow> write_error option \<times> BeatsWriter" where
  "beats_send name window w =
     (case sendWithRetry (client_Send window) (\<lambda>w. beats_dial (close_client w)) w of
        (None, w1) \<Rightarrow> (None, w1)
      | (Some err, w1) \<Rightarrow> (Some (Wrapped name err), w1))"

definition beats_WriteEvent :: "WindowsEvent \<Rightarrow> BeatsWriter \<Rightarrow> write_error option \<times> BeatsWriter" where
  "beats_WriteEvent e w = beats_send ''beats'' [buildBeatsEvent e] w"

definition beats_WriteBatch :: "WindowsEvent list \<Rightarrow> BeatsWriter \<Rightarrow> write_error option \<times> BeatsWriter" where
  "beats_WriteBatch events w =
     (if events = [] then (None, w) else beats_send ''beats batch'' (map buildBeatsEvent events) w)"

definition beats_Close :: "BeatsWriter \<Rightarrow> write_error option \<times> BeatsWriter" where
  "beats_Close w = (client_close_error (b_client w), close_client w)"

section \<open>Delivery\<close>

lemma client_Send_acked:
  "client_Send window w = (r, w') \<Longrightarrow>
    \<exists>n. acked (b_client w') = acked (b_client w) @ (if r = None then window else take n window)"
  by (auto simp: client_Send_def Let_def intro: exI [of _ 0] split: option.splits if_splits)

lemma beats_dial_acked: "beats_dial w = (r, w') \<Longrightarrow> acked (b_client w') = acked (b_client w)"
  by (auto simp: beats_dial_def Let_def split: if_splits)

lemma beats_send_acked:
  assumes "beats_send name window w = (r, w')"
  shows "\<exists>n m. acked (b_client w') =
    acked (b_client w) @ take n window @ (if r = None then window else take m window)"
proof -
  obtain r1 w1 where s1: "client_Send window w = (r1, w1)" by fastforce
  obtain n where n: "acked (b_client w1) = acked (b_client w) @ (if r1 = None then window else take n window)"
    using client_Send_acked [OF s1] by blast
  obtain r2 w2 where d: "beats_dial (close_client w1) = (r2, w2)" by fastforce
  have a2: "acked (b_client w2) = acked (b_client w1)"
    using beats_dial_acked [OF d] by (simp add: close_client_def)
  obtain r3 w3 where s3: "client_Send window w2 = (r3, w3)" by fastforce
  obtain m where m: "acked (b_client w3) = acked (b_client w2) @ (if r3 = None then window else take m window)"
    using client_Send_acked [OF s3] by blast
  show ?thesis
  proof (cases r1)
    case None
    then show ?thesis using assms s1 n
      by (intro exI [of _ 0]) (auto simp: beats_send_def sendWithRetry_def)
  next
    case (Some e1)
    show ?thesis
    proof (cases r2)
      case None
      then show ?thesis using assms s1 Some d s3 n a2 m
        by (intro exI [of _ n] exI [of _ m])
          (auto simp: beats_send_def sendWithRetry_def split: option.splits)
    next
      case (Some e2)
      then show ?thesis using assms s1 \<open>r1 = Some e1\<close> d n a2
        by (intro exI [of _ n] exI [of _ 0]) (auto simp: beats_send_def sendWithRetry_def)
    qed
  qed
qed

text \<open>C35: A Beats window is delivered whole or reported, and a retry can only repeat.  Whatever
  the client does, the events it acknowledged during \<^verbatim>\<open>WriteBatch\<close> are a prefix of the batch (a
  first attempt that broke off) followed by the whole batch when the result is nil, and by
  another prefix when it is an error: no event of a batch reported as written is missing, and
  none is out of order within an attempt.\<close>

theorem beats_window_delivered:
  "\<exists>n m. acked (b_client (snd (beats_WriteBatch events w))) =
    acked (b_client w) @ take n (map buildBeatsEvent events) @
    (if fst (beats_WriteBatch events w) = None then map buildBeatsEvent events
     else take m (map buildBeatsEvent events))"
proof -
  obtain r w' where "beats_send ''beats batch'' (map buildBeatsEvent events) w = (r, w')" by fastforce
  with beats_send_acked [OF this] show ?thesis by (auto simp: beats_WriteBatch_def)
qed

text \<open>The event map: one value for each key, and a timestamp that reads back as the instant.\<close>

lemma beats_keys_distinct: "distinct (map fst (buildBeatsEvent e))"
  by (simp add: buildBeatsEvent_def)

lemma beats_timestamp:
  assumes "year_in_range (w_TimeCreated e)" "time_ok (w_TimeCreated e)"
  shows "\<exists>s. map_of (buildBeatsEvent e) ''@timestamp'' = Some (JString s) \<and>
    time_Parse RFC3339Nano s = Some (w_TimeCreated e)"
  using time_Parse_format [OF assms(2,1)] by (simp add: buildBeatsEvent_def)

end
