(* ===== verification/Evtx_Fields.thy ===== *)
theory Evtx_Fields
  imports Writer_Core Go_Time Metrics
begin

text \<open>
  The fields of a binary event record (\<^verbatim>\<open>pkg/evtx/writer_evtx_notwindows.go\<close>): the map an
  event becomes, the cap on each value and the budget on all of them together, counted in
  encoded bytes.  The map is a list of its entries; Go visits a map in any order, which only
  decides which of several longest values is cut first, and that choice is a parameter.
\<close>

section \<open>Definitions\<close>

type_synonym field_map = "(string \<times> string) list"

definition maxRecordBytes :: nat where "maxRecordBytes = 64996"

definition binXMLOverheadBytes :: nat where "binXMLOverheadBytes = 4096"

definition maxEncodedFieldsBytes :: nat where
  "maxEncodedFieldsBytes = maxRecordBytes - binXMLOverheadBytes"

definition maxFieldBytes :: nat where "maxFieldBytes = 8192"

definition truncationMarker :: string where
  "truncationMarker = [CHR 0xE2, CHR 0x80, CHR 0xA6] @ ''[truncated]''"

definition levelInformation :: string where "levelInformation = ''4''"

definition keywordsClassic :: string where "keywordsClassic = ''0x80000000000000''"

definition encodedLen :: "string \<Rightarrow> nat" where
  "encodedLen s = 4 + 2 * length (utf16_encode (runes_of s))"

text \<open>\<^verbatim>\<open>utf8.RuneStart\<close>, and the loop that backs off to one.\<close>

definition rune_start :: "char \<Rightarrow> bool" where
  "rune_start c \<longleftrightarrow> \<not> is_cont (byte_val c)"

fun back_off :: "string \<Rightarrow> nat \<Rightarrow> nat" where
  "back_off s 0 = 0"
| "back_off s (Suc k) = (if rune_start (s ! Suc k) then Suc k else back_off s k)"

definition truncateField :: "string \<Rightarrow> string \<times> bool" where
  "truncateField s =
     (if length s \<le> maxFieldBytes then (s, False)
      else (take (back_off s (maxFieldBytes - length truncationMarker)) s @ truncationMarker, True))"

definition encoded_total :: "field_map \<Rightarrow> nat" where
  "encoded_total fs = sum_list (map (\<lambda>f. encodedLen (snd f)) fs)"

definition longest_value :: "field_map \<Rightarrow> nat" where
  "longest_value fs = fold max (map (\<lambda>f. length (snd f)) fs) 0"

definition longest_at :: "nat \<Rightarrow> field_map \<Rightarrow> nat" where
  "longest_at pick fs =
     (let candidates = filter (\<lambda>i. length (snd (fs ! i)) = longest_value fs) [0..<length fs] in
      candidates ! (pick mod length candidates))"

lemma longest_value_ge: "f \<in> set fs \<Longrightarrow> length (snd f) \<le> longest_value fs"
  unfolding longest_value_def Max.set_eq_fold [symmetric] by (auto intro: Max_ge)

lemma longest_value_cases: "longest_value fs = 0 \<or> (\<exists>f \<in> set fs. length (snd f) = longest_value fs)"
proof -
  have "longest_value fs \<in> insert 0 (set (map (\<lambda>f. length (snd f)) fs))"
    unfolding longest_value_def Max.set_eq_fold [symmetric] by (metis Max_in finite_set list.set(2) list.distinct(1) set_empty)
  then show ?thesis by (metis (no_types, lifting) image_iff insert_iff list.set_map)
qed

lemma longest_at:
  assumes "0 < longest_value fs"
  shows "longest_at pick fs < length fs" "length (snd (fs ! longest_at pick fs)) = longest_value fs"
proof -
  let ?c = "filter (\<lambda>i. length (snd (fs ! i)) = longest_value fs) [0..<length fs]"
  obtain i where "i < length fs" "length (snd (fs ! i)) = longest_value fs"
    using longest_value_cases [of fs] assms by (auto simp: in_set_conv_nth)
  then have "i \<in> set ?c" by simp
  then have "0 < length ?c" by (metis length_pos_if_in_set)
  then have "longest_at pick fs \<in> set ?c"
    unfolding longest_at_def Let_def by (intro nth_mem mod_less_divisor)
  then show "longest_at pick fs < length fs" "length (snd (fs ! longest_at pick fs)) = longest_value fs"
    by simp_all
qed

text \<open>The source's scan over the map in any order finds one of these positions.\<close>

fun scan :: "nat list \<Rightarrow> field_map \<Rightarrow> nat \<times> nat \<Rightarrow> nat \<times> nat" where
  "scan [] fs (key, longest) = (key, longest)"
| "scan (i # is) fs (key, longest) =
     (if longest < length (snd (fs ! i)) then scan is fs (i, length (snd (fs ! i)))
      else scan is fs (key, longest))"

lemma scan_longest:
  "scan is fs (key, longest) = (key', longest') \<Longrightarrow>
    longest \<le> longest' \<and> (\<forall>i \<in> set is. length (snd (fs ! i)) \<le> longest') \<and>
    (longest' = longest \<and> key' = key \<or> key' \<in> set is \<and> length (snd (fs ! key')) = longest')"
  by (induction "is" arbitrary: key longest) (fastforce split: if_splits)+

section \<open>Lengths\<close>

lemma rune_units: "is_scalar r \<Longrightarrow> length (utf16_encode_rune r) \<le> length (append_rune r)"
  by (auto simp: utf16_encode_rune_def append_rune_def Let_def)

lemma encoded_units: "length (utf16_encode (runes_of s)) \<le> length s"
proof (induction s rule: runes_of.induct)
  case (1 s)
  show ?case
  proof (cases "s = []")
    case False
    obtain r n where d: "decode_rune s = (r, n)" by fastforce
    have "length (utf16_encode_rune r) \<le> n \<and> n \<le> length s"
    proof (cases "valid_rune s")
      case None
      then show ?thesis using d False
        by (cases s) (auto simp: decode_rune_def utf16_encode_rune_def)
    next
      case (Some p)
      then show ?thesis using d valid_rune_Some [of s r n] rune_units [of r]
        by (auto simp: decode_rune_def)
    qed
    moreover have "length (utf16_encode (runes_of (drop n s))) \<le> length s - n" using 1 [OF False] d by simp
    moreover have "length (utf16_encode (runes_of s)) =
        length (utf16_encode_rune r) + length (utf16_encode (runes_of (drop n s)))"
      using False d by (simp add: runes_of.simps [of s] utf16_encode_def del: length_concat)
    ultimately show ?thesis by linarith
  qed (simp add: utf16_encode_def)
qed

lemma encodedLen_le: "encodedLen s \<le> 4 + 2 * length s"
  using encoded_units [of s] by (simp add: encodedLen_def)

lemma encoded_total_le: "encoded_total fs \<le> length fs * (4 + 2 * longest_value fs)"
proof -
  have "encodedLen (snd f) \<le> 4 + 2 * longest_value fs" if "f \<in> set fs" for f
    using encodedLen_le [of "snd f"] longest_value_ge [OF that] by linarith
  then have "sum_list (map (\<lambda>f. encodedLen (snd f)) fs) \<le> sum_list (map (\<lambda>f. 4 + 2 * longest_value fs) fs)"
    by (intro sum_list_mono) auto
  then show ?thesis by (simp add: encoded_total_def sum_list_triv)
qed

lemma back_off_le: "back_off s k \<le> k"
  by (induction k) auto

lemma back_off_start: "0 < back_off s k \<Longrightarrow> rune_start (s ! back_off s k)"
  by (induction k) (auto split: if_splits)

lemma length_marker [simp]: "length truncationMarker = 14"
  by (simp add: truncationMarker_def)

section \<open>The budget\<close>

definition field_bytes :: "field_map \<Rightarrow> nat" where
  "field_bytes fs = sum_list (map (\<lambda>f. length (snd f)) fs)"

lemma sum_list_map_update_nat:
  fixes g :: "'a \<Rightarrow> nat"
  assumes "i < length xs"
  shows "sum_list (map g (xs[i := x])) + g (xs ! i) = sum_list (map g xs) + g x"
proof -
  have "g (xs ! i) \<le> sum_list (map g xs)" using assms by (intro elem_le_sum_list [of i "map g xs", simplified]) simp_all
  then show ?thesis using assms by (simp add: map_update sum_list_update)
qed

text \<open>One round makes a longest value strictly shorter.\<close>

lemma shorten:
  assumes "14 < longest_value fs"
    and "i = longest_at pick fs" "keep = back_off (snd (fs ! i)) (longest_value fs div 2)"
    and "keep + 14 < longest_value fs"
  shows "i < length fs" "length (snd (fs ! i)) = longest_value fs"
    "length (take keep (snd (fs ! i)) @ truncationMarker) < longest_value fs"
    "field_bytes (fs[i := (k, take keep (snd (fs ! i)) @ truncationMarker)]) < field_bytes fs"
proof -
  show i: "i < length fs" "length (snd (fs ! i)) = longest_value fs"
    using longest_at [of fs pick] assms(1,2) by auto
  show l: "length (take keep (snd (fs ! i)) @ truncationMarker) < longest_value fs"
    using assms(4) by simp
  show "field_bytes (fs[i := (k, take keep (snd (fs ! i)) @ truncationMarker)]) < field_bytes fs"
    using sum_list_map_update_nat [OF i(1), of "\<lambda>f. length (snd f)"
        "(k, take keep (snd (fs ! i)) @ truncationMarker)"] l i(2)
    unfolding field_bytes_def by simp
qed

function enforce_loop :: "(nat \<Rightarrow> nat) \<Rightarrow> nat \<Rightarrow> field_map \<Rightarrow> int \<Rightarrow> field_map" where
  "enforce_loop pick n fs used =
     (if used \<le> int maxEncodedFieldsBytes then fs
      else if longest_value fs \<le> length truncationMarker then fs
      else
        (let i = longest_at (pick n) fs; v = snd (fs ! i); keep = back_off v (longest_value fs div 2);
             v' = take keep v @ truncationMarker in
         if longest_value fs \<le> keep + length truncationMarker then fs
         else enforce_loop pick (n + 1) (fs[i := (fst (fs ! i), v')])
                (used + (int (encodedLen v') - int (encodedLen v)))))"
  by pat_completeness auto
termination
  by (relation "measure (\<lambda>(pick, n, fs, used). field_bytes fs)") (auto intro!: shorten(4))

declare enforce_loop.simps [simp del]

definition enforceEncodedBudget :: "(nat \<Rightarrow> nat) \<Rightarrow> field_map \<Rightarrow> field_map \<times> bool" where
  "enforceEncodedBudget pick fs =
     (let used = encoded_total fs in
      if used \<le> maxEncodedFieldsBytes then (fs, False)
      else (enforce_loop pick 0 fs (int used), True))"

lemma budget [simp]: "maxEncodedFieldsBytes = 60900"
  by (simp add: maxEncodedFieldsBytes_def maxRecordBytes_def binXMLOverheadBytes_def)

lemma over_budget:
  assumes "60900 < encoded_total fs" "length fs \<le> 19"
  shows "1600 < longest_value fs"
proof (rule ccontr)
  assume "\<not> 1600 < longest_value fs"
  then have "4 + 2 * longest_value fs \<le> 3204" by simp
  then have "length fs * (4 + 2 * longest_value fs) \<le> 19 * 3204" using assms(2) by (intro mult_le_mono)
  then show False using encoded_total_le [of fs] assms(1) by simp
qed

lemma encoded_update:
  assumes "i < length fs"
  shows "int (encoded_total (fs[i := (k, v')])) =
    int (encoded_total fs) + (int (encodedLen v') - int (encodedLen (snd (fs ! i))))"
  using sum_list_map_update_nat [OF assms, of "\<lambda>f. encodedLen (snd f)" "(k, v')"]
  by (simp add: encoded_total_def)

text \<open>With at most nineteen values the loop always gets below the budget, and it only cuts
  values of more than 1600 bytes.\<close>

lemma enforce_loop_step:
  assumes "used = int (encoded_total fs)" "60900 < used" "length fs \<le> 19"
  obtains i keep where "i < length fs" "1600 < length (snd (fs ! i))" "0 < keep \<longrightarrow> rune_start (snd (fs ! i) ! keep)"
    "keep < length (snd (fs ! i))"
    "field_bytes (fs[i := (fst (fs ! i), take keep (snd (fs ! i)) @ truncationMarker)]) < field_bytes fs"
    "enforce_loop pick n fs used =
      enforce_loop pick (n + 1) (fs[i := (fst (fs ! i), take keep (snd (fs ! i)) @ truncationMarker)])
       (int (encoded_total (fs[i := (fst (fs ! i), take keep (snd (fs ! i)) @ truncationMarker)])))"
proof -
  let ?l = "longest_value fs" and ?i = "longest_at (pick n) fs"
  let ?keep = "back_off (snd (fs ! ?i)) (?l div 2)"
  have l: "1600 < ?l" using over_budget assms by simp
  have k: "?keep \<le> ?l div 2" by (rule back_off_le)
  then have k2: "?keep + 14 < ?l" using l by simp
  have i: "?i < length fs" "length (snd (fs ! ?i)) = ?l" using longest_at [of fs "pick n"] l by auto
  show thesis
  proof (rule that [of ?i ?keep])
    show "field_bytes (fs[?i := (fst (fs ! ?i), take ?keep (snd (fs ! ?i)) @ truncationMarker)]) < field_bytes fs"
      using shorten(4) [OF _ refl refl k2] l by simp
    show "enforce_loop pick n fs used =
      enforce_loop pick (n + 1) (fs[?i := (fst (fs ! ?i), take ?keep (snd (fs ! ?i)) @ truncationMarker)])
       (int (encoded_total (fs[?i := (fst (fs ! ?i), take ?keep (snd (fs ! ?i)) @ truncationMarker)])))"
      using l k2 assms(1,2) encoded_update [OF i(1)]
      by (subst enforce_loop.simps) (simp add: Let_def)
  qed (use i l k2 back_off_start in auto)
qed

lemma enforce_loop_result:
  assumes "used = int (encoded_total fs)" "length fs \<le> 19"
  shows "encoded_total (enforce_loop pick n fs used) \<le> 60900 \<and>
    map fst (enforce_loop pick n fs used) = map fst fs \<and>
    field_bytes (enforce_loop pick n fs used) \<le> field_bytes fs \<and>
    (60900 < used \<longrightarrow> field_bytes (enforce_loop pick n fs used) < field_bytes fs) \<and>
    (\<forall>i < length fs. length (snd (fs ! i)) \<le> 1600 \<longrightarrow> enforce_loop pick n fs used ! i = fs ! i)"
  using assms
proof (induction "field_bytes fs" arbitrary: fs n used rule: less_induct)
  case less
  show ?case
  proof (cases "60900 < used")
    case False
    then have "enforce_loop pick n fs used = fs" by (subst enforce_loop.simps) simp
    then show ?thesis using less.prems False by simp
  next
    case True
    obtain i keep where i: "i < length fs" "1600 < length (snd (fs ! i))"
      and b: "field_bytes (fs[i := (fst (fs ! i), take keep (snd (fs ! i)) @ truncationMarker)]) < field_bytes fs"
      and e: "enforce_loop pick n fs used =
        enforce_loop pick (n + 1) (fs[i := (fst (fs ! i), take keep (snd (fs ! i)) @ truncationMarker)])
         (int (encoded_total (fs[i := (fst (fs ! i), take keep (snd (fs ! i)) @ truncationMarker)])))"
      using enforce_loop_step [OF less.prems(1) True less.prems(2)] by metis
    let ?fs' = "fs[i := (fst (fs ! i), take keep (snd (fs ! i)) @ truncationMarker)]"
    have k: "map fst ?fs' = map fst fs" using i(1) by (simp add: map_update list_update_same_conv)
    have o: "?fs' ! j = fs ! j" if "length (snd (fs ! j)) \<le> 1600" for j
      using that i(2) by (cases "j = i") (auto simp: nth_list_update_neq)
    have ih: "encoded_total (enforce_loop pick n fs used) \<le> 60900"
      "map fst (enforce_loop pick n fs used) = map fst ?fs'"
      "field_bytes (enforce_loop pick n fs used) \<le> field_bytes ?fs'"
      "\<And>j. j < length fs \<Longrightarrow> length (snd (?fs' ! j)) \<le> 1600 \<Longrightarrow> enforce_loop pick n fs used ! j = ?fs' ! j"
      unfolding e using less.hyps [OF b refl, of "n + 1"] less.prems(2) by auto
    have "enforce_loop pick n fs used ! j = fs ! j" if "j < length fs" "length (snd (fs ! j)) \<le> 1600" for j
      using ih(4) [OF that(1)] o [OF that(2)] that(2) by simp
    then show ?thesis using ih(1-3) k b by simp
  qed
qed

section \<open>Runes\<close>

lemma append_rune_cont:
  assumes "0 < k" "k < length (append_rune r)"
  shows "\<not> rune_start (append_rune r ! k)"
proof -
  have c: "is_cont (byte_val (char_of (128 + n mod 64) :: char))" for n :: nat
    using mod_less_divisor [of 64 n] by (simp add: is_cont_def byte_val_char_of)
  have "k = 1 \<or> k = 2 \<or> k = 3" using assms by (auto simp: append_rune_def Let_def split: if_splits)
  moreover have "is_cont 191" "is_cont 189" by (simp_all add: is_cont_def)
  ultimately show ?thesis using assms c
    by (auto simp: append_rune_def Let_def rune_start_def split: if_splits)
qed

lemma valid_take:
  assumes "valid_utf8 s" "k < length s" "rune_start (s ! k)"
  shows "valid_utf8 (take k s)"
proof -
  obtain rs where "s = utf8_encode rs" using assms(1) by (auto simp: valid_utf8_iff)
  with assms(2,3) show ?thesis
  proof (induction rs arbitrary: s k)
    case (Cons r rs)
    consider "k = 0" | "0 < k" "k < length (append_rune r)" | "length (append_rune r) \<le> k" by linarith
    then show ?case
    proof cases
      case 2
      then show ?thesis using Cons.prems append_rune_cont [of k r] by (simp add: nth_append)
    next
      case 3
      then show ?thesis using Cons by (simp add: nth_append)
    qed simp
  qed simp
qed

lemma valid_marker [simp]: "valid_utf8 truncationMarker"
proof -
  have "truncationMarker = append_rune 0x2026 @ ''[truncated]''"
    by (simp add: truncationMarker_def append_rune_def is_scalar_def is_surrogate_def)
      (simp add: char_of_def bit_simps)
  moreover have "valid_utf8 (append_rune 0x2026 @ ''[truncated]'')" by (subst valid_utf8_append_any) simp
  ultimately show ?thesis by (simp only:)
qed

lemma valid_cut:
  assumes "valid_utf8 s" "keep < length s" "0 < keep \<longrightarrow> rune_start (s ! keep)"
  shows "valid_utf8 (take keep s @ truncationMarker)"
  using assms valid_take [of s keep] by (cases "keep = 0") (auto simp: valid_utf8_append)

lemma truncateField_valid: "valid_utf8 s \<Longrightarrow> valid_utf8 (fst (truncateField s))"
  using valid_cut [of s "back_off s 8178"] back_off_start [of s 8178] back_off_le [of s 8178]
  by (auto simp: truncateField_def maxFieldBytes_def)

lemma truncateField_length: "length (fst (truncateField s)) \<le> 8192"
  using back_off_le [of s 8178] by (auto simp: truncateField_def maxFieldBytes_def)

lemma truncateField_flag: "snd (truncateField s) \<longleftrightarrow> fst (truncateField s) \<noteq> s"
proof -
  have "fst (truncateField s) \<noteq> s" if "8192 < length s"
    using truncateField_length [of s] that by auto
  then show ?thesis by (auto simp: truncateField_def maxFieldBytes_def)
qed

lemma truncateField_short: "length s \<le> 8192 \<Longrightarrow> truncateField s = (s, False)"
  by (simp add: truncateField_def maxFieldBytes_def)

lemma enforce_loop_valid:
  assumes "used = int (encoded_total fs)" "length fs \<le> 19" "list_all (\<lambda>f. valid_utf8 (snd f)) fs"
  shows "list_all (\<lambda>f. valid_utf8 (snd f)) (enforce_loop pick n fs used)"
  using assms
proof (induction "field_bytes fs" arbitrary: fs n used rule: less_induct)
  case less
  show ?case
  proof (cases "60900 < used")
    case False
    then have "enforce_loop pick n fs used = fs" by (subst enforce_loop.simps) simp
    then show ?thesis using less.prems(3) by simp
  next
    case True
    obtain i keep where i: "i < length fs" "0 < keep \<longrightarrow> rune_start (snd (fs ! i) ! keep)" "keep < length (snd (fs ! i))"
      and b: "field_bytes (fs[i := (fst (fs ! i), take keep (snd (fs ! i)) @ truncationMarker)]) < field_bytes fs"
      and e: "enforce_loop pick n fs used =
        enforce_loop pick (n + 1) (fs[i := (fst (fs ! i), take keep (snd (fs ! i)) @ truncationMarker)])
         (int (encoded_total (fs[i := (fst (fs ! i), take keep (snd (fs ! i)) @ truncationMarker)])))"
      using enforce_loop_step [OF less.prems(1) True less.prems(2)] by metis
    have "valid_utf8 (snd (fs ! i))" using less.prems(3) i(1) by (simp add: list_all_length)
    then have "valid_utf8 (take keep (snd (fs ! i)) @ truncationMarker)" using valid_cut i(2,3) by blast
    then have "list_all (\<lambda>f. valid_utf8 (snd f)) (fs[i := (fst (fs ! i), take keep (snd (fs ! i)) @ truncationMarker)])"
      using less.prems(3) i(1) by (simp add: list_all_length nth_list_update)
    then show ?thesis unfolding e
      using less.hyps [OF b refl, of "n + 1"] less.prems(2) by simp
  qed
qed

section \<open>The fields of an event\<close>

text \<open>Every entry with whether its value goes through the cap.\<close>

definition record_values :: "WindowsEvent \<Rightarrow> (string \<times> bool \<times> string) list" where
  "record_values e =
     [(''ProviderName'', True, if w_ProviderName e = [] then DefaultProviderName else w_ProviderName e),
      (''Channel'', True, if w_Channel e = [] then DefaultChannel else w_Channel e),
      (''Level'', False, levelInformation),
      (''Keywords'', False, keywordsClassic),
      (''Computer'', True, w_Computer e),
      (''TimeCreated'', False, format_RFC3339Nano (w_TimeCreated e)),
      (''SubjectUserSid'', True, w_SubjectUserSID e),
      (''SubjectUserName'', True, w_SubjectUsername e),
      (''SubjectDomainName'', True, w_SubjectDomain e),
      (''SubjectLogonId'', True, w_SubjectLogonID e),
      (''ObjectServer'', False, ''Security''),
      (''ObjectType'', True, w_ObjectType e),
      (''ObjectName'', True, w_ObjectName e),
      (''HandleId'', True, w_HandleID e),
      (''AccessList'', True, w_Accesses e),
      (''AccessMask'', True, w_AccessMask e),
      (''ProcessId'', False, Itoa (w_ProcessID e)),
      (''ProcessName'', False, []),
      (''IpAddress'', True, w_ClientAddr e)]"

definition windowsEventToFields :: "(nat \<Rightarrow> nat) \<Rightarrow> WindowsEvent \<Rightarrow> field_map \<times> bool" where
  "windowsEventToFields pick e =
     (let fs = map (\<lambda>(k, clip, v). (k, if clip then fst (truncateField v) else v)) (record_values e);
          clipped = list_ex (\<lambda>(k, clip, v). clip \<and> snd (truncateField v)) (record_values e) in
      case enforceEncodedBudget pick fs of (fs', shrunk) \<Rightarrow> (fs', clipped \<or> shrunk))"

text \<open>What the record would hold without any bound.\<close>

definition plain_fields :: "WindowsEvent \<Rightarrow> field_map" where
  "plain_fields e = map (\<lambda>(k, clip, v). (k, v)) (record_values e)"

definition clipped_fields :: "WindowsEvent \<Rightarrow> field_map" where
  "clipped_fields e = map (\<lambda>(k, clip, v). (k, if clip then fst (truncateField v) else v)) (record_values e)"

lemma length_fields [simp]: "length (plain_fields e) = 19" "length (clipped_fields e) = 19"
    "map fst (clipped_fields e) = map fst (plain_fields e)"
  by (simp_all add: plain_fields_def clipped_fields_def record_values_def)

lemma fields_cases:
  "windowsEventToFields pick e =
    (if encoded_total (clipped_fields e) \<le> 60900 then (clipped_fields e, clipped_fields e \<noteq> plain_fields e)
     else (enforce_loop pick 0 (clipped_fields e) (int (encoded_total (clipped_fields e))), True))"
proof -
  have "list_ex (\<lambda>(k, clip, v). clip \<and> snd (truncateField v)) xs \<longleftrightarrow>
    map (\<lambda>(k, clip, v). (k, if clip then fst (truncateField v) else v)) xs \<noteq> map (\<lambda>(k, clip, v). (k, v)) xs"
    for xs :: "(string \<times> bool \<times> string) list"
    by (induction xs) (auto simp: truncateField_flag)
  then show ?thesis
    by (simp add: windowsEventToFields_def enforceEncodedBudget_def clipped_fields_def plain_fields_def Let_def)
qed

lemma clip_le: "length (if c then fst (truncateField v) else v) \<le> length v"
  by (cases "length v \<le> 8192") (use truncateField_length [of v] in \<open>auto simp: truncateField_short\<close>)

lemma clipped_bytes: "field_bytes (clipped_fields e) \<le> field_bytes (plain_fields e)"
proof -
  have "field_bytes (map (\<lambda>(k, clip, v). (k, if clip then fst (truncateField v) else v)) xs) \<le>
    field_bytes (map (\<lambda>(k, clip, v). (k, v)) xs)" for xs :: "(string \<times> bool \<times> string) list"
  proof (induction xs)
    case (Cons x xs)
    obtain k c v where "x = (k, c, v)" by (cases x)
    then show ?case using Cons clip_le [of c v] by (simp add: field_bytes_def)
  qed (simp add: field_bytes_def)
  then show ?thesis by (simp add: clipped_fields_def plain_fields_def)
qed

text \<open>C23: A binary record always fits.  For every event, however long its texts and whichever
  of several longest values the map iteration meets first, the fields encode to no more
  than the budget that leaves room in one record; and the flag that counts a truncation is
  set exactly when some value was changed.\<close>

theorem record_fits:
  "encoded_total (fst (windowsEventToFields pick e)) \<le> maxEncodedFieldsBytes \<and>
   (snd (windowsEventToFields pick e) \<longleftrightarrow> fst (windowsEventToFields pick e) \<noteq> plain_fields e)"
proof (cases "encoded_total (clipped_fields e) \<le> 60900")
  case False
  note r = enforce_loop_result [OF refl, of "clipped_fields e" pick 0]
  have "field_bytes (fst (windowsEventToFields pick e)) < field_bytes (plain_fields e)"
    using r False clipped_bytes [of e] by (auto simp: fields_cases)
  then show ?thesis using r False by (auto simp: fields_cases)
qed (simp add: fields_cases)

lemma clip_survives:
  assumes "(k, v) \<in> set (plain_fields e)" "length v \<le> 1600"
  shows "(k, v) \<in> set (clipped_fields e)"
proof -
  obtain c where "(k, c, v) \<in> set (record_values e)" using assms(1) by (auto simp: plain_fields_def)
  then have "(k, if c then fst (truncateField v) else v) \<in> set (clipped_fields e)"
    unfolding clipped_fields_def by (force intro: rev_image_eqI)
  then show ?thesis using assms(2) by (cases c) (simp_all add: truncateField_short)
qed

text \<open>Truncation never costs the identity of an event.  Every entry whose value has at most
  1600 bytes (SID, logon, mask, address, any path up to that length) reaches the record
  unchanged, no matter how long the others are, under every key the record should have.\<close>

theorem short_values_survive:
  assumes "(k, v) \<in> set (plain_fields e)" "length v \<le> 1600"
  shows "(k, v) \<in> set (fst (windowsEventToFields pick e)) \<and>
    map fst (fst (windowsEventToFields pick e)) = map fst (plain_fields e)"
proof -
  obtain i where i: "i < 19" "clipped_fields e ! i = (k, v)"
    using clip_survives [OF assms] by (auto simp: in_set_conv_nth)
  note r = enforce_loop_result [OF refl, of "clipped_fields e" pick 0]
  have "length (enforce_loop pick 0 (clipped_fields e) (int (encoded_total (clipped_fields e)))) = 19"
    using r by (metis length_fields(1,3) length_map order_refl length_fields(2))
  moreover have "enforce_loop pick 0 (clipped_fields e) (int (encoded_total (clipped_fields e))) ! i = (k, v)"
    using r i assms(2) by simp
  ultimately have "(k, v) \<in> set (enforce_loop pick 0 (clipped_fields e) (int (encoded_total (clipped_fields e))))"
    using i(1) by (metis nth_mem)
  then show ?thesis using r clip_survives [OF assms] by (auto simp: fields_cases)
qed

definition long_name :: WindowsEvent where
  "long_name =
     \<lparr>w_EventID = 4663, w_ProviderName = [], w_Computer = ''nas'', w_Channel = [],
      w_TimeCreated = mk_time 0 0, w_SubjectUserSID = ''S-1-5'', w_SubjectUsername = ''bob'',
      w_SubjectDomain = [], w_SubjectLogonID = ''0x3e7'', w_ObjectType = ''File'',
      w_ObjectName = replicate 9000 CHR ''a'', w_AccessMask = ''0x2'', w_Accesses = ''WriteData'',
      w_ProcessID = 0, w_HandleID = ''0x1'', w_ClientAddr = ''10.0.0.1'', w_BytesRead = 0,
      w_BytesWritten = 0, w_NumberOfReads = 0, w_NumberOfWrites = 0, w_CEPAEventType = []\<rparr>"

theorem short_values_survive_witness:
  "(''IpAddress'', ''10.0.0.1'') \<in> set (fst (windowsEventToFields (\<lambda>n. 0) long_name))"
proof -
  have "(''IpAddress'', ''10.0.0.1'') \<in> set (plain_fields long_name)"
    by (simp add: plain_fields_def record_values_def long_name_def)
  then show ?thesis using short_values_survive [of "''IpAddress''" "''10.0.0.1''" long_name] by simp
qed

text \<open>The values the writer formats itself are ASCII.\<close>

lemma valid_digits: "list_all is_digit s \<Longrightarrow> valid_utf8 (s @ t) = valid_utf8 t"
  by (induction s) (auto simp: is_digit_def)

lemma padded_all_digits: "list_all is_digit (padded w n)"
proof -
  have "list_all is_digit (replicate k CHR ''0'')" for k by (induction k) (simp_all add: is_digit_def)
  then show ?thesis by (simp add: padded_def format_nat_digits)
qed

lemma valid_padded [simp]: "valid_utf8 (padded w n @ t) = valid_utf8 t"
  by (rule valid_digits [OF padded_all_digits])

lemma valid_formats:
  "valid_utf8 (format_RFC3339Nano t)" "valid_utf8 (Itoa n)"
proof -
  have y: "valid_utf8 (padded_year y @ s) = valid_utf8 s" for y s by (simp add: padded_year_def)
  have f: "valid_utf8 (format_fraction n @ s) = valid_utf8 s" for n s
  proof -
    let ?ds = "rev (dropWhile (\<lambda>c. c = CHR ''0'') (rev (padded 9 n)))"
    have "list_all is_digit ?ds" using padded_all_digits [of 9 n] by (auto simp: list_all_iff dest: set_dropWhileD)
    then show ?thesis by (simp add: format_fraction_def Let_def valid_digits)
  qed
  show "valid_utf8 (format_RFC3339Nano t)"
    by (simp add: format_RFC3339Nano_def format_date_def format_clock_def Let_def y f split: prod.split)
  show "valid_utf8 (Itoa n)"
    using valid_digits [OF format_nat_digits, of _ "[]"] by (simp add: Itoa_def)
qed

text \<open>C34: Truncation keeps texts well formed.  When the texts of the event are valid UTF-8, so is
  every value of the record: a cut never splits a character.\<close>

theorem truncation_keeps_utf8:
  assumes "list_all (\<lambda>f. valid_utf8 (snd f)) (plain_fields e)"
  shows "list_all (\<lambda>f. valid_utf8 (snd f)) (fst (windowsEventToFields pick e))"
proof -
  have "list_all (\<lambda>f. valid_utf8 (snd f)) (clipped_fields e)"
    using assms by (auto simp: list_all_iff clipped_fields_def plain_fields_def truncateField_valid)
  then show ?thesis using enforce_loop_valid [OF refl, of "clipped_fields e" pick 0] by (simp add: fields_cases)
qed

theorem truncation_keeps_utf8_witness:
  "list_all (\<lambda>f. valid_utf8 (snd f)) (fst (windowsEventToFields (\<lambda>n. 0) long_name))"
proof -
  have "valid_utf8 (replicate 9000 CHR ''a'')" by (rule valid_utf8_all_ascii) (simp)
  then have "list_all (\<lambda>f. valid_utf8 (snd f)) (plain_fields long_name)"
    by (simp add: plain_fields_def record_values_def long_name_def levelInformation_def keywordsClassic_def
        valid_formats DefaultProviderName_def DefaultChannel_def)
  then show ?thesis by (rule truncation_keeps_utf8)
qed

end
