(* ===== verification/Outputs.thy ===== *)
theory Outputs
  imports Gelf_Writer Syslog_Writer Beats_Writer Evtx_Fields
begin

text \<open>
  The output backends behind the interface \<^verbatim>\<open>Writer\<close> of \<^verbatim>\<open>pkg/evtx\<close>: the binary event log writer
  (\<^verbatim>\<open>writer_evtx_notwindows.go\<close>), the fan-out of \<^verbatim>\<open>writer_multi.go\<close>, and the dynamic dispatch over
  all of them.  The event log library is third-party: its operations are parameters.
\<close>

section \<open>The binary event log\<close>

record RotationConfig =
  r_FlushIntervalSec :: int
  r_MaxFileSizeMB :: int
  r_MaxFileCount :: int
  r_RotationIntervalH :: int

record 'g go_evtx =
  evtx_New :: "string \<Rightarrow> RotationConfig \<Rightarrow> write_error + 'g"
  WriteRecord :: "int \<Rightarrow> field_map \<Rightarrow> 'g \<Rightarrow> write_error option \<times> 'g"
  evtx_Close :: "'g \<Rightarrow> write_error option \<times> 'g"
  evtx_Rotate :: "'g \<Rightarrow> write_error option \<times> 'g"

text \<open>What the writers take from outside: the marshaller, the event log library, and the order
  in which Go visits the fields of an event.\<close>

record 'g libraries =
  marshal :: "message \<Rightarrow> bytes option"
  go_evtx :: "'g go_evtx"
  map_pick :: "WindowsEvent \<Rightarrow> nat \<Rightarrow> nat"

record 'g BinaryEvtxWriter =
  e_w :: 'g
  e_closed :: bool
  e_closeErr :: "write_error option"

definition NewBinaryEvtxWriter ::
  "'g libraries \<Rightarrow> string \<Rightarrow> RotationConfig \<Rightarrow> write_error + 'g BinaryEvtxWriter" where
  "NewBinaryEvtxWriter L path cfg =
     (if path = [] then Inl (Refused ''binary_evtx_writer: evtxPath must be non-empty'')
      else case evtx_New (go_evtx L) path cfg of
             Inl err \<Rightarrow> Inl (Wrapped ''binary_evtx_writer:'' err)
           | Inr w \<Rightarrow> Inr \<lparr>e_w = w, e_closed = False, e_closeErr = None\<rparr>)"

definition evtx_WriteEvent ::
  "'g libraries \<Rightarrow> WindowsEvent \<Rightarrow> 'g BinaryEvtxWriter \<times> Store \<Rightarrow>
    write_error option \<times> 'g BinaryEvtxWriter \<times> Store" where
  "evtx_WriteEvent L e = (\<lambda>(w, m).
     case windowsEventToFields (map_pick L e) e of
       (fs, truncated) \<Rightarrow>
         (case WriteRecord (go_evtx L) (w_EventID e) fs (e_w w) of
            (r, g) \<Rightarrow>
              (r, w\<lparr>e_w := g\<rparr>,
               if truncated then m\<lparr>EventsTruncatedTotal := EventsTruncatedTotal m + 1\<rparr> else m)))"

definition evtx_WriteBatch ::
  "'g libraries \<Rightarrow> WindowsEvent list \<Rightarrow> 'g BinaryEvtxWriter \<times> Store \<Rightarrow>
    write_error option \<times> 'g BinaryEvtxWriter \<times> Store" where
  "evtx_WriteBatch L = writeBatchSerially (evtx_WriteEvent L)"

definition close_evtx :: "'g libraries \<Rightarrow> 'g BinaryEvtxWriter \<Rightarrow> write_error option \<times> 'g BinaryEvtxWriter" where
  "close_evtx L w =
     (if e_closed w then (e_closeErr w, w)
      else case evtx_Close (go_evtx L) (e_w w) of
             (r, g) \<Rightarrow> (r, w\<lparr>e_w := g, e_closed := True, e_closeErr := r\<rparr>))"

definition rotate_evtx :: "'g libraries \<Rightarrow> 'g BinaryEvtxWriter \<Rightarrow> write_error option \<times> 'g BinaryEvtxWriter" where
  "rotate_evtx L w = (case evtx_Rotate (go_evtx L) (e_w w) of (r, g) \<Rightarrow> (r, w\<lparr>e_w := g\<rparr>))"

section \<open>The interface\<close>

text \<open>A value of the interface is one of the concrete writers.\<close>

datatype 'g Writer =
    GELF GELFWriter
  | Syslog SyslogWriter
  | Beats BeatsWriter
  | Evtx "'g BinaryEvtxWriter"
  | Multi "'g Writer list"

definition NewMultiWriter :: "'g Writer list \<Rightarrow> 'g Writer" where
  "NewMultiWriter ws = Multi ws"

text \<open>The loops over the backends: each is called, each error is kept.\<close>

fun write_event :: "'g libraries \<Rightarrow> WindowsEvent \<Rightarrow> 'g Writer \<Rightarrow> Store \<Rightarrow> write_error option \<times> 'g Writer \<times> Store"
  and event_each :: "'g libraries \<Rightarrow> WindowsEvent \<Rightarrow> 'g Writer list \<Rightarrow> Store \<Rightarrow> write_error list \<times> 'g Writer list \<times> Store" where
  "write_event L e (GELF w) m = (case gelf_WriteEvent e w of (r, w') \<Rightarrow> (r, GELF w', m))"
| "write_event L e (Syslog w) m = (case syslog_WriteEvent (marshal L) e w of (r, w') \<Rightarrow> (r, Syslog w', m))"
| "write_event L e (Beats w) m = (case beats_WriteEvent e w of (r, w') \<Rightarrow> (r, Beats w', m))"
| "write_event L e (Evtx w) m = (case evtx_WriteEvent L e (w, m) of (r, w', m') \<Rightarrow> (r, Evtx w', m'))"
| "write_event L e (Multi ws) m =
     (case event_each L e ws m of (errs, ws', m') \<Rightarrow> (errors_Join errs, Multi ws', m'))"
| "event_each L e [] m = ([], [], m)"
| "event_each L e (w # ws) m =
     (case write_event L e w m of (r, w', m1) \<Rightarrow>
        (case event_each L e ws m1 of (errs, ws', m2) \<Rightarrow> (error_list r @ errs, w' # ws', m2)))"

fun write_batch :: "'g libraries \<Rightarrow> WindowsEvent list \<Rightarrow> 'g Writer \<Rightarrow> Store \<Rightarrow> write_error option \<times> 'g Writer \<times> Store"
  and batch_each :: "'g libraries \<Rightarrow> WindowsEvent list \<Rightarrow> 'g Writer list \<Rightarrow> Store \<Rightarrow> write_error list \<times> 'g Writer list \<times> Store" where
  "write_batch L es (GELF w) m = (case gelf_WriteBatch es w of (r, w') \<Rightarrow> (r, GELF w', m))"
| "write_batch L es (Syslog w) m = (case syslog_WriteBatch (marshal L) es w of (r, w') \<Rightarrow> (r, Syslog w', m))"
| "write_batch L es (Beats w) m = (case beats_WriteBatch es w of (r, w') \<Rightarrow> (r, Beats w', m))"
| "write_batch L es (Evtx w) m = (case evtx_WriteBatch L es (w, m) of (r, w', m') \<Rightarrow> (r, Evtx w', m'))"
| "write_batch L es (Multi ws) m =
     (case batch_each L es ws m of (errs, ws', m') \<Rightarrow> (errors_Join errs, Multi ws', m'))"
| "batch_each L es [] m = ([], [], m)"
| "batch_each L es (w # ws) m =
     (case write_batch L es w m of (r, w', m1) \<Rightarrow>
        (case batch_each L es ws m1 of (errs, ws', m2) \<Rightarrow> (error_list r @ errs, w' # ws', m2)))"

fun close_writer :: "'g libraries \<Rightarrow> 'g Writer \<Rightarrow> write_error option \<times> 'g Writer"
  and close_each :: "'g libraries \<Rightarrow> 'g Writer list \<Rightarrow> write_error list \<times> 'g Writer list" where
  "close_writer L (GELF w) = (case gelf_Close w of (r, w') \<Rightarrow> (r, GELF w'))"
| "close_writer L (Syslog w) = (case syslog_Close w of (r, w') \<Rightarrow> (r, Syslog w'))"
| "close_writer L (Beats w) = (case beats_Close w of (r, w') \<Rightarrow> (r, Beats w'))"
| "close_writer L (Evtx w) = (case close_evtx L w of (r, w') \<Rightarrow> (r, Evtx w'))"
| "close_writer L (Multi ws) = (case close_each L ws of (errs, ws') \<Rightarrow> (errors_Join errs, Multi ws'))"
| "close_each L [] = ([], [])"
| "close_each L (w # ws) =
     (case close_writer L w of (r, w') \<Rightarrow>
        (case close_each L ws of (errs, ws') \<Rightarrow> (error_list r @ errs, w' # ws')))"

text \<open>Rotation is for those that have it; \<open>None\<close> is a writer without the method.\<close>

fun rotate_writer :: "'g libraries \<Rightarrow> 'g Writer \<Rightarrow> (write_error option \<times> 'g Writer) option"
  and rotate_each :: "'g libraries \<Rightarrow> 'g Writer list \<Rightarrow> write_error list \<times> 'g Writer list" where
  "rotate_writer L (Evtx w) = (case rotate_evtx L w of (r, w') \<Rightarrow> Some (r, Evtx w'))"
| "rotate_writer L (Multi ws) = (case rotate_each L ws of (errs, ws') \<Rightarrow> Some (errors_Join errs, Multi ws'))"
| "rotate_writer L w = None"
| "rotate_each L [] = ([], [])"
| "rotate_each L (w # ws) =
     (case rotate_writer L w of
        None \<Rightarrow> (case rotate_each L ws of (errs, ws') \<Rightarrow> (errs, w # ws'))
      | Some (r, w') \<Rightarrow> (case rotate_each L ws of (errs, ws') \<Rightarrow> (error_list r @ errs, w' # ws')))"

section \<open>What a nil result promises\<close>

text \<open>The contract of \<^verbatim>\<open>WriteBatch\<close>, for every backend in its own terms, and at least once: the
  documents or messages that went out whole, the events that were acknowledged, or the
  records the library took, are those of the whole batch in order.  A broken first attempt
  may have gone before: a cut copy of the write or a datagram, or acknowledged events from the
  start of a Beats window.\<close>

fun records_taken :: "'g libraries \<Rightarrow> WindowsEvent list \<Rightarrow> 'g \<Rightarrow> 'g option" where
  "records_taken L [] g = Some g"
| "records_taken L (e # es) g =
     (case WriteRecord (go_evtx L) (w_EventID e) (fst (windowsEventToFields (map_pick L e) e)) g of
        (None, g') \<Rightarrow> records_taken L es g'
      | (Some err, g') \<Rightarrow> None)"

definition sent_frames :: "bool \<Rightarrow> (bytes \<Rightarrow> bytes) \<Rightarrow> bytes list \<Rightarrow> socket \<Rightarrow> socket \<Rightarrow> bool" where
  "sent_frames tcp frame payloads k k' \<longleftrightarrow>
     (let t = drop (length (wire k)) (wire k') in
      take (length (wire k)) (wire k') = wire k \<and>
      (if tcp then landed (concat (map frame payloads)) t
       else wholes t = payloads \<and> list_all (piece_of payloads) t))"

lemma sent_framesI:
  "wire k' = wire k @ t \<Longrightarrow>
    (if tcp then landed (concat (map frame payloads)) t
     else wholes t = payloads \<and> list_all (piece_of payloads) t) \<Longrightarrow>
    sent_frames tcp frame payloads k k'"
  by (simp add: sent_frames_def)

fun delivered :: "'g libraries \<Rightarrow> WindowsEvent list \<Rightarrow> 'g Writer \<Rightarrow> 'g Writer \<Rightarrow> bool"
  and delivered_each :: "'g libraries \<Rightarrow> WindowsEvent list \<Rightarrow> 'g Writer list \<Rightarrow> 'g Writer list \<Rightarrow> bool" where
  "delivered L es (GELF w) (GELF w') =
     sent_frames (g_Protocol (g_cfg w) = ''tcp'') gelf_frame
       (map (\<lambda>e. json_map (gelf_members e)) es) (g_sock w) (g_sock w')"
| "delivered L es (Syslog w) (Syslog w') =
     (let message = (\<lambda>e. marshal L (syslog_message e (s_AppName (s_cfg w)))) in
      list_all (\<lambda>e. message e \<noteq> None) es \<and>
      sent_frames (s_Protocol (s_cfg w) = ''tcp'') frameTCP (map (the \<circ> message) es) (s_sock w) (s_sock w'))"
| "delivered L es (Beats w) (Beats w') =
     list_ex (\<lambda>n. acked (b_client w') =
       acked (b_client w) @ take n (map buildBeatsEvent es) @ map buildBeatsEvent es) [0..<length es + 1]"
| "delivered L es (Evtx w) (Evtx w') = (records_taken L es (e_w w) = Some (e_w w'))"
| "delivered L es (Multi ws) (Multi ws') = delivered_each L es ws ws'"
| "delivered L es _ _ = False"
| "delivered_each L es [] [] = True"
| "delivered_each L es (w # ws) (w' # ws') = (delivered L es w w' \<and> delivered_each L es ws ws')"
| "delivered_each L es _ _ = False"

lemma framed_batch_nil:
  assumes "framed_batch name tcp build frame es k = (None, k')" "es \<noteq> []"
  shows "list_all (\<lambda>e. build e \<noteq> None) es \<and> sent_frames tcp frame (map (the \<circ> build) es) k k'"
proof -
  have all: "list_all (\<lambda>e. build e \<noteq> None) es \<and> payloads_of build es = map (the \<circ> build) es"
    if "length (payloads_of build es) = length es" using payloads_of_all [OF that] .
  show ?thesis
  proof (cases tcp)
    case True
    then have "framed_batch name True build frame es k = (None, k')" using assms(1) by simp
    note n = stream_batch_nil [OF this assms(2)]
    have "length (payloads_of build es) = length es" unfolding conjunct1 [OF n] by (rule length_map)
    then have "list_all (\<lambda>e. build e \<noteq> None) es" using all by blast
    then show ?thesis using conjunct2 [OF n] True sent_framesI by metis
  next
    case False
    then have "framed_batch name False build frame es k = (None, k')" using assms(1) by simp
    from datagram_batch [OF this] obtain t errs where s: "wire k' = wire k @ t"
      "subseq (wholes t) (payloads_of build es)" "list_all (piece_of (payloads_of build es)) t"
      "None = errors_Join errs" "length errs + length (wholes t) = length es"
      by metis
    then have l: "length (wholes t) = length es" by (simp add: errors_Join_def split: if_splits)
    have "length (payloads_of build es) \<le> length es"
      using build_errors_length [of name build es] by simp
    then have n: "length (payloads_of build es) = length es"
      using list_emb_length [OF s(2)] l by linarith
    then have "wholes t = payloads_of build es" using subseq_same_length [OF s(2)] l by simp
    then show ?thesis using all [OF n] s(1,3) False by (auto intro!: sent_framesI)
  qed
qed

lemma evtx_loop_nil:
  assumes "serial_loop (evtx_WriteEvent L) i n es (w, m) = ([], w', m')"
  shows "records_taken L es (e_w w) = Some (e_w w')"
  using assms
proof (induction es arbitrary: i w m)
  case (Cons e es)
  obtain fs tr where f: "windowsEventToFields (map_pick L e) e = (fs, tr)" by fastforce
  obtain r g where r: "WriteRecord (go_evtx L) (w_EventID e) fs (e_w w) = (r, g)" by fastforce
  obtain w1 m1 where s: "evtx_WriteEvent L e (w, m) = (r, w1, m1)" "e_w w1 = g"
    using f r by (simp add: evtx_WriteEvent_def)
  obtain errs s2 where l: "serial_loop (evtx_WriteEvent L) (i + 1) n es (w1, m1) = (errs, s2)" by (meson surj_pair)
  have "r = None" "errs = []" "s2 = (w', m')"
    using Cons.prems s(1) l by (cases r; simp)+
  then show ?case using Cons.IH [of "i + 1" w1 m1] l f r s(2) by simp
qed simp

lemma nil_delivered:
  "write_batch L es w m = (None, w', m') \<Longrightarrow> es \<noteq> [] \<Longrightarrow> delivered L es w w'"
  "batch_each L es ws m = ([], ws', m') \<Longrightarrow> es \<noteq> [] \<Longrightarrow> delivered_each L es ws ws'"
proof (induction L es w m and L es ws m arbitrary: w' m' and ws' m' rule: write_batch_batch_each.induct)
  case (1 L es w m)
  then obtain k where "framed_batch ''gelf'' (g_Protocol (g_cfg w) = ''tcp'') buildGELF gelf_frame es (g_sock w) = (None, k)"
    "w' = GELF (w\<lparr>g_sock := k\<rparr>)"
    by (auto simp: gelf_WriteBatch_def split: prod.splits)
  with framed_batch_nil [OF this(1) 1(2)] show ?case by (simp add: buildGELF_document comp_def)
next
  case (2 L es w m)
  let ?build = "buildSyslog5424 (marshal L) (s_AppName (s_cfg w))"
  have b: "?build = (\<lambda>e. marshal L (syslog_message e (s_AppName (s_cfg w))))"
    by (simp add: buildSyslog5424_def fun_eq_iff)
  obtain k where "framed_batch ''syslog'' (s_Protocol (s_cfg w) = ''tcp'') ?build frameTCP es (s_sock w) = (None, k)"
    "w' = Syslog (w\<lparr>s_sock := k\<rparr>)"
    using 2 by (auto simp: syslog_WriteBatch_def split: prod.splits)
  with framed_batch_nil [OF this(1) 2(2)] show ?case by (simp add: b Let_def)
next
  case (3 L es w m)
  then obtain w1 where w1: "beats_send ''beats batch'' (map buildBeatsEvent es) w = (None, w1)" "w' = Beats w1"
    by (auto simp: beats_WriteBatch_def split: prod.splits)
  obtain n where n: "acked (b_client w1) = acked (b_client w) @ take n (map buildBeatsEvent es) @ map buildBeatsEvent es"
    using beats_send_acked [OF w1(1)] by auto
  then have "acked (b_client w1) = acked (b_client w) @ take (min n (length es)) (map buildBeatsEvent es) @ map buildBeatsEvent es"
    by (simp add: min_def)
  moreover have "min n (length es) \<in> set [0..<length es + 1]" by (simp del: upt_Suc)
  ultimately show ?case unfolding w1(2) delivered.simps list_ex_iff by blast
next
  case (4 L es w m)
  then obtain w1 where w1: "serial_loop (evtx_WriteEvent L) 0 (length es) es (w, m) = ([], w1, m')" "w' = Evtx w1"
    by (auto simp: evtx_WriteBatch_def writeBatchSerially_def errors_Join_def split: prod.splits if_splits)
  with evtx_loop_nil [OF this(1)] show ?case by simp
next
  case (5 L es ws m)
  then show ?case by (auto split: prod.splits)
next
  case (6 L es m)
  then show ?case by simp
next
  case (7 L es w ws m)
  obtain r w1 m1 where r: "write_batch L es w m = (r, w1, m1)" by (metis prod.collapse)
  obtain errs ws1 m2 where b: "batch_each L es ws m1 = (errs, ws1, m2)" by (metis prod.collapse)
  have e: "r = None" "errs = []" "ws' = w1 # ws1" using 7(3) r b by (cases r; simp)+
  show ?case using 7 r b e by auto
qed

end
