(* ===== verification/App_Config.thy ===== *)
theory App_Config
  imports Cepa_Handler Outputs
begin

text \<open>
  The configuration of \<^verbatim>\<open>cmd/cee-exporter/main.go\<close> and what the program derives from it before
  anything is opened: defaults, the migration of the old TLS switch, validation, the log
  level of \<^verbatim>\<open>pkg/log/log.go\<close> and the \<^verbatim>\<open>-config\<close> argument of \<^verbatim>\<open>service_helpers.go\<close>.  Decoding the TOML
  file is a third-party package's work.
\<close>

section \<open>The configuration\<close>

record ListenConfig =
  Addr :: string
  TLS :: bool
  CertFile :: string
  KeyFile :: string
  TLSMode :: string
  ACMEDomains :: "string list"
  ACMEEmail :: string
  ACMECacheDir :: string
  ACMEChallengeAddr :: string

record OutputConfig =
  o_Type :: string
  Targets :: "string list"
  EVTXPath :: string
  GELFHost :: string
  GELFPort :: int
  GELFProtocol :: string
  GELFTLS :: bool
  SyslogHost :: string
  SyslogPort :: int
  SyslogProtocol :: string
  SyslogAppName :: string
  BeatsHost :: string
  BeatsPort :: int
  BeatsTLS :: bool
  FlushIntervalSec :: int
  MaxFileSizeMB :: int
  MaxFileCount :: int
  RotationIntervalH :: int

record QueueConfig =
  qc_Capacity :: int
  qc_Workers :: int
  DrainTimeoutS :: int
  qc_MaxBatch :: int
  BatchTimeoutMS :: int

record LoggingConfig =
  l_Level :: string
  l_Format :: string

record MetricsConfig =
  m_Enabled :: bool
  m_Addr :: string

record AppConfig =
  a_Listen :: ListenConfig
  a_Output :: OutputConfig
  a_Queue :: QueueConfig
  a_Logging :: LoggingConfig
  a_Metrics :: MetricsConfig
  a_CEPA :: RegistrationConfig
  a_Server :: LimitsConfig
  a_Hostname :: string

definition no_registration :: RegistrationConfig where
  "no_registration =
     \<lparr>FriendlyName = [], GUID = [], Description = [], Protocols = [], EventFilter = [], Version = []\<rparr>"

definition defaultConfig :: AppConfig where
  "defaultConfig =
     \<lparr>a_Listen = \<lparr>Addr = ''0.0.0.0:12228'', TLS = False, CertFile = [], KeyFile = [], TLSMode = [],
        ACMEDomains = [], ACMEEmail = [], ACMECacheDir = [], ACMEChallengeAddr = []\<rparr>,
      a_Output = \<lparr>o_Type = ''gelf'', Targets = [], EVTXPath = [], GELFHost = ''localhost'',
        GELFPort = 12201, GELFProtocol = ''udp'', GELFTLS = False, SyslogHost = [], SyslogPort = 0,
        SyslogProtocol = [], SyslogAppName = [], BeatsHost = [], BeatsPort = 0, BeatsTLS = False,
        FlushIntervalSec = 15, MaxFileSizeMB = 100, MaxFileCount = 100, RotationIntervalH = 24\<rparr>,
      a_Queue = \<lparr>qc_Capacity = 100000, qc_Workers = 4, DrainTimeoutS = 30, qc_MaxBatch = 500,
        BatchTimeoutMS = 200\<rparr>,
      a_Logging = \<lparr>l_Level = ''info'', l_Format = ''json''\<rparr>,
      a_Metrics = \<lparr>m_Enabled = True, m_Addr = ''0.0.0.0:9228''\<rparr>,
      a_CEPA = no_registration,
      a_Server = \<lparr>MaxBodyMB = 8, MaxConcurrentRequests = 8\<rparr>,
      a_Hostname = []\<rparr>"

definition migrateListenConfig :: "ListenConfig \<Rightarrow> ListenConfig" where
  "migrateListenConfig cfg =
     (if TLSMode cfg \<noteq> [] then cfg
      else if TLS cfg \<and> CertFile cfg \<noteq> [] then cfg\<lparr>TLSMode := ''manual''\<rparr>
      else cfg\<lparr>TLSMode := ''off''\<rparr>)"

text \<open>\<^verbatim>\<open>validateOutputConfig\<close>: the field that is refused.\<close>

datatype config_error =
    EvtxPathMissing
  | FlushIntervalZero
  | FlushIntervalNegative int
  | MaxFileSizeNegative int
  | MaxFileCountNegative int
  | RotationIntervalNegative int

definition validateOutputConfig :: "OutputConfig \<Rightarrow> config_error option" where
  "validateOutputConfig cfg =
     (if o_Type cfg = ''evtx'' then
        (if EVTXPath cfg = [] then Some EvtxPathMissing
         else if FlushIntervalSec cfg = 0 then Some FlushIntervalZero
         else if FlushIntervalSec cfg < 0 then Some (FlushIntervalNegative (FlushIntervalSec cfg))
         else if MaxFileSizeMB cfg < 0 then Some (MaxFileSizeNegative (MaxFileSizeMB cfg))
         else if MaxFileCount cfg < 0 then Some (MaxFileCountNegative (MaxFileCount cfg))
         else if RotationIntervalH cfg < 0 then Some (RotationIntervalNegative (RotationIntervalH cfg))
         else None)
      else None)"

text \<open>The multiplications are on 64 bits and wrap.\<close>

definition queue_config :: "QueueConfig \<Rightarrow> Config" where
  "queue_config c =
     \<lparr>Capacity = qc_Capacity c, Workers = qc_Workers c,
      DrainTimeout = signed_take_bit 63 (DrainTimeoutS c * 1000000000),
      MaxBatch = qc_MaxBatch c,
      BatchTimeout = signed_take_bit 63 (BatchTimeoutMS c * 1000000)\<rparr>"

section \<open>Logging\<close>

datatype log_level = LevelDebug | LevelInfo | LevelWarn | LevelError

datatype log_handler = JSONHandler log_level | TextHandler log_level

text \<open>\<^verbatim>\<open>strings.ToLower\<close>, as far as a comparison with an ASCII word can see: besides the ASCII
  capitals only two runes have an ASCII lower case, and any other letter stays outside.\<close>

definition lower_rune :: "rune \<Rightarrow> rune" where
  "lower_rune r =
     (if 65 \<le> r \<and> r \<le> 90 then r + 32 else if r = 0x130 then 0x69 else if r = 0x212A then 0x6B else r)"

definition ToLower :: "string \<Rightarrow> string" where
  "ToLower s = concat (map (\<lambda>r. append_rune (lower_rune r)) (runes_of s))"

definition log_Init :: "string \<Rightarrow> string \<Rightarrow> log_handler" where
  "log_Init level format =
     (let l = ToLower level;
          lvl = (if l = ''debug'' then LevelDebug
                 else if l = ''warn'' \<or> l = ''warning'' then LevelWarn
                 else if l = ''error'' then LevelError
                 else LevelInfo) in
      if ToLower format = ''json'' then JSONHandler lvl else TextHandler lvl)"

text \<open>The environment variables win over the file.\<close>

definition override_logging :: "string \<Rightarrow> string \<Rightarrow> LoggingConfig \<Rightarrow> LoggingConfig" where
  "override_logging level format c =
     \<lparr>l_Level = (if level \<noteq> [] then level else l_Level c),
      l_Format = (if format \<noteq> [] then format else l_Format c)\<rparr>"

section \<open>The command line\<close>

fun parseCfgPath :: "string list \<Rightarrow> string" where
  "parseCfgPath [] = ''config.toml''"
| "parseCfgPath [a] = ''config.toml''"
| "parseCfgPath (a # b # rest) =
     (if a = ''-config'' \<or> a = ''--config'' then b else parseCfgPath (b # rest))"

section \<open>What holds of it\<close>

text \<open>The defaults pass validation, need no defaulting further down, and run without TLS.\<close>

lemma defaultConfig_ok:
  "validateOutputConfig (a_Output defaultConfig) = None"
  "withDefaults (queue_config (a_Queue defaultConfig)) = queue_config (a_Queue defaultConfig)"
  "limits_withDefaults (a_Server defaultConfig) = a_Server defaultConfig"
  "TLSMode (migrateListenConfig (a_Listen defaultConfig)) = ''off''"
  by (simp_all add: defaultConfig_def validateOutputConfig_def queue_config_def withDefaults_def
      limits_withDefaults_def migrateListenConfig_def signed_take_bit_int_eq_self)

lemma migrate_mode: "TLSMode (migrateListenConfig cfg) \<noteq> []"
  by (simp add: migrateListenConfig_def)

lemma migrate_idempotent: "migrateListenConfig (migrateListenConfig cfg) = migrateListenConfig cfg"
  by (simp add: migrateListenConfig_def)

lemma parseCfgPath_first:
  "''-config'' \<notin> set xs \<Longrightarrow> ''--config'' \<notin> set xs \<Longrightarrow> a = ''-config'' \<or> a = ''--config'' \<Longrightarrow>
    parseCfgPath (xs @ a # path # ys) = path"
proof (induction xs)
  case (Cons x xs)
  then show ?case by (cases xs) auto
qed auto

lemma validated_evtx:
  "validateOutputConfig cfg = None \<longleftrightarrow> o_Type cfg \<noteq> ''evtx'' \<or>
    EVTXPath cfg \<noteq> [] \<and> 0 < FlushIntervalSec cfg \<and> 0 \<le> MaxFileSizeMB cfg \<and> 0 \<le> MaxFileCount cfg \<and>
    0 \<le> RotationIntervalH cfg"
  by (auto simp: validateOutputConfig_def)

end
