(* ===== verification/Tls_Config.thy ===== *)
theory Tls_Config
  imports App_Config
begin

text \<open>
  \<^verbatim>\<open>tls.go\<close> and the choice of the mode in \<^verbatim>\<open>run\<close>: what the listener is given for each
  \<^verbatim>\<open>tls_mode\<close>.  Keys, certificates and the ACME client are the work of crypto packages; here
  it matters whether they succeed and what they are asked for.
\<close>

section \<open>What the packages do\<close>

text \<open>\<^verbatim>\<open>time.Time.Add\<close> with a duration in nanoseconds, and an instant as one number.\<close>

definition time_Add :: "gotime \<Rightarrow> int \<Rightarrow> gotime" where
  "time_Add t d = Unix (unix_sec t) (int (nsec t) + d)"

definition nanos :: "gotime \<Rightarrow> int" where
  "nanos t = unix_sec t * 1000000000 + int (nsec t)"

lemma nanos_Add [simp]: "nanos (time_Add t d) = nanos t + d"
  using mult_div_mod_eq [of 1000000000 "int (nsec t) + d"]
  by (simp add: nanos_def time_Add_def Unix_def algebra_simps)

text \<open>The certificate that is asked for.\<close>

record cert_template =
  ct_SerialNumber :: int
  ct_Organization :: "string list"
  ct_DNSNames :: "string list"
  ct_NotBefore :: gotime
  ct_NotAfter :: gotime
  ct_KeyUsage :: string
  ct_ExtKeyUsage :: "string list"

record tls_world =
  keypair_loads :: "string \<Rightarrow> string \<Rightarrow> bool"
  ec_generates :: bool
  ec_marshals :: bool
  certificate_creates :: "cert_template \<Rightarrow> bool"
  pair_assembles :: bool
  challenge_listens :: "string \<Rightarrow> bool"

section \<open>The configurations\<close>

text \<open>A configuration with its least protocol version; that of the ACME client is its own.\<close>

datatype tls_config =
    NoTLS
  | ManualTLS string string nat
  | SelfSignedTLS cert_template nat
  | AutocertTLS "string list" string string

definition VersionTLS12 :: nat where
  "VersionTLS12 = 0x0303"

definition buildManualTLS :: "tls_world \<Rightarrow> string \<Rightarrow> string \<Rightarrow> tls_config option" where
  "buildManualTLS T cert key =
     (if keypair_loads T cert key then Some (ManualTLS cert key VersionTLS12) else None)"

definition buildSelfSignedTLS :: "tls_world \<Rightarrow> gotime \<Rightarrow> string list \<Rightarrow> tls_config option" where
  "buildSelfSignedTLS T now hosts0 =
     (let hosts = (if hosts0 = [] then [''localhost''] else hosts0);
          template =
            \<lparr>ct_SerialNumber = 1, ct_Organization = [''cee-exporter''], ct_DNSNames = hosts,
             ct_NotBefore = time_Add now (- 60000000000),
             ct_NotAfter = time_Add now (365 * 24 * 3600000000000),
             ct_KeyUsage = ''DigitalSignature'', ct_ExtKeyUsage = [''ServerAuth'']\<rparr> in
      if \<not> ec_generates T then None
      else if \<not> ec_marshals T then None
      else if \<not> certificate_creates T template then None
      else if \<not> pair_assembles T then None
      else Some (SelfSignedTLS template VersionTLS12))"

definition buildAutocertTLS :: "string list \<Rightarrow> string \<Rightarrow> string \<Rightarrow> tls_config option" where
  "buildAutocertTLS domains email cacheDir =
     (if domains = [] then None
      else Some (AutocertTLS domains email (if cacheDir = [] then ''/var/cache/cee-exporter/acme'' else cacheDir)))"

definition startACMEChallengeListener :: "tls_world \<Rightarrow> string \<Rightarrow> bool" where
  "startACMEChallengeListener T addr = challenge_listens T (if addr = [] then '':443'' else addr)"

text \<open>The switch over the mode in \<^verbatim>\<open>run\<close>; \<open>None\<close> is an exit.\<close>

definition tls_of_mode :: "tls_world \<Rightarrow> gotime \<Rightarrow> ListenConfig \<Rightarrow> tls_config option" where
  "tls_of_mode T now cfg =
     (if TLSMode cfg = ''off'' \<or> TLSMode cfg = [] then Some NoTLS
      else if TLSMode cfg = ''manual'' then buildManualTLS T (CertFile cfg) (KeyFile cfg)
      else if TLSMode cfg = ''self-signed'' then buildSelfSignedTLS T now (ACMEDomains cfg)
      else if TLSMode cfg = ''acme'' then
        (case buildAutocertTLS (ACMEDomains cfg) (ACMEEmail cfg) (ACMECacheDir cfg) of
           None \<Rightarrow> None
         | Some c \<Rightarrow> if startACMEChallengeListener T (ACMEChallengeAddr cfg) then Some c else None)
      else None)"

section \<open>What they are good for\<close>

lemmas tls_builders = buildManualTLS_def buildSelfSignedTLS_def buildAutocertTLS_def Let_def

text \<open>What a file asks for: a mode, or TLS by the old switch.  The old switch without a certificate
  file asks for something that cannot be had.\<close>

definition asks_for_tls :: "ListenConfig \<Rightarrow> bool" where
  "asks_for_tls cfg \<longleftrightarrow> (if TLSMode cfg = [] then TLS cfg else TLSMode cfg \<noteq> ''off'')"

definition switch_alone :: "ListenConfig \<Rightarrow> bool" where
  "switch_alone cfg \<longleftrightarrow> TLSMode cfg = [] \<and> TLS cfg \<and> CertFile cfg = []"

fun mode_of :: "tls_config \<Rightarrow> string" where
  "mode_of NoTLS = ''off''"
| "mode_of (ManualTLS cert key least) = ''manual''"
| "mode_of (SelfSignedTLS c least) = ''self-signed''"
| "mode_of (AutocertTLS domains email dir) = ''acme''"

definition valid_for :: "cert_template \<Rightarrow> gotime \<Rightarrow> int \<Rightarrow> bool" where
  "valid_for c now d \<longleftrightarrow> nanos (ct_NotBefore c) \<le> nanos now \<and> nanos now + d \<le> nanos (ct_NotAfter c)"

text \<open>What a client can rely on: the configured key pair or a certificate for the configured names
  that is already valid and stays so for a year, and no protocol older than TLS 1.2.\<close>

fun tls_usable :: "tls_world \<Rightarrow> gotime \<Rightarrow> ListenConfig \<Rightarrow> tls_config \<Rightarrow> bool" where
  "tls_usable T now cfg NoTLS = False"
| "tls_usable T now cfg (ManualTLS cert key least) =
     (cert = CertFile cfg \<and> key = KeyFile cfg \<and> keypair_loads T cert key \<and> VersionTLS12 \<le> least)"
| "tls_usable T now cfg (SelfSignedTLS c least) =
     (ct_DNSNames c = (if ACMEDomains cfg = [] then [''localhost''] else ACMEDomains cfg) \<and>
      ''ServerAuth'' \<in> set (ct_ExtKeyUsage c) \<and> certificate_creates T c \<and>
      valid_for c now (365 * 24 * 3600 * 1000000000) \<and> VersionTLS12 \<le> least)"
| "tls_usable T now cfg (AutocertTLS domains email dir) = (domains = ACMEDomains cfg \<and> domains \<noteq> [] \<and> dir \<noteq> [])"

lemma tls_of_mode_usable:
  "t \<noteq> NoTLS \<Longrightarrow> tls_of_mode T now (migrateListenConfig cfg) = Some t \<Longrightarrow> tls_usable T now cfg t"
  by (auto simp: tls_of_mode_def migrateListenConfig_def tls_builders valid_for_def
      split: if_splits option.splits)

lemma tls_of_mode_plain:
  "tls_of_mode T now (migrateListenConfig cfg) = Some t \<Longrightarrow>
    t = NoTLS \<longleftrightarrow> \<not> asks_for_tls cfg \<or> switch_alone cfg"
  by (auto simp: asks_for_tls_def switch_alone_def tls_of_mode_def migrateListenConfig_def tls_builders
      split: if_splits option.splits)

lemma tls_of_mode_mode: "TLSMode cfg \<noteq> [] \<Longrightarrow> tls_of_mode T now cfg = Some t \<Longrightarrow> mode_of t = TLSMode cfg"
  by (auto simp: tls_of_mode_def tls_builders split: if_splits option.splits)

lemma mode_of_off [simp]: "mode_of t = ''off'' \<longleftrightarrow> t = NoTLS"
  by (cases t) simp_all

end
