(* ===== verification/Delivery.thy ===== *)
theory Delivery
  imports Outputs Work_Queue
begin

text \<open>
  The outputs as the queue uses them: the fan-out of \<^verbatim>\<open>writer_multi.go\<close>, and what the counters
  of \<^verbatim>\<open>writeBatch\<close> in \<^verbatim>\<open>pkg/queue/queue.go\<close> mean for the backends.
\<close>

section \<open>Independence\<close>

text \<open>The metrics are only written to: no writer's result depends on them, and only the counter of
  truncated events changes.\<close>

lemma same_metrics [simp]: "\<exists>k. (m :: Store) = m\<lparr>EventsTruncatedTotal := k\<rparr>"
  by (rule exI [of _ "EventsTruncatedTotal m"]) simp

lemma evtx_event_metrics:
  "fst (evtx_WriteEvent L e (w, m)) = fst (evtx_WriteEvent L e (w, m2))"
  "fst (snd (evtx_WriteEvent L e (w, m))) = fst (snd (evtx_WriteEvent L e (w, m2)))"
  "\<exists>n. snd (snd (evtx_WriteEvent L e (w, m))) = m\<lparr>EventsTruncatedTotal := n\<rparr>"
proof -
  have m: "m\<lparr>EventsTruncatedTotal := EventsTruncatedTotal m\<rparr> = m" by simp
  show "fst (evtx_WriteEvent L e (w, m)) = fst (evtx_WriteEvent L e (w, m2))"
    "fst (snd (evtx_WriteEvent L e (w, m))) = fst (snd (evtx_WriteEvent L e (w, m2)))"
    by (simp_all add: evtx_WriteEvent_def split: prod.splits)
  show "\<exists>n. snd (snd (evtx_WriteEvent L e (w, m))) = m\<lparr>EventsTruncatedTotal := n\<rparr>"
    using m [symmetric] by (cases "snd (windowsEventToFields (map_pick L e) e)")
      (auto simp: evtx_WriteEvent_def split: prod.splits intro: exI [of _ "EventsTruncatedTotal m"])
qed

lemma evtx_loop_metrics:
  "fst (serial_loop (evtx_WriteEvent L) i n es (w, m)) = fst (serial_loop (evtx_WriteEvent L) i n es (w, m2)) \<and>
   fst (snd (serial_loop (evtx_WriteEvent L) i n es (w, m))) =
     fst (snd (serial_loop (evtx_WriteEvent L) i n es (w, m2))) \<and>
   (\<exists>k. snd (snd (serial_loop (evtx_WriteEvent L) i n es (w, m))) = m\<lparr>EventsTruncatedTotal := k\<rparr>)"
proof (induction es arbitrary: i w m m2)
  case Nil
  have "m = m\<lparr>EventsTruncatedTotal := EventsTruncatedTotal m\<rparr>" by simp
  then show ?case by (auto intro: exI [of _ "EventsTruncatedTotal m"])
next
  case (Cons e es)
  obtain r w1 m1 where r: "evtx_WriteEvent L e (w, m) = (r, w1, m1)" by (metis prod.collapse)
  obtain k where k: "m1 = m\<lparr>EventsTruncatedTotal := k\<rparr>"
    using evtx_event_metrics(3) [of L e w m] r by auto
  obtain m3 where r2: "evtx_WriteEvent L e (w, m2) = (r, w1, m3)"
    using evtx_event_metrics(1,2) [of L e w m m2] r by (metis fst_conv prod.collapse snd_conv)
  show ?case using Cons [of "i + 1" w1 m1 m3] r r2 k by (auto simp: case_prod_beta)
qed

lemma write_batch_metrics:
  "fst (write_batch L es w m) = fst (write_batch L es w m2) \<and>
   fst (snd (write_batch L es w m)) = fst (snd (write_batch L es w m2)) \<and>
   (\<exists>k. snd (snd (write_batch L es w m)) = m\<lparr>EventsTruncatedTotal := k\<rparr>)"
  "fst (batch_each L es ws m) = fst (batch_each L es ws m2) \<and>
   fst (snd (batch_each L es ws m)) = fst (snd (batch_each L es ws m2)) \<and>
   (\<exists>k. snd (snd (batch_each L es ws m)) = m\<lparr>EventsTruncatedTotal := k\<rparr>)"
proof (induction L es w m and L es ws m arbitrary: m2 and m2 rule: write_batch_batch_each.induct)
  case (4 L es w m)
  then show ?case using evtx_loop_metrics [of L 0 "length es" es w m m2]
    by (auto simp: evtx_WriteBatch_def writeBatchSerially_def case_prod_beta)
next
  case (5 L es ws m)
  show ?case using 5 [of m2] by (auto simp: case_prod_beta)
next
  case (7 L es w ws m)
  obtain r w1 m1 where r: "write_batch L es w m = (r, w1, m1)" by (metis prod.collapse)
  obtain m3 where r2: "write_batch L es w m2 = (r, w1, m3)"
    using 7(1) [of m2] r by (metis fst_conv prod.collapse snd_conv)
  obtain k where k: "m1 = m\<lparr>EventsTruncatedTotal := k\<rparr>" using 7(1) [of m2] r by auto
  show ?case using 7(2) [OF r [symmetric] refl, of m3] r r2 k by (auto simp: case_prod_beta)
qed (auto simp: case_prod_beta)

section \<open>Fan-out\<close>

text \<open>C21: No target of a fan-out affects another.  Whatever the other targets do, each target is
  left exactly as if the whole batch had been written to it alone, and the error of the
  fan-out is the errors of all targets joined, so it is nil just when every target's is.\<close>

theorem multi_fans_out:
  "fst (write_batch L es (NewMultiWriter ws) m) =
     errors_Join (concat (map (\<lambda>w. error_list (fst (write_batch L es w m))) ws)) \<and>
   fst (snd (write_batch L es (NewMultiWriter ws) m)) = Multi (map (\<lambda>w. fst (snd (write_batch L es w m))) ws)"
proof -
  have "fst (batch_each L es ws m1) = concat (map (\<lambda>w. error_list (fst (write_batch L es w m))) ws) \<and>
    fst (snd (batch_each L es ws m1)) = map (\<lambda>w. fst (snd (write_batch L es w m))) ws" for m1
  proof (induction ws arbitrary: m1)
    case (Cons w ws)
    show ?case using Cons write_batch_metrics(1) [of L es w m1 m] by (simp add: case_prod_beta)
  qed simp
  then show ?thesis by (simp add: NewMultiWriter_def case_prod_beta)
qed

lemma event_each_results:
  "length (fst (snd (event_each L e ws m))) = length ws"
  by (induction ws arbitrary: m) (simp_all add: case_prod_beta)

text \<open>Rotation reaches every target that has it and leaves the others alone.\<close>

lemma rotate_each_map:
  "snd (rotate_each L ws) =
    map (\<lambda>w. case rotate_writer L w of None \<Rightarrow> w | Some (r, w') \<Rightarrow> w') ws"
  by (induction ws) (auto split: option.splits prod.splits)

text \<open>Closing twice is closing once: the library is called the first time only, and the second
  call reports what the first one did.\<close>

lemma close_evtx_idempotent:
  "close_evtx L w = (r, w') \<Longrightarrow> close_evtx L w' = (r, w')"
  by (auto simp: close_evtx_def split: if_splits prod.splits)

section \<open>The counters\<close>

text \<open>The end of \<^verbatim>\<open>writeBatch\<close>: the writer is called with the batch, and its error decides which
  counters rise.\<close>

definition worker_write ::
  "'g libraries \<Rightarrow> WindowsEvent list \<Rightarrow> gotime \<Rightarrow> 'g Writer \<times> Queue \<Rightarrow> 'g Writer \<times> Queue" where
  "worker_write L b now = (\<lambda>(w, q).
     case write_batch L b w (met q) of
       (r, w', m') \<Rightarrow> (w', finish_write b (r = None) now (q\<lparr>met := m'\<rparr>)))"

text \<open>What the queue relies on, of any writer: a nil error means that the writer took the whole
  batch, and of the metrics a writer only counts truncated events.\<close>

locale batch_writer =
  fixes put_batch :: "WindowsEvent list \<Rightarrow> 'w \<Rightarrow> Store \<Rightarrow> write_error option \<times> 'w \<times> Store"
    and took :: "WindowsEvent list \<Rightarrow> 'w \<Rightarrow> 'w \<Rightarrow> bool"
  assumes nil_took: "put_batch b w m = (None, w', m') \<Longrightarrow> b \<noteq> [] \<Longrightarrow> took b w w'"
    and only_truncated: "put_batch b w m = (r, w', m') \<Longrightarrow> \<exists>k. m' = m\<lparr>EventsTruncatedTotal := k\<rparr>"
begin

lemma counted:
  assumes "b \<noteq> []" "put_batch b w (met q) = (r, w', m')"
    and q': "q' = finish_write b (r = None) now (q\<lparr>met := m'\<rparr>)"
  shows "EventsWrittenTotal (met q') = EventsWrittenTotal (met q) + int (length b) \<and>
      WriterErrorsTotal (met q') = WriterErrorsTotal (met q) \<and> took b w w' \<or>
    EventsWrittenTotal (met q') = EventsWrittenTotal (met q) \<and>
      WriterErrorsTotal (met q') = WriterErrorsTotal (met q) + int (length b)"
proof -
  obtain k where k: "m' = (met q)\<lparr>EventsTruncatedTotal := k\<rparr>" using only_truncated [OF assms(2)] by blast
  show ?thesis
  proof (cases r)
    case None
    then show ?thesis using nil_took [of b w "met q" w' m'] assms(1,2) k
      by (simp add: q' finish_write_def Let_def RecordEventAt_def)
  next
    case (Some err)
    then show ?thesis using k by (simp add: q' finish_write_def Let_def)
  qed
qed

end

interpretation outputs: batch_writer "write_batch L" "delivered L" for L
proof
  fix b w m w' m'
  assume "write_batch L b w m = (None, w', m')" "b \<noteq> []"
  then show "delivered L b w w'" by (rule nil_delivered(1))
next
  fix b w m r w' m'
  assume "write_batch L b w m = (r, w', m')"
  then show "\<exists>k. m' = m\<lparr>EventsTruncatedTotal := k\<rparr>" using write_batch_metrics(1) [of L b w m] by simp
qed

text \<open>C8: An event counted as written was delivered, at least once.  When a worker writes a
  batch, either the counter of written events rises by its length, no error is counted, and
  every backend took the whole batch in order; or the counter of errors rises by its length
  and none of its events is counted as written.  For a network backend taking means that its
  writes, one for the batch on TCP and one for each event on UDP, succeeded on the connection
  then open, or that the window was acknowledged; a cut copy of such a write, or a beginning
  of that window, may have gone before it on the connection it replaces.\<close>

theorem written_means_delivered:
  assumes "b \<noteq> []" "worker_write L b now (w, q) = (w', q')"
  shows "EventsWrittenTotal (met q') = EventsWrittenTotal (met q) + int (length b) \<and>
      WriterErrorsTotal (met q') = WriterErrorsTotal (met q) \<and> delivered L b w w' \<or>
    EventsWrittenTotal (met q') = EventsWrittenTotal (met q) \<and>
      WriterErrorsTotal (met q') = WriterErrorsTotal (met q) + int (length b)"
proof -
  obtain r m' where "write_batch L b w (met q) = (r, w', m')" "q' = finish_write b (r = None) now (q\<lparr>met := m'\<rparr>)"
    using assms(2) by (auto simp: worker_write_def split: prod.splits)
  then show ?thesis using outputs.counted [OF assms(1)] by blast
qed

text \<open>A library whose log is a list of records and refuses event 0.\<close>

definition list_log :: "(int \<times> field_map) list go_evtx" where
  "list_log =
     \<lparr>evtx_New = (\<lambda>path cfg. Inr []),
      WriteRecord = (\<lambda>eid fs g. if eid = 0 then (Some (RecordFailed 0), g) else (None, g @ [(eid, fs)])),
      evtx_Close = (\<lambda>g. (None, g)), evtx_Rotate = (\<lambda>g. (None, []))\<rparr>"

definition list_libraries :: "(int \<times> field_map) list libraries" where
  "list_libraries = \<lparr>marshal = printable_host, go_evtx = list_log, map_pick = (\<lambda>e n. 0)\<rparr>"

theorem written_means_delivered_witness:
  "\<exists>w' q'. worker_write list_libraries [gelf_sample] (mk_time 0 0)
      (Multi [GELF (gelf_tcp []), Evtx \<lparr>e_w = [], e_closed = False, e_closeErr = None\<rparr>], New new_store) = (w', q') \<and>
    EventsWrittenTotal (met q') = 1 \<and>
    delivered list_libraries [gelf_sample]
      (Multi [GELF (gelf_tcp []), Evtx \<lparr>e_w = [], e_closed = False, e_closeErr = None\<rparr>]) w'"
proof -
  let ?w = "Multi [GELF (gelf_tcp []), Evtx \<lparr>e_w = [], e_closed = False, e_closeErr = None\<rparr>]
    :: (int \<times> field_map) list Writer"
  obtain w' q' where f: "worker_write list_libraries [gelf_sample] (mk_time 0 0) (?w, New new_store) = (w', q')"
    by fastforce
  have i: "w_EventID gelf_sample \<noteq> 0"
    by (simp add: gelf_sample_def Map_def Let_def convert_def sample_raw_def cepaToEventID_def)
  have n: "fst (write_batch list_libraries [gelf_sample] ?w m) = None" for m
    using i by (simp add: gelf_WriteBatch_def gelf_tcp_def framed_batch_def buildGELF_document payloads_of_def
        List.map_filter_simps build_errors_def retrySend_def sendWithRetry_def sock_write_def
        next_write_def Let_def list_libraries_def list_log_def evtx_WriteBatch_def writeBatchSerially_def
        evtx_WriteEvent_def case_prod_beta errors_Join_def)
  obtain r m' where r: "write_batch list_libraries [gelf_sample] ?w (met (New new_store)) = (r, w', m')"
    "q' = finish_write [gelf_sample] (r = None) (mk_time 0 0) ((New new_store)\<lparr>met := m'\<rparr>)"
    using f unfolding worker_write_def by (auto split: prod.splits)
  obtain k where "m' = (met (New new_store))\<lparr>EventsTruncatedTotal := k\<rparr>"
    using write_batch_metrics(1) [of list_libraries "[gelf_sample]" ?w "met (New new_store)"] r(1)
    by (metis snd_conv)
  then have "WriterErrorsTotal (met q') = 0"
    using r n [of "met (New new_store)"]
    by (simp add: finish_write_def Let_def New_def new_store_def RecordEventAt_def)
  then show ?thesis
    using written_means_delivered [OF _ f] f by (simp add: New_def new_store_def)
qed

end
