(* ===== verification/Health.thy ===== *)
theory Health
  imports Cepa_Handler Go_Float
begin

text \<open>
  The health endpoint of \<^verbatim>\<open>pkg/server/health.go\<close>: the response built from the configuration,
  the metrics and the clock, and its JSON document.  Reading a file, splitting it into PEM
  blocks and parsing a certificate are parameters; a certificate is its expiry.  The clock is
  read once for an answer.
\<close>

section \<open>Durations as floating point numbers\<close>

text \<open>\<^verbatim>\<open>time.Time.Sub\<close> saturates at the 64-bit range of nanoseconds.\<close>

definition time_Sub :: "gotime \<Rightarrow> gotime \<Rightarrow> int" where
  "time_Sub t u =
     (let d = (unix_sec t - unix_sec u) * 1000000000 + (int (nsec t) - int (nsec u)) in
      max (- (2 ^ 63)) (min (2 ^ 63 - 1) d))"

text \<open>A non-negative number as mantissa and exponent; division and addition round to nearest.\<close>

type_synonym magnitude = "nat \<times> int"

definition float_nat :: "nat \<Rightarrow> magnitude" where
  "float_nat n = round_double n 1"

definition float_div :: "magnitude \<Rightarrow> nat \<Rightarrow> magnitude" where
  "float_div f n = (case fraction_of f of (a, b) \<Rightarrow> round_double a (b * n))"

definition float_add :: "magnitude \<Rightarrow> magnitude \<Rightarrow> magnitude" where
  "float_add f g =
     (case fraction_of f of (a, b) \<Rightarrow> case fraction_of g of (c, d) \<Rightarrow> round_double (a * d + c * b) (b * d))"

text \<open>\<^verbatim>\<open>Duration.Seconds\<close> and \<^verbatim>\<open>Duration.Hours\<close> of a magnitude: whole units plus a fraction.  Both
  Go divisions truncate towards zero, so a negative duration is the negated magnitude.\<close>

definition in_units :: "nat \<Rightarrow> nat \<Rightarrow> magnitude" where
  "in_units unit n = float_add (float_nat (n div unit)) (float_div (float_nat (n mod unit)) unit)"

definition duration_Seconds :: "nat \<Rightarrow> magnitude" where
  "duration_Seconds = in_units 1000000000"

definition duration_Hours :: "nat \<Rightarrow> magnitude" where
  "duration_Hours = in_units 3600000000000"

text \<open>The conversion to an integer truncates; \<^verbatim>\<open>math.Floor\<close> goes down.\<close>

definition trunc_float :: "bool \<Rightarrow> magnitude \<Rightarrow> int" where
  "trunc_float neg f = (case fraction_of f of (a, b) \<Rightarrow> (if neg then - int (a div b) else int (a div b)))"

definition floor_float :: "bool \<Rightarrow> magnitude \<Rightarrow> int" where
  "floor_float neg f =
     (case fraction_of f of (a, b) \<Rightarrow> (if neg then - int ((a + b - 1) div b) else int (a div b)))"

section \<open>The response\<close>

record HealthConfig =
  StartTime :: gotime
  WriterType :: string
  WriterAddr :: string
  TLSEnabled :: bool
  TLSCertFile :: string

record tlsInfo =
  t_Enabled :: bool
  CertExpiry :: string
  DaysRemaining :: "int option"

record healthResponse =
  Status :: string
  UptimeSeconds :: int
  h_QueueDepth :: int
  h_EventsReceivedTotal :: int
  h_EventsWrittenTotal :: int
  h_EventsDroppedTotal :: int
  h_LastEventAt :: string
  h_WriterType :: string
  h_WriterTarget :: string
  h_WriterHealthy :: bool
  h_TLS :: tlsInfo

definition days_until :: "gotime \<Rightarrow> gotime \<Rightarrow> int" where
  "days_until expiry now =
     (let d = time_Sub expiry now in
      floor_float (d < 0) (float_div (duration_Hours (nat \<bar>d\<bar>)) 24))"

text \<open>The PEM blocks of a file are pairs of a type and its bytes.\<close>

record cert_files =
  read_file :: "string \<Rightarrow> bytes option"
  pem_blocks :: "bytes \<Rightarrow> (string \<times> bytes) list"
  parse_certificate :: "bytes \<Rightarrow> gotime option"

fun first_cert :: "(bytes \<Rightarrow> gotime option) \<Rightarrow> (string \<times> bytes) list \<Rightarrow> gotime option" where
  "first_cert parse [] = None"
| "first_cert parse ((t, b) # blocks) =
     (if t \<noteq> ''CERTIFICATE'' then first_cert parse blocks
      else case parse b of None \<Rightarrow> first_cert parse blocks | Some expiry \<Rightarrow> Some expiry)"

definition loadFirstCert :: "cert_files \<Rightarrow> string \<Rightarrow> gotime option" where
  "loadFirstCert F path =
     (case read_file F path of
        None \<Rightarrow> None
      | Some data \<Rightarrow> first_cert (parse_certificate F) (pem_blocks F data))"

definition buildTLSInfo :: "cert_files \<Rightarrow> gotime \<Rightarrow> HealthConfig \<Rightarrow> tlsInfo" where
  "buildTLSInfo F now cfg =
     (let info = \<lparr>t_Enabled = TLSEnabled cfg, CertExpiry = [], DaysRemaining = None\<rparr> in
      if \<not> TLSEnabled cfg \<or> TLSCertFile cfg = [] then info
      else case loadFirstCert F (TLSCertFile cfg) of
             None \<Rightarrow> info
           | Some expiry \<Rightarrow>
               info\<lparr>CertExpiry := format_date expiry, DaysRemaining := Some (days_until expiry now)\<rparr>)"

definition buildHealthResponse ::
  "cert_files \<Rightarrow> gotime \<Rightarrow> HealthConfig \<Rightarrow> Snapshot \<Rightarrow> healthResponse" where
  "buildHealthResponse F now cfg snap =
     (let up = time_Sub now (StartTime cfg) in
      \<lparr>Status = (if 0 < sn_EventsDroppedTotal snap then ''degraded'' else ''ok''),
       UptimeSeconds = trunc_float (up < 0) (duration_Seconds (nat \<bar>up\<bar>)),
       h_QueueDepth = sn_QueueDepth snap,
       h_EventsReceivedTotal = sn_EventsReceivedTotal snap,
       h_EventsWrittenTotal = sn_EventsWrittenTotal snap,
       h_EventsDroppedTotal = sn_EventsDroppedTotal snap,
       h_LastEventAt = (if sn_LastEventAt snap = zero_time then [] else format_RFC3339 (sn_LastEventAt snap)),
       h_WriterType = WriterType cfg, h_WriterTarget = WriterAddr cfg, h_WriterHealthy = True,
       h_TLS = buildTLSInfo F now cfg\<rparr>)"

text \<open>\<^verbatim>\<open>encoding/json\<close> with its default escaping of the HTML characters, which inside a document only
  stand in strings.\<close>

definition html_safe :: "string \<Rightarrow> string" where
  "html_safe s = concat (map (\<lambda>c. if c \<in> {CHR ''<'', CHR ''>'', CHR ''&''} then json_u (byte_val c) else [c]) s)"

definition json_bool :: "bool \<Rightarrow> string" where
  "json_bool b = (if b then ''true'' else ''false'')"

definition member :: "string \<Rightarrow> string \<Rightarrow> string" where
  "member name v = json_string name @ '':'' @ v"

fun comma_separated :: "string list \<Rightarrow> string" where
  "comma_separated [] = []"
| "comma_separated [m] = m"
| "comma_separated (m # ms) = m @ '','' @ comma_separated ms"

definition object_of :: "string list \<Rightarrow> string" where
  "object_of ms = ''{'' @ comma_separated ms @ ''}''"

definition tls_json :: "tlsInfo \<Rightarrow> string" where
  "tls_json t = object_of
     ([member ''enabled'' (json_bool (t_Enabled t))] @
      (if CertExpiry t = [] then [] else [member ''cert_expiry'' (json_string (CertExpiry t))]) @
      (case DaysRemaining t of None \<Rightarrow> [] | Some d \<Rightarrow> [member ''days_remaining'' (Itoa d)]))"

definition health_json :: "healthResponse \<Rightarrow> string" where
  "health_json r = object_of
     ([member ''status'' (json_string (Status r)),
       member ''uptime_seconds'' (Itoa (UptimeSeconds r)),
       member ''queue_depth'' (Itoa (h_QueueDepth r)),
       member ''events_received_total'' (Itoa (h_EventsReceivedTotal r)),
       member ''events_written_total'' (Itoa (h_EventsWrittenTotal r)),
       member ''events_dropped_total'' (Itoa (h_EventsDroppedTotal r))] @
      (if h_LastEventAt r = [] then [] else [member ''last_event_at'' (json_string (h_LastEventAt r))]) @
      [member ''writer'' (object_of
         [member ''type'' (json_string (h_WriterType r)),
          member ''target'' (json_string (h_WriterTarget r)),
          member ''healthy'' (json_bool (h_WriterHealthy r))]),
       member ''tls'' (tls_json (h_TLS r))])"

definition serve_health ::
  "cert_files \<Rightarrow> gotime \<Rightarrow> HealthConfig \<Rightarrow> string \<Rightarrow> Store \<Rightarrow> Response" where
  "serve_health F now cfg method s =
     (if method \<noteq> ''GET'' then method_not_allowed
      else \<lparr>StatusCode = 200, ContentType = ''application/json'',
             response_body = html_safe (health_json (buildHealthResponse F now cfg (snapshot s))) @ nl\<rparr>)"

section \<open>Rounding keeps the sign\<close>

lemma scale2_ge:
  assumes "0 < a" "0 < b" "e \<le> bits a - bits b - 52" "scale2 a b e = (n, d)"
  shows "d \<le> n"
proof -
  obtain x where x: "floorlog 2 a = Suc x"
    using assms(1) by (cases "floorlog 2 a") (auto simp: floorlog_eq_zero_iff)
  have a: "2 ^ x \<le> a" using floorlog_bounds [OF assms(1), of 2] x by simp
  have b: "b < 2 ^ floorlog 2 b" using floorlog_bounds [OF assms(2), of 2] by simp
  show ?thesis
  proof (cases "0 \<le> e")
    case True
    then have k: "floorlog 2 b + nat e \<le> x" using assms(3) x by (simp add: bits_def)
    have "b * 2 ^ nat e \<le> 2 ^ (floorlog 2 b + nat e)" using b by (simp add: power_add)
    also have "\<dots> \<le> 2 ^ x" using k by (intro power_increasing) simp_all
    finally show ?thesis using a assms(4) True by (simp add: scale2_def)
  next
    case False
    then have k: "floorlog 2 b \<le> x + nat (- e)" using assms(3) x by (simp add: bits_def)
    have "b \<le> 2 ^ floorlog 2 b" using b by simp
    also have "\<dots> \<le> 2 ^ (x + nat (- e))" using k by (intro power_increasing) simp_all
    also have "\<dots> \<le> a * 2 ^ nat (- e)" using a by (simp add: power_add)
    finally show ?thesis using assms(4) False by (simp add: scale2_def)
  qed
qed

lemma round_double_pos: "0 < b \<Longrightarrow> 0 < fst (round_double a b) \<longleftrightarrow> 0 < a"
proof (cases "a = 0")
  case False
  assume b: "0 < b"
  let ?e0 = "bits a - bits b - 53"
  let ?e = "if fst (scale2 a b ?e0) < snd (scale2 a b ?e0) * 2 ^ 53 then ?e0 else ?e0 + 1"
  obtain n d where n: "scale2 a b ?e = (n, d)" by fastforce
  have "d \<le> n" using scale2_ge [of a b ?e n d] n False b by (auto split: if_splits)
  moreover have "0 < d" using n b by (auto simp: scale2_def split: if_splits)
  ultimately have "0 < round_div n d" by (auto simp: round_div_def Let_def div_greater_zero_iff)
  then show ?thesis using n False
    by (auto simp: round_double_def Let_def case_prod_beta split: if_splits)
qed (simp add: round_double_def)

lemma fraction_pos: "0 < snd (fraction_of f)" "0 < fst (fraction_of f) \<longleftrightarrow> 0 < fst f"
  by (auto simp: fraction_of_def split: prod.splits)

lemma in_units_pos:
  assumes "0 < unit"
  shows "0 < fst (in_units unit n) \<longleftrightarrow> 0 < n"
proof -
  have nat: "0 < fst (float_nat k) \<longleftrightarrow> 0 < k" for k by (simp add: float_nat_def round_double_pos)
  have div: "0 < fst (float_div f k) \<longleftrightarrow> 0 < fst f" if "0 < k" for f k
    using that fraction_pos [of f] by (simp add: float_div_def case_prod_beta round_double_pos)
  have add: "0 < fst (float_add f g) \<longleftrightarrow> 0 < fst f \<or> 0 < fst g" for f g
    using fraction_pos [of f] fraction_pos [of g] by (simp add: float_add_def case_prod_beta round_double_pos)
  have "0 < n div unit \<or> 0 < n mod unit \<longleftrightarrow> 0 < n"
    using assms div_mult_mod_eq [of n unit] by (metis div_0 gr0I mod_0 mult_0 add_0 less_numeral_extra(3))
  then show ?thesis by (simp add: in_units_def add nat div [OF assms])
qed

lemma floor_float_sign: "floor_float neg f < 0 \<longleftrightarrow> neg \<and> 0 < fst f"
proof -
  obtain a b where f: "fraction_of f = (a, b)" by fastforce
  have b: "0 < b" "0 < a \<longleftrightarrow> 0 < fst f" using fraction_pos [of f] f by simp_all
  have "0 < (a + b - 1) div b \<longleftrightarrow> 0 < a" using b(1) by (auto simp: div_greater_zero_iff)
  then show ?thesis using b f by (simp add: floor_float_def)
qed

lemma days_sign: "days_until expiry now < 0 \<longleftrightarrow> time_Sub expiry now < 0"
proof -
  have "0 < fst (float_div (duration_Hours n) 24) \<longleftrightarrow> 0 < n" for n
    using fraction_pos [of "duration_Hours n"] in_units_pos [of 3600000000000 n]
    by (simp add: float_div_def case_prod_beta round_double_pos duration_Hours_def)
  then have "floor_float (d < 0) (float_div (duration_Hours (nat \<bar>d\<bar>)) 24) < 0 \<longleftrightarrow> d < 0" for d
    unfolding floor_float_sign by (simp add: conj_commute) linarith
  then show ?thesis unfolding days_until_def Let_def .
qed

definition before :: "gotime \<Rightarrow> gotime \<Rightarrow> bool" where
  "before t u \<longleftrightarrow> unix_sec t < unix_sec u \<or> unix_sec t = unix_sec u \<and> nsec t < nsec u"

lemma time_Sub_sign:
  assumes "time_ok t" "time_ok u"
  shows "time_Sub t u < 0 \<longleftrightarrow> before t u"
proof -
  define x where "x = unix_sec t - unix_sec u"
  define d where "d = x * 1000000000 + (int (nsec t) - int (nsec u))"
  have n: "nsec t < 1000000000" "nsec u < 1000000000" using assms by (simp_all add: time_ok_def)
  have "time_Sub t u = max (- (2 ^ 63)) (min (2 ^ 63 - 1) d)"
    by (simp add: time_Sub_def Let_def x_def d_def)
  then have "time_Sub t u < 0 \<longleftrightarrow> d < 0" by (simp add: max_def min_def)
  also have "\<dots> \<longleftrightarrow> before t u"
  proof -
    consider "x \<le> - 1" | "x = 0" | "1 \<le> x" by linarith
    then show ?thesis
    proof cases
      case 1
      then have "d < 0" using n unfolding d_def by linarith
      then show ?thesis using 1 by (simp add: before_def x_def)
    next
      case 2
      then show ?thesis by (simp add: before_def d_def) (simp add: x_def)
    next
      case 3
      then have "0 < d" using n unfolding d_def by linarith
      then show ?thesis using 3 by (simp add: before_def x_def)
    qed
  qed
  finally show ?thesis .
qed

text \<open>C18: The health endpoint tells the truth.  Whatever the configuration, its answer to a GET is
  built from the metrics as they stand: it is degraded just when an event was dropped and ok
  otherwise, it repeats the counters and the depth of the queue, and it says whether TLS is
  on.  It gives an expiry just when TLS is on and a certificate can be read from the
  configured file, then with the date of that certificate and a number of days that is
  negative just when it has expired, whatever the rounding of the arithmetic in between.\<close>

theorem health_is_truthful:
  assumes "time_ok now" "\<And>expiry. loadFirstCert F (TLSCertFile cfg) = Some expiry \<Longrightarrow> time_ok expiry"
  shows "\<exists>r. serve_health F now cfg ''GET'' s =
      \<lparr>StatusCode = 200, ContentType = ''application/json'', response_body = html_safe (health_json r) @ nl\<rparr> \<and>
    Status r = (if 0 < EventsDroppedTotal s then ''degraded'' else ''ok'') \<and>
    h_EventsReceivedTotal r = EventsReceivedTotal s \<and> h_EventsWrittenTotal r = EventsWrittenTotal s \<and>
    h_EventsDroppedTotal r = EventsDroppedTotal s \<and> h_QueueDepth r = sn_QueueDepth (snapshot s) \<and>
    t_Enabled (h_TLS r) = TLSEnabled cfg \<and>
    (case (if TLSEnabled cfg \<and> TLSCertFile cfg \<noteq> [] then loadFirstCert F (TLSCertFile cfg) else None) of
       None \<Rightarrow> CertExpiry (h_TLS r) = [] \<and> DaysRemaining (h_TLS r) = None
     | Some expiry \<Rightarrow> CertExpiry (h_TLS r) = format_date expiry \<and>
         (\<exists>d. DaysRemaining (h_TLS r) = Some d \<and> (d < 0 \<longleftrightarrow> before expiry now)))"
proof -
  let ?r = "buildHealthResponse F now cfg (snapshot s)"
  have d: "days_until expiry now < 0 \<longleftrightarrow> before expiry now" if "loadFirstCert F (TLSCertFile cfg) = Some expiry" for expiry
    using days_sign time_Sub_sign [OF assms(2) [OF that] assms(1)] by simp
  have "h_TLS ?r = buildTLSInfo F now cfg" by (simp add: buildHealthResponse_def Let_def)
  then have "case (if TLSEnabled cfg \<and> TLSCertFile cfg \<noteq> [] then loadFirstCert F (TLSCertFile cfg) else None) of
       None \<Rightarrow> CertExpiry (h_TLS ?r) = [] \<and> DaysRemaining (h_TLS ?r) = None
     | Some expiry \<Rightarrow> CertExpiry (h_TLS ?r) = format_date expiry \<and>
         (\<exists>d. DaysRemaining (h_TLS ?r) = Some d \<and> (d < 0 \<longleftrightarrow> before expiry now))"
    using d by (auto simp: buildTLSInfo_def Let_def split: option.splits)
  moreover have "t_Enabled (h_TLS ?r) = TLSEnabled cfg"
    by (simp add: buildHealthResponse_def buildTLSInfo_def Let_def split: option.split)
  ultimately show ?thesis
    by (intro exI [of _ ?r]) (simp add: serve_health_def buildHealthResponse_def snapshot_def Let_def)
qed

definition tls_health :: HealthConfig where
  "tls_health = \<lparr>StartTime = mk_time 0 0, WriterType = ''gelf'', WriterAddr = ''graylog:12201'',
     TLSEnabled = True, TLSCertFile = ''cert.pem''\<rparr>"

text \<open>A file with a key before its certificate.\<close>

definition sample_files :: cert_files where
  "sample_files =
     \<lparr>read_file = (\<lambda>f. Some []), pem_blocks = (\<lambda>b. [(''EC PRIVATE KEY'', ''k''), (''CERTIFICATE'', ''c'')]),
      parse_certificate = (\<lambda>b. Some (mk_time 100 0))\<rparr>"

theorem health_is_truthful_witness:
  "\<exists>r d. response_body (serve_health sample_files (mk_time 100 1) tls_health ''GET'' new_store) =
      html_safe (health_json r) @ nl \<and> Status r = ''ok'' \<and> DaysRemaining (h_TLS r) = Some d \<and> d < 0"
  using health_is_truthful [of "mk_time 100 1" sample_files tls_health new_store]
  by (auto simp: tls_health_def sample_files_def loadFirstCert_def time_ok_def before_def new_store_def)

end
