(* ===== verification/Startup.thy ===== *)
theory Startup
  imports Tls_Config Delivery Health
begin

text \<open>
  The start of the program (\<^verbatim>\<open>run\<close> and \<^verbatim>\<open>buildWriter\<close> in \<^verbatim>\<open>cmd/cee-exporter/main.go\<close>,
  \<^verbatim>\<open>emit_test_events.go\<close>): the writer factory, the diagnostic
  run, and the way from the decoded configuration to a serving process or an exit code.
\<close>

section \<open>The writer factory\<close>

text \<open>What a new connection finds, for the first, the second, \dots\ connection opened, and whether
  the handshakes its writer makes during the start, those of the retries of a diagnostic run
  included, come to an end.\<close>

record network =
  sockets :: "nat \<Rightarrow> socket"
  clients :: "nat \<Rightarrow> SyncClient"
  dial_ends :: "nat \<Rightarrow> bool"

definition quoted :: "string \<Rightarrow> string" where
  "quoted s = [CHR 0x22] @ s @ [CHR 0x22]"

text \<open>\<^verbatim>\<open>fmt.Sprintf("%v", addrs)\<close>.\<close>

fun joined_with :: "string \<Rightarrow> string list \<Rightarrow> string" where
  "joined_with sep [] = []"
| "joined_with sep [a] = a"
| "joined_with sep (a # as) = a @ sep @ joined_with sep as"

definition bracketed :: "string list \<Rightarrow> string" where
  "bracketed as = ''['' @ joined_with '' '' as @ '']''"

text \<open>The section of the configuration each backend is given.\<close>

definition gelf_settings :: "OutputConfig \<Rightarrow> GELFConfig" where
  "gelf_settings cfg =
     \<lparr>g_Host = GELFHost cfg, g_Port = GELFPort cfg, g_Protocol = GELFProtocol cfg, g_TLS = GELFTLS cfg\<rparr>"

definition evtx_settings :: "OutputConfig \<Rightarrow> RotationConfig" where
  "evtx_settings cfg =
     \<lparr>r_FlushIntervalSec = FlushIntervalSec cfg, r_MaxFileSizeMB = MaxFileSizeMB cfg,
      r_MaxFileCount = MaxFileCount cfg, r_RotationIntervalH = RotationIntervalH cfg\<rparr>"

definition syslog_settings :: "OutputConfig \<Rightarrow> SyslogConfig" where
  "syslog_settings cfg =
     \<lparr>s_Host = SyslogHost cfg, s_Port = SyslogPort cfg, s_Protocol = SyslogProtocol cfg,
      s_AppName = SyslogAppName cfg\<rparr>"

definition beats_settings :: "OutputConfig \<Rightarrow> BeatsConfig" where
  "beats_settings cfg = \<lparr>b_Host = BeatsHost cfg, b_Port = BeatsPort cfg, b_TLS = BeatsTLS cfg\<rparr>"

definition open_gelf :: "network \<Rightarrow> OutputConfig \<Rightarrow> nat \<Rightarrow> write_error + 'g Writer \<times> string" where
  "open_gelf net cfg n =
     (case NewGELFWriter (gelf_settings cfg) (sockets net n) of
        Inl err \<Rightarrow> Inl err
      | Inr w \<Rightarrow> Inr (GELF w, hostPort (GELFHost cfg) (GELFPort cfg)))"

definition open_evtx :: "'g libraries \<Rightarrow> OutputConfig \<Rightarrow> write_error + 'g Writer \<times> string" where
  "open_evtx L cfg =
     (case NewBinaryEvtxWriter L (EVTXPath cfg) (evtx_settings cfg) of
        Inl err \<Rightarrow> Inl err
      | Inr w \<Rightarrow> Inr (Evtx w, EVTXPath cfg))"

definition open_syslog :: "network \<Rightarrow> OutputConfig \<Rightarrow> nat \<Rightarrow> write_error + 'g Writer \<times> string" where
  "open_syslog net cfg n =
     (case NewSyslogWriter (syslog_settings cfg) (sockets net n) of
        Inl err \<Rightarrow> Inl err
      | Inr w \<Rightarrow> Inr (Syslog w, hostPort (SyslogHost cfg) (SyslogPort cfg)))"

definition open_beats :: "network \<Rightarrow> OutputConfig \<Rightarrow> nat \<Rightarrow> write_error + 'g Writer \<times> string" where
  "open_beats net cfg n =
     (case NewBeatsWriter (beats_settings cfg) (clients net n) of
        Inl err \<Rightarrow> Inl err
      | Inr w \<Rightarrow> Inr (Beats w, hostPort (BeatsHost cfg) (BeatsPort cfg)))"

text \<open>Every dial has a timeout but one: \<^verbatim>\<open>tls.Dial\<close> of the GELF writer, which a peer that accepts
  the connection and stays silent can hold up for ever.\<close>

definition unbounded_dial :: "OutputConfig \<Rightarrow> bool" where
  "unbounded_dial cfg \<longleftrightarrow> GELFProtocol cfg = ''tcp'' \<and> GELFTLS cfg"

text \<open>\<^verbatim>\<open>buildWriter\<close> calls itself for every target of a fan-out, with the same list of targets, so
  it need not return: \<open>None\<close> is a recursion that has used up its fuel, or a dial that never
  ends.  \<open>n\<close> counts the connections opened so far.\<close>

fun buildWriter ::
    "nat \<Rightarrow> 'g libraries \<Rightarrow> network \<Rightarrow> OutputConfig \<Rightarrow> nat \<Rightarrow> ((write_error + 'g Writer \<times> string) \<times> nat) option"
  and build_targets ::
    "nat \<Rightarrow> 'g libraries \<Rightarrow> network \<Rightarrow> OutputConfig \<Rightarrow> string list \<Rightarrow> nat \<Rightarrow>
      ((write_error + ('g Writer \<times> string) list) \<times> nat) option" where
  "buildWriter 0 L net cfg n = None"
| "buildWriter (Suc fuel) L net cfg n =
     (if o_Type cfg = ''gelf'' then
        (if unbounded_dial cfg \<and> \<not> dial_ends net n then None else Some (open_gelf net cfg n, n + 1))
      else if o_Type cfg = ''evtx'' then Some (open_evtx L cfg, n + 1)
      else if o_Type cfg = ''multi'' then
        (case build_targets fuel L net cfg (Targets cfg) n of
           None \<Rightarrow> None
         | Some (Inl err, n1) \<Rightarrow> Some (Inl err, n1)
         | Some (Inr ws, n1) \<Rightarrow> Some (Inr (NewMultiWriter (map fst ws), bracketed (map snd ws)), n1))
      else if o_Type cfg = ''syslog'' then Some (open_syslog net cfg n, n + 1)
      else if o_Type cfg = ''beats'' then Some (open_beats net cfg n, n + 1)
      else Some (Inl (Refused (''unknown output type '' @ quoted (o_Type cfg))), n))"
| "build_targets fuel L net cfg [] n = Some (Inr [], n)"
| "build_targets fuel L net cfg (t # ts) n =
     (case buildWriter fuel L net (cfg\<lparr>o_Type := t\<rparr>) n of
        None \<Rightarrow> None
      | Some (Inl err, n1) \<Rightarrow> Some (Inl (Wrapped (''multi target '' @ quoted t @ '':'') err), n1)
      | Some (Inr w, n1) \<Rightarrow>
          (case build_targets fuel L net cfg ts n1 of
             None \<Rightarrow> None
           | Some (Inl err, n2) \<Rightarrow> Some (Inl err, n2)
           | Some (Inr ws, n2) \<Rightarrow> Some (Inr (w # ws), n2)))"

section \<open>The diagnostic run\<close>

definition test_event :: "string \<Rightarrow> gotime \<Rightarrow> int \<Rightarrow> WindowsEvent" where
  "test_event host now eid =
     \<lparr>w_EventID = eid, w_ProviderName = ProviderName, w_Computer = host, w_Channel = [],
      w_TimeCreated = now, w_SubjectUserSID = [], w_SubjectUsername = ''test-user'',
      w_SubjectDomain = ''TEST'', w_SubjectLogonID = [], w_ObjectType = ''File'',
      w_ObjectName = ''C:'' @ [CHR 0x5C] @ ''test'' @ [CHR 0x5C] @ ''emit-test-events.txt'',
      w_AccessMask = ''0x1'', w_Accesses = ''ReadData'', w_ProcessID = 0, w_HandleID = [],
      w_ClientAddr = ''127.0.0.1'', w_BytesRead = 0, w_BytesWritten = 0, w_NumberOfReads = 0,
      w_NumberOfWrites = 0, w_CEPAEventType = ''TEST_EVENT''\<rparr>"

fun emit_loop ::
  "'g libraries \<Rightarrow> WindowsEvent list \<Rightarrow> 'g Writer \<Rightarrow> Store \<Rightarrow> write_error option \<times> 'g Writer \<times> Store" where
  "emit_loop L [] w m = (None, w, m)"
| "emit_loop L (e # es) w m =
     (case write_event L e w m of
        (None, w1, m1) \<Rightarrow> emit_loop L es w1 m1
      | (Some err, w1, m1) \<Rightarrow>
          (Some (Wrapped (''emit test event '' @ Itoa (w_EventID e) @ '':'') err), w1, m1))"

definition emitTestEvents ::
  "'g libraries \<Rightarrow> string \<Rightarrow> gotime \<Rightarrow> 'g Writer \<Rightarrow> Store \<Rightarrow> write_error option \<times> 'g Writer \<times> Store" where
  "emitTestEvents L host now = emit_loop L (map (test_event host now) [4660, 4663, 4670])"

definition emitExitCode :: "write_error option \<Rightarrow> write_error option \<Rightarrow> nat" where
  "emitExitCode emitErr closeErr = (if emitErr \<noteq> None \<or> closeErr \<noteq> None then 1 else 0)"

text \<open>The branch of \<^verbatim>\<open>run\<close> for \<^verbatim>\<open>-emit-test-events\<close>: the writer is closed whatever happened.\<close>

definition emit_run :: "'g libraries \<Rightarrow> string \<Rightarrow> gotime \<Rightarrow> 'g Writer \<Rightarrow> Store \<Rightarrow> nat \<times> 'g Writer" where
  "emit_run L host now w m =
     (case emitTestEvents L host now w m of
        (emitErr, w1, m1) \<Rightarrow> (case close_writer L w1 of (closeErr, w2) \<Rightarrow> (emitExitCode emitErr closeErr, w2)))"

section \<open>From the configuration to a serving process\<close>

text \<open>The machine the program starts on: what decoding the file over the defaults gives, the
  environment, the host name (empty if it cannot be had), the libraries and the network.\<close>

datatype file_result = NoFile | Broken | Decoded AppConfig

record 'g machine =
  decode_file :: "string \<Rightarrow> AppConfig \<Rightarrow> file_result"
  env_var :: "string \<Rightarrow> string"
  host_name :: string
  the_libraries :: "'g libraries"
  the_network :: network
  certificates :: tls_world
  can_listen :: "string \<Rightarrow> bool"
  started_at :: gotime

text \<open>What serves once the start has succeeded.\<close>

record 'g service =
  sv_writer :: "'g Writer"
  sv_queue :: Queue
  sv_handler :: Handler
  sv_health :: HealthConfig
  sv_tls :: tls_config
  sv_listen :: string
  sv_metrics :: "string option"
  sv_log :: log_handler

datatype 'g process = Exit nat | Ready "'g service"

definition effective_config :: "'g machine \<Rightarrow> string \<Rightarrow> AppConfig option" where
  "effective_config M path =
     (case (case decode_file M path defaultConfig of
              NoFile \<Rightarrow> Some defaultConfig | Broken \<Rightarrow> None | Decoded c \<Rightarrow> Some c) of
        None \<Rightarrow> None
      | Some c \<Rightarrow>
          (let c1 = c\<lparr>a_Listen := migrateListenConfig (a_Listen c)\<rparr> in
           if validateOutputConfig (a_Output c1) \<noteq> None then None
           else Some (c1\<lparr>a_Logging := override_logging (env_var M ''CEE_LOG_LEVEL'')
                             (env_var M ''CEE_LOG_FORMAT'') (a_Logging c1)\<rparr>)))"

definition stamped_hostname :: "'g machine \<Rightarrow> AppConfig \<Rightarrow> string" where
  "stamped_hostname M c = (if a_Hostname c = [] then host_name M else a_Hostname c)"

text \<open>The second half of \<^verbatim>\<open>run\<close>, once there is a writer.\<close>

definition serve_with :: "'g machine \<Rightarrow> AppConfig \<Rightarrow> 'g Writer \<Rightarrow> string \<Rightarrow> 'g process" where
  "serve_with M c w addr =
     (let qc = queue_config (a_Queue c) in
      case tls_of_mode (certificates M) (started_at M) (a_Listen c) of
        None \<Rightarrow> Exit 1
      | Some t \<Rightarrow>
          if \<not> can_listen M (Addr (a_Listen c)) then Exit 1
          else Ready
            \<lparr>sv_writer = w, sv_queue = Start qc (New new_store),
             sv_handler = NewHandler qc (stamped_hostname M c) (a_CEPA c) (a_Server c),
             sv_health = \<lparr>StartTime = started_at M, WriterType = o_Type (a_Output c), WriterAddr = addr,
                TLSEnabled = TLSMode (a_Listen c) \<noteq> ''off'', TLSCertFile = CertFile (a_Listen c)\<rparr>,
             sv_tls = t, sv_listen = Addr (a_Listen c),
             sv_metrics = (if m_Enabled (a_Metrics c) then Some (m_Addr (a_Metrics c)) else None),
             sv_log = log_Init (l_Level (a_Logging c)) (l_Format (a_Logging c))\<rparr>)"

definition run_startup :: "nat \<Rightarrow> 'g machine \<Rightarrow> bool \<Rightarrow> string \<Rightarrow> 'g process option" where
  "run_startup fuel M emit path =
     (case effective_config M path of
        None \<Rightarrow> Some (Exit 1)
      | Some c \<Rightarrow>
          (case buildWriter fuel (the_libraries M) (the_network M) (a_Output c) 0 of
             None \<Rightarrow> None
           | Some (Inl err, n) \<Rightarrow> Some (Exit 1)
           | Some (Inr (w, addr), n) \<Rightarrow>
               Some (if emit
                     then Exit (fst (emit_run (the_libraries M) (stamped_hostname M c) (started_at M) w new_store))
                     else serve_with M c w addr)))"

section \<open>The writer is the configured one\<close>

text \<open>A writer has the kind and the settings the configuration gives it, with the defaults of its
  own constructor filled in.\<close>

fun fits :: "'g libraries \<Rightarrow> OutputConfig \<Rightarrow> 'g Writer \<Rightarrow> bool"
  and fits_each :: "'g libraries \<Rightarrow> OutputConfig \<Rightarrow> string list \<Rightarrow> 'g Writer list \<Rightarrow> bool" where
  "fits L cfg (GELF w) =
     (o_Type cfg = ''gelf'' \<and> g_Host (g_cfg w) = GELFHost cfg \<and>
      g_Port (g_cfg w) = (if GELFPort cfg = 0 then 12201 else GELFPort cfg) \<and>
      g_Protocol (g_cfg w) = (if GELFProtocol cfg = [] then ''udp'' else GELFProtocol cfg) \<and>
      g_TLS (g_cfg w) = GELFTLS cfg)"
| "fits L cfg (Syslog w) =
     (o_Type cfg = ''syslog'' \<and> s_Host (s_cfg w) = SyslogHost cfg \<and>
      s_Port (s_cfg w) = (if SyslogPort cfg = 0 then 514 else SyslogPort cfg) \<and>
      s_Protocol (s_cfg w) = (if SyslogProtocol cfg = [] then ''udp'' else SyslogProtocol cfg) \<and>
      s_AppName (s_cfg w) = (if SyslogAppName cfg = [] then ''cee-exporter'' else SyslogAppName cfg))"
| "fits L cfg (Beats w) =
     (o_Type cfg = ''beats'' \<and> b_Host (b_cfg w) = BeatsHost cfg \<and>
      b_Port (b_cfg w) = (if BeatsPort cfg = 0 then 5044 else BeatsPort cfg) \<and> b_TLS (b_cfg w) = BeatsTLS cfg)"
| "fits L cfg (Evtx w) = (o_Type cfg = ''evtx'' \<and> EVTXPath cfg \<noteq> [] \<and> \<not> e_closed w \<and>
      evtx_New (go_evtx L) (EVTXPath cfg) (evtx_settings cfg) = Inr (e_w w))"
| "fits L cfg (Multi ws) = (o_Type cfg = ''multi'' \<and> fits_each L cfg (Targets cfg) ws)"
| "fits_each L cfg [] [] = True"
| "fits_each L cfg (t # ts) (w # ws) = (fits L (cfg\<lparr>o_Type := t\<rparr>) w \<and> fits_each L cfg ts ws)"
| "fits_each L cfg _ _ = False"

lemma open_fits:
  "o_Type cfg = ''gelf'' \<Longrightarrow> open_gelf net cfg n = Inr (w, a) \<Longrightarrow> fits L cfg w"
  "o_Type cfg = ''evtx'' \<Longrightarrow> open_evtx L cfg = Inr (w, a) \<Longrightarrow> fits L cfg w"
  "o_Type cfg = ''syslog'' \<Longrightarrow> open_syslog net cfg n = Inr (w, a) \<Longrightarrow> fits L cfg w"
  "o_Type cfg = ''beats'' \<Longrightarrow> open_beats net cfg n = Inr (w, a) \<Longrightarrow> fits L cfg w"
  by (auto simp: gelf_settings_def syslog_settings_def beats_settings_def
      gelf_defaults_def syslog_defaults_def beats_defaults_def
      open_gelf_def NewGELFWriter_def gelf_connect_def open_evtx_def NewBinaryEvtxWriter_def
      open_syslog_def NewSyslogWriter_def syslog_connect_def open_beats_def NewBeatsWriter_def beats_dial_def Let_def
      split: sum.splits prod.splits option.splits if_splits)

lemma fits_each_map: "fits_each L cfg ts ws \<longleftrightarrow> list_all2 (\<lambda>t w. fits L (cfg\<lparr>o_Type := t\<rparr>) w) ts ws"
  by (induction L cfg ts ws rule: fits_fits_each.induct(2) [where P = "\<lambda>_ _ _. True"]) auto

lemma buildWriter_fits:
  "buildWriter fuel L net cfg n = Some (Inr (w, a), n') \<Longrightarrow> fits L cfg w"
  "build_targets fuel L net cfg ts n = Some (Inr ws, n') \<Longrightarrow> fits_each L cfg ts (map fst ws)"
proof (induction fuel L net cfg n and fuel L net cfg ts n arbitrary: w a n' and ws n'
    rule: buildWriter_build_targets.induct)
  case (2 fuel L net cfg n)
  then show ?case
    by (auto simp: NewMultiWriter_def dest: open_fits split: if_splits option.splits sum.splits)
next
  case (4 fuel L net cfg t ts n)
  then show ?case by (fastforce split: option.splits sum.splits)
qed auto

section \<open>The factory returns\<close>

text \<open>The dials of a configuration end, as far as they could fail to.\<close>

definition dials_end :: "network \<Rightarrow> OutputConfig \<Rightarrow> bool" where
  "dials_end net cfg \<longleftrightarrow> (unbounded_dial cfg \<longrightarrow> (\<forall>n. dial_ends net n))"

lemma dials_end_type [simp]: "dials_end net (cfg\<lparr>o_Type := t\<rparr>) = dials_end net cfg"
  by (simp add: dials_end_def unbounded_dial_def)

lemma single_fuel:
  "o_Type cfg \<noteq> ''multi'' \<Longrightarrow> buildWriter (Suc f) L net cfg n = buildWriter (Suc 0) L net cfg n"
  "o_Type cfg \<noteq> ''multi'' \<Longrightarrow> dials_end net cfg \<Longrightarrow> \<exists>r. buildWriter (Suc f) L net cfg n = Some r"
  by (auto simp: dials_end_def)

lemma targets_fuel:
  assumes "''multi'' \<notin> set ts" "dials_end net cfg"
  shows "\<exists>r. build_targets (Suc f) L net cfg ts n = Some r \<and> build_targets (Suc 0) L net cfg ts n = Some r"
  using assms(1)
proof (induction ts arbitrary: n)
  case (Cons t ts)
  have t: "o_Type (cfg\<lparr>o_Type := t\<rparr>) \<noteq> ''multi''" "dials_end net (cfg\<lparr>o_Type := t\<rparr>)"
    using Cons.prems assms(2) by auto
  obtain r1 n1 where 1: "buildWriter (Suc 0) L net (cfg\<lparr>o_Type := t\<rparr>) n = Some (r1, n1)"
    using single_fuel(2) [OF t] by fastforce
  obtain r2 n2 where 2: "build_targets (Suc f) L net cfg ts n1 = Some (r2, n2)"
    "build_targets (Suc 0) L net cfg ts n1 = Some (r2, n2)"
    using Cons by fastforce
  have 3: "buildWriter (Suc f) L net (cfg\<lparr>o_Type := t\<rparr>) n = Some (r1, n1)"
    using 1 unfolding single_fuel(1) [OF t(1), of f] .
  show ?case using 1 2 3
    by (auto simp del: buildWriter.simps split: sum.splits)
qed simp

definition no_nested_multi :: "OutputConfig \<Rightarrow> bool" where
  "no_nested_multi cfg \<longleftrightarrow> (if o_Type cfg = ''multi'' then ''multi'' \<notin> set (Targets cfg) else True)"

lemma buildWriter_returns:
  assumes "no_nested_multi cfg" "dials_end net cfg"
  shows "buildWriter (Suc (Suc f)) L net cfg n = buildWriter 2 L net cfg n"
    "\<exists>r. buildWriter 2 L net cfg n = Some r"
proof -
  have "\<exists>r. buildWriter (Suc (Suc f)) L net cfg n = Some r \<and> buildWriter 2 L net cfg n = Some r"
  proof (cases "o_Type cfg = ''multi''")
    case True
    then have m: "''multi'' \<notin> set (Targets cfg)" using assms(1) by (simp add: no_nested_multi_def)
    obtain r n1 where "build_targets (Suc 0) L net cfg (Targets cfg) n = Some (r, n1)"
      "build_targets (Suc f) L net cfg (Targets cfg) n = Some (r, n1)"
      using targets_fuel [OF m assms(2)] by fastforce
    then show ?thesis using True by (cases r) (auto simp: numeral_2_eq_2)
  qed (use assms(2) in \<open>auto simp: numeral_2_eq_2 dials_end_def\<close>)
  then show "buildWriter (Suc (Suc f)) L net cfg n = buildWriter 2 L net cfg n"
    "\<exists>r. buildWriter 2 L net cfg n = Some r" by auto
qed

text \<open>A fan-out whose first target is a fan-out calls itself with the same arguments for ever.\<close>

lemma nested_multi_never_returns:
  "o_Type cfg = ''multi'' \<Longrightarrow> Targets cfg = ''multi'' # ts \<Longrightarrow> buildWriter fuel L net cfg n = None"
proof (induction fuel arbitrary: cfg n)
  case (Suc fuel)
  have "cfg\<lparr>o_Type := ''multi''\<rparr> = cfg" using Suc.prems by simp
  then show ?case using Suc by simp
qed simp

text \<open>Nor does it return when the handshake of a GELF connection never ends.\<close>

lemma hanging_handshake_never_returns:
  "o_Type cfg = ''gelf'' \<Longrightarrow> unbounded_dial cfg \<Longrightarrow> \<not> dial_ends net n \<Longrightarrow> buildWriter fuel L net cfg n = None"
  by (cases fuel) simp_all

section \<open>What a running process promises\<close>

lemma effective_mode: "effective_config M path = Some c \<Longrightarrow> TLSMode (a_Listen c) \<noteq> []"
  by (auto simp: effective_config_def Let_def migrate_mode split: file_result.splits option.splits if_splits)
lemma run_ready:
  assumes "run_startup fuel M emit path = Some (Ready s)"
  obtains c w addr n where "effective_config M path = Some c"
    "buildWriter fuel (the_libraries M) (the_network M) (a_Output c) 0 = Some (Inr (w, addr), n)"
    "serve_with M c w addr = Ready s"
  using assms by (auto simp: run_startup_def split: option.splits sum.splits if_splits prod.splits)

lemma serve_ready:
  assumes "serve_with M c w addr = Ready s"
  shows "sv_writer s = w" "sv_queue s = started (queue_config (a_Queue c))"
    "tls_of_mode (certificates M) (started_at M) (a_Listen c) = Some (sv_tls s)"
    "sv_handler s = NewHandler (queue_config (a_Queue c)) (stamped_hostname M c) (a_CEPA c) (a_Server c)"
    "TLSEnabled (sv_health s) \<longleftrightarrow> TLSMode (a_Listen c) \<noteq> ''off''"
    "sv_listen s = Addr (a_Listen c)" "sv_log s = log_Init (l_Level (a_Logging c)) (l_Format (a_Logging c))"
    "sv_metrics s = (if m_Enabled (a_Metrics c) then Some (m_Addr (a_Metrics c)) else None)"
  using assms by (auto simp: serve_with_def started_def Let_def split: option.splits if_splits)

lemma effective_valid:
  "effective_config M path = Some c \<Longrightarrow> validateOutputConfig (a_Output c) = None"
  by (auto simp: effective_config_def Let_def split: file_result.splits option.splits if_splits)

lemma started_pool: "0 < length (pool (started cfg))" "ch (started cfg) = []" "accepted (started cfg) = []"
  by (simp_all add: started_def Start_def New_def withDefaults_def)

text \<open>The settings with a default of their own: what is not positive has not been set.\<close>

definition or_eight :: "int \<Rightarrow> int" where
  "or_eight n = (if n \<le> 0 then 8 else n)"

lemma configured_limits:
  "slot_capacity (NewHandler qc host r l) = nat (or_eight (MaxConcurrentRequests l))"
  "MaxBodyMB (limits (NewHandler qc host r l)) = or_eight (MaxBodyMB l)"
  by (simp_all add: slot_capacity_def NewHandler_def limits_withDefaults_def or_eight_def)

lemma started_workers: "length (pool (started qc)) = nat (if Workers qc \<le> 0 then 4 else Workers qc)"
  by (simp add: started_def Start_def New_def withDefaults_def)



text \<open>C30: The start comes to an end.  Unless a fan-out lists a fan-out among its targets, and when
  the TLS handshakes of a GELF output, which alone have no timeout, come to an end, two levels
  of the factory suffice and the outcome, an exit code or a serving process, no longer
  depends on the fuel.\<close>

theorem startup_returns:
  assumes "\<And>c. effective_config M path = Some c \<Longrightarrow>
    no_nested_multi (a_Output c) \<and> dials_end (the_network M) (a_Output c)"
  shows "\<exists>p. \<forall>fuel. run_startup (Suc (Suc fuel)) M emit path = Some p"
proof (cases "effective_config M path")
  case (Some c)
  note b = buildWriter_returns [OF conjunct1 [OF assms [OF Some]] conjunct2 [OF assms [OF Some]],
      where L = "the_libraries M" and n = 0]
  have "run_startup (Suc (Suc fuel)) M emit path = run_startup 2 M emit path" for fuel
    using b(1) by (simp add: run_startup_def Some)
  moreover have "\<exists>p. run_startup 2 M emit path = Some p"
    using b(2) Some by (auto simp: run_startup_def split: sum.splits prod.splits)
  ultimately show ?thesis by metis
qed (simp add: run_startup_def)

section \<open>The diagnostic run tells the truth\<close>

lemma emit_loop_evtx:
  "emit_loop L es (Evtx w) m = (r, w', m') \<Longrightarrow>
    \<exists>w1. w' = Evtx w1 \<and> e_closed w1 = e_closed w \<and>
      (if r = None then records_taken L es (e_w w) = Some (e_w w1) else records_taken L es (e_w w) = None)"
proof (induction es arbitrary: w m)
  case (Cons e es)
  obtain fs tr where f: "windowsEventToFields (map_pick L e) e = (fs, tr)" by fastforce
  obtain r1 g where r: "WriteRecord (go_evtx L) (w_EventID e) fs (e_w w) = (r1, g)" by fastforce
  show ?case
  proof (cases r1)
    case None
    then have n: "records_taken L (e # es) (e_w w) = records_taken L es g" using f r by simp
    have "\<exists>k. emit_loop L es (Evtx (w\<lparr>e_w := g\<rparr>)) k = (r, w', m')"
      using Cons.prems f r None by (auto simp: evtx_WriteEvent_def)
    then obtain k where k: "emit_loop L es (Evtx (w\<lparr>e_w := g\<rparr>)) k = (r, w', m')" ..
    show ?thesis unfolding n using Cons.IH [OF k] by (simp split del: if_split cong: if_cong)
  next
    case (Some err)
    then show ?thesis using Cons.prems f r by (auto simp: evtx_WriteEvent_def)
  qed
qed auto

text \<open>C29: The exit code of the diagnostic run tells what is on disk.  It is 0 just when the event
  log took all three test events in order and closing it succeeded, otherwise 1; the log is
  closed in both cases, after the last write.\<close>

theorem emit_exit_code_truthful:
  assumes "emit_run L host now (Evtx w) m = (code, w')" "\<not> e_closed w"
  shows "\<exists>w1. w' = Evtx w1 \<and> e_closed w1 \<and>
    (case records_taken L (map (test_event host now) [4660, 4663, 4670]) (e_w w) of
       None \<Rightarrow> code = 1
     | Some g \<Rightarrow> evtx_Close (go_evtx L) g = (e_closeErr w1, e_w w1) \<and>
         code = (if e_closeErr w1 = None then 0 else 1))"
proof -
  obtain r w1 m1 where e: "emitTestEvents L host now (Evtx w) m = (r, w1, m1)" by (metis prod.collapse)
  obtain c w2 where c: "close_writer L w1 = (c, w2)" by fastforce
  have code: "code = emitExitCode r c" "w' = w2"
    using assms(1) e c by (auto simp: emit_run_def)
  note e' = emit_loop_evtx [OF e [unfolded emitTestEvents_def]]
  obtain w3 where w3: "w1 = Evtx w3" "\<not> e_closed w3"
    "if r = None then records_taken L (map (test_event host now) [4660, 4663, 4670]) (e_w w) = Some (e_w w3)
     else records_taken L (map (test_event host now) [4660, 4663, 4670]) (e_w w) = None"
    using e' assms(2) by metis
  obtain d g where g: "evtx_Close (go_evtx L) (e_w w3) = (d, g)" by fastforce
  have "c = d" "w2 = Evtx (w3\<lparr>e_w := g, e_closed := True, e_closeErr := d\<rparr>)"
    using c w3 g by (auto simp: close_evtx_def)
  then show ?thesis using code w3(3) g by (cases r) (auto simp: emitExitCode_def)
qed
section \<open>At work\<close>

text \<open>A machine with the host name nas on which everything opens.\<close>

definition willing_socket :: socket where
  "willing_socket =
     \<lparr>write_script = [], dial_script = [], wire = [], sock_open = False, close_error = None\<rparr>"

definition idle_client :: SyncClient where
  "idle_client =
     \<lparr>send_script = [], redial_script = [], acked = [], client_open = False, client_close_error = None\<rparr>"

definition sample_machine :: "file_result \<Rightarrow> (int \<times> field_map) list machine" where
  "sample_machine file =
     \<lparr>decode_file = (\<lambda>path c. file), env_var = (\<lambda>v. []), host_name = ''nas'',
      the_libraries = list_libraries,
      the_network = \<lparr>sockets = (\<lambda>n. willing_socket), clients = (\<lambda>n. idle_client), dial_ends = (\<lambda>n. True)\<rparr>,
      certificates = \<lparr>keypair_loads = (\<lambda>c k. True), ec_generates = True, ec_marshals = True,
        certificate_creates = (\<lambda>c. True), pair_assembles = True, challenge_listens = (\<lambda>a. True)\<rparr>,
      can_listen = (\<lambda>a. True), started_at = mk_time 0 0\<rparr>"

definition legacy_file :: AppConfig where
  "legacy_file = defaultConfig\<lparr>a_Listen := (a_Listen defaultConfig)
     \<lparr>TLS := True, CertFile := ''cert.pem'', KeyFile := ''key.pem''\<rparr>,
     a_Output := (a_Output defaultConfig)\<lparr>o_Type := ''multi'', Targets := [''gelf'', ''beats'']\<rparr>\<rparr>"

lemma sample_parts:
  "can_listen (sample_machine f) a" "keypair_loads (certificates (sample_machine f)) c k"
  "host_name (sample_machine f) = ''nas''"
  "decode_file (sample_machine f) path c' = f"
  by (simp_all add: sample_machine_def)

lemma sample_effective:
  "effective_config (sample_machine NoFile) path =
    Some (defaultConfig\<lparr>a_Listen := (a_Listen defaultConfig)\<lparr>TLSMode := ''off''\<rparr>\<rparr>)"
  "effective_config (sample_machine (Decoded legacy_file)) path =
    Some (legacy_file\<lparr>a_Listen := (a_Listen legacy_file)\<lparr>TLSMode := ''manual''\<rparr>\<rparr>)"
  by (simp_all add: effective_config_def sample_machine_def legacy_file_def defaultConfig_def Let_def
      migrateListenConfig_def validateOutputConfig_def override_logging_def)

lemmas sample_defs = sample_machine_def legacy_file_def defaultConfig_def willing_socket_def idle_client_def

lemma sample_writers:
  "\<exists>w a n. buildWriter 2 (the_libraries (sample_machine f)) (the_network (sample_machine f))
     (a_Output defaultConfig) 0 = Some (Inr (w, a), n)"
  "\<exists>w a n. buildWriter 2 (the_libraries (sample_machine f)) (the_network (sample_machine f))
     (a_Output legacy_file) 0 = Some (Inr (w, a), n)"
  by (simp_all add: numeral_2_eq_2 sample_defs open_gelf_def NewGELFWriter_def gelf_connect_def
      sock_dial_def next_outcome_def unbounded_dial_def open_beats_def NewBeatsWriter_def beats_dial_def Let_def)

lemma sample_runs:
  "\<exists>s. run_startup 2 (sample_machine NoFile) False path = Some (Ready s)"
  "\<exists>s. run_startup 2 (sample_machine (Decoded legacy_file)) False path = Some (Ready s)"
  using sample_writers [of NoFile] sample_writers [of "Decoded legacy_file"]
  by (auto simp: run_startup_def sample_effective serve_with_def tls_of_mode_def buildManualTLS_def
      sample_parts Let_def)



text \<open>The old switch alone is migrated to the mode off, and the process serves plain HTTP.\<close>

definition switch_file :: AppConfig where
  "switch_file = defaultConfig\<lparr>a_Listen := (a_Listen defaultConfig)\<lparr>TLS := True\<rparr>\<rparr>"

lemma switch_alone_serves_plain:
  "asks_for_tls (a_Listen switch_file)"
  "\<exists>s. run_startup 2 (sample_machine (Decoded switch_file)) False path = Some (Ready s) \<and> sv_tls s = NoTLS"
proof -
  show "asks_for_tls (a_Listen switch_file)" by (simp add: asks_for_tls_def switch_file_def defaultConfig_def)
  have "effective_config (sample_machine (Decoded switch_file)) path =
      Some (switch_file\<lparr>a_Listen := (a_Listen switch_file)\<lparr>TLSMode := ''off''\<rparr>\<rparr>)"
    by (simp add: effective_config_def sample_machine_def switch_file_def defaultConfig_def Let_def
        migrateListenConfig_def validateOutputConfig_def override_logging_def)
  moreover have "a_Output switch_file = a_Output defaultConfig" by (simp add: switch_file_def)
  ultimately show "\<exists>s. run_startup 2 (sample_machine (Decoded switch_file)) False path = Some (Ready s) \<and> sv_tls s = NoTLS"
    using sample_writers(1) [of "Decoded switch_file"]
    by (auto simp: run_startup_def serve_with_def tls_of_mode_def sample_parts Let_def)
qed

theorem startup_returns_witness:
  "\<exists>p. run_startup 2 (sample_machine (Decoded legacy_file)) True [] = Some p"
proof -
  have "\<exists>p. \<forall>fuel. run_startup (Suc (Suc fuel)) (sample_machine (Decoded legacy_file)) True [] = Some p"
  proof (rule startup_returns)
    fix c assume "effective_config (sample_machine (Decoded legacy_file)) [] = Some c"
    then have "a_Output c = a_Output legacy_file" unfolding sample_effective by auto
    then show "no_nested_multi (a_Output c) \<and> dials_end (the_network (sample_machine (Decoded legacy_file))) (a_Output c)"
      by (simp add: no_nested_multi_def legacy_file_def dials_end_def sample_machine_def)
  qed
  then show ?thesis by (metis numeral_2_eq_2)
qed

theorem emit_exit_code_truthful_witness:
  "\<exists>code w1. emit_run list_libraries ''nas'' (mk_time 0 0)
      (Evtx \<lparr>e_w = [], e_closed = False, e_closeErr = None\<rparr>) new_store = (code, Evtx w1) \<and> code = 0 \<and> length (e_w w1) = 3"
proof -
  let ?w = "\<lparr>e_w = [], e_closed = False, e_closeErr = None\<rparr> :: (int \<times> field_map) list BinaryEvtxWriter"
  obtain code w' where r: "emit_run list_libraries ''nas'' (mk_time 0 0) (Evtx ?w) new_store = (code, w')"
    by fastforce
  have t: "\<exists>g. records_taken list_libraries (map (test_event ''nas'' (mk_time 0 0)) [4660, 4663, 4670]) [] = Some g \<and>
    length g = 3"
    by (simp add: list_libraries_def list_log_def test_event_def)
  have c: "evtx_Close (go_evtx list_libraries) g = (None, g)" for g
    by (simp add: list_libraries_def list_log_def)
  show ?thesis using r t emit_exit_code_truthful [OF r] unfolding c by auto
qed

end
