(* ===== verification/Pipeline.thy ===== *)
theory Pipeline
  imports Concurrent_Serving Startup
begin

text \<open>
  The running program: connections, queue, workers and the configured outputs on one state,
  as \<^verbatim>\<open>run\<close> in \<^verbatim>\<open>cmd/cee-exporter/main.go\<close> puts them together.  Where the queue alone let the
  outcome of a batch be anything, here it is what the backends return.  A worker inside
  \<^verbatim>\<open>WriteBatch\<close> goes through the targets of the fan-out one after the other; a network
  writer holds its lock for a whole batch, the event log writer writes event by event, so
  that batches of different workers can mix in it.
\<close>

section \<open>The state\<close>

text \<open>The next target of a worker, the next event for an event log target, and whether no error
  has occurred yet.\<close>

type_synonym progress = "nat \<times> nat \<times> bool"

record 'g Exporter =
  sys :: System
  backends :: "'g Writer list"
  progress :: "nat \<Rightarrow> progress"
  taken :: "WindowsEvent list list"
  undrained :: int

text \<open>\<open>taken\<close> and \<open>undrained\<close> are histories: for every target the events it took without an
  error, and how much of the dropped counter is what an expired drain reported.\<close>

abbreviation queue_of :: "'g Exporter \<Rightarrow> Queue" where
  "queue_of x \<equiv> queue (srv (sys x))"

definition with_queue :: "Queue \<Rightarrow> System \<Rightarrow> System" where
  "with_queue q y = y\<lparr>srv := (srv y)\<lparr>queue := q\<rparr>\<rparr>"

definition fresh :: progress where
  "fresh = (0, 0, True)"

fun backends_of :: "'g Writer \<Rightarrow> 'g Writer list" where
  "backends_of (Multi ws) = ws"
| "backends_of w = [w]"

definition exporter_of :: "'g service \<Rightarrow> 'g Exporter" where
  "exporter_of s =
     \<lparr>sys = initial (sv_handler s), backends = backends_of (sv_writer s), progress = (\<lambda>i. fresh),
      taken = map (\<lambda>w. []) (backends_of (sv_writer s)), undrained = 0\<rparr>"

section \<open>Steps\<close>

fun event_log :: "'g Writer \<Rightarrow> bool" where
  "event_log (Evtx w) = True"
| "event_log w = False"

text \<open>What a call of a target leaves behind: the writer, the metrics, the worker's progress and
  the history.\<close>

definition after_call ::
  "nat \<Rightarrow> nat \<Rightarrow> progress \<Rightarrow> WindowsEvent list \<Rightarrow> write_error option \<times> 'g Writer \<times> Store \<Rightarrow>
    'g Exporter \<Rightarrow> 'g Exporter" where
  "after_call i k p es = (\<lambda>(r, w, m) x.
     x\<lparr>sys := with_queue ((queue_of x)\<lparr>met := m\<rparr>) (sys x),
       backends := (backends x)[k := w],
       progress := (progress x)(i := (fst p, fst (snd p), snd (snd p) \<and> r = None)),
       taken := (taken x)[k := taken x ! k @ (if r = None then es else [])]\<rparr>)"

definition call_batch ::
  "'g libraries \<Rightarrow> nat \<Rightarrow> WindowsEvent list \<Rightarrow> nat \<Rightarrow> bool \<Rightarrow> 'g Exporter \<Rightarrow> 'g Exporter" where
  "call_batch L i b k ok x =
     after_call i k (k + 1, 0, ok) b (write_batch L b (backends x ! k) (met (queue_of x))) x"

definition call_event ::
  "'g libraries \<Rightarrow> nat \<Rightarrow> WindowsEvent \<Rightarrow> nat \<Rightarrow> nat \<Rightarrow> bool \<Rightarrow> 'g Exporter \<Rightarrow> 'g Exporter" where
  "call_event L i e k j ok x =
     after_call i k (k, j + 1, ok) [e] (write_event L e (backends x ! k) (met (queue_of x))) x"

definition finish_batch ::
  "nat \<Rightarrow> WindowsEvent list \<Rightarrow> bool \<Rightarrow> bool \<Rightarrow> gotime \<Rightarrow> 'g Exporter \<Rightarrow> 'g Exporter" where
  "finish_batch i b mr ok now x =
     x\<lparr>sys := with_queue (set_worker i (Wrote b mr) (finish_write b ok now (queue_of x))) (sys x),
       progress := (progress x)(i := fresh)\<rparr>"

text \<open>A step of \<^verbatim>\<open>Stop\<close>, which closes the writer when it counts a close.\<close>

definition stop_at :: "'g libraries \<Rightarrow> Queue \<Rightarrow> 'g Exporter \<Rightarrow> 'g Exporter" where
  "stop_at L q x =
     (let n = EventsDroppedTotal (met q) - EventsDroppedTotal (met (queue_of x)) in
      x\<lparr>sys := (with_queue q (sys x))\<lparr>lost := lost (sys x) + n\<rparr>, undrained := undrained x + n,
        backends := (if writer_closes q = writer_closes (queue_of x) then backends x
                     else map (\<lambda>w. snd (close_writer L w)) (backends x))\<rparr>)"

inductive work_step :: "'g libraries \<Rightarrow> Handler \<Rightarrow> 'g Exporter \<Rightarrow> 'g Exporter \<Rightarrow> bool" for L h where
  wk_system: "system_step h (sys x) y \<Longrightarrow> written (queue (srv y)) = written (queue_of x) \<Longrightarrow>
    work_step L h x (x\<lparr>sys := y\<rparr>)"
| wk_batch: "i < length (pool (queue_of x)) \<Longrightarrow> pool (queue_of x) ! i = Writing b mr \<Longrightarrow>
    progress x i = (k, j, ok) \<Longrightarrow> k < length (backends x) \<Longrightarrow> \<not> event_log (backends x ! k) \<Longrightarrow>
    work_step L h x (call_batch L i b k ok x)"
| wk_event: "i < length (pool (queue_of x)) \<Longrightarrow> pool (queue_of x) ! i = Writing b mr \<Longrightarrow>
    progress x i = (k, j, ok) \<Longrightarrow> k < length (backends x) \<Longrightarrow> event_log (backends x ! k) \<Longrightarrow>
    j < length b \<Longrightarrow> work_step L h x (call_event L i (b ! j) k j ok x)"
| wk_next: "i < length (pool (queue_of x)) \<Longrightarrow> pool (queue_of x) ! i = Writing b mr \<Longrightarrow>
    progress x i = (k, j, ok) \<Longrightarrow> k < length (backends x) \<Longrightarrow> event_log (backends x ! k) \<Longrightarrow>
    length b \<le> j \<Longrightarrow> work_step L h x (x\<lparr>progress := (progress x)(i := (k + 1, 0, ok))\<rparr>)"
| wk_finish: "i < length (pool (queue_of x)) \<Longrightarrow> pool (queue_of x) ! i = Writing b mr \<Longrightarrow>
    progress x i = (k, j, ok) \<Longrightarrow> length (backends x) \<le> k \<Longrightarrow>
    work_step L h x (finish_batch i b mr ok now x)"

text \<open>Beside the work there are the rotation of a target and the steps of \<^verbatim>\<open>Stop\<close>.\<close>

inductive exporter_step :: "'g libraries \<Rightarrow> Handler \<Rightarrow> 'g Exporter \<Rightarrow> 'g Exporter \<Rightarrow> bool" for L h where
  ex_work: "work_step L h x x' \<Longrightarrow> exporter_step L h x x'"
| ex_rotate: "k < length (backends x) \<Longrightarrow> rotate_writer L (backends x ! k) = Some (r, w) \<Longrightarrow>
    exporter_step L h x (x\<lparr>backends := (backends x)[k := w]\<rparr>)"
| ex_stop: "stop_step (queue_of x) q \<Longrightarrow> exporter_step L h x (stop_at L q x)"


lemma exporter_step_cases [consumes 1, case_names ex_system ex_batch ex_event ex_next ex_finish ex_rotate ex_stop]:
  assumes "exporter_step L h x x'"
    and "\<And>y. x' = x\<lparr>sys := y\<rparr> \<Longrightarrow> system_step h (sys x) y \<Longrightarrow> written (queue (srv y)) = written (queue_of x) \<Longrightarrow> P"
    and "\<And>i b mr k j ok. x' = call_batch L i b k ok x \<Longrightarrow> i < length (pool (queue_of x)) \<Longrightarrow>
      pool (queue_of x) ! i = Writing b mr \<Longrightarrow> progress x i = (k, j, ok) \<Longrightarrow> k < length (backends x) \<Longrightarrow>
      \<not> event_log (backends x ! k) \<Longrightarrow> P"
    and "\<And>i b mr k j ok. x' = call_event L i (b ! j) k j ok x \<Longrightarrow> i < length (pool (queue_of x)) \<Longrightarrow>
      pool (queue_of x) ! i = Writing b mr \<Longrightarrow> progress x i = (k, j, ok) \<Longrightarrow> k < length (backends x) \<Longrightarrow>
      event_log (backends x ! k) \<Longrightarrow> j < length b \<Longrightarrow> P"
    and "\<And>i b mr k j ok. x' = x\<lparr>progress := (progress x)(i := (k + 1, 0, ok))\<rparr> \<Longrightarrow> i < length (pool (queue_of x)) \<Longrightarrow>
      pool (queue_of x) ! i = Writing b mr \<Longrightarrow> progress x i = (k, j, ok) \<Longrightarrow> k < length (backends x) \<Longrightarrow>
      event_log (backends x ! k) \<Longrightarrow> length b \<le> j \<Longrightarrow> P"
    and "\<And>i b mr k j ok now. x' = finish_batch i b mr ok now x \<Longrightarrow> i < length (pool (queue_of x)) \<Longrightarrow>
      pool (queue_of x) ! i = Writing b mr \<Longrightarrow> progress x i = (k, j, ok) \<Longrightarrow> length (backends x) \<le> k \<Longrightarrow> P"
    and "\<And>k r w. x' = x\<lparr>backends := (backends x)[k := w]\<rparr> \<Longrightarrow> k < length (backends x) \<Longrightarrow>
      rotate_writer L (backends x ! k) = Some (r, w) \<Longrightarrow> P"
    and "\<And>q. x' = stop_at L q x \<Longrightarrow> stop_step (queue_of x) q \<Longrightarrow> P"
  shows P
  using assms(1)
proof (cases rule: exporter_step.cases)
  case ex_work
  then show ?thesis by (cases rule: work_step.cases) (fact assms(2-6))+
qed (fact assms(7,8))+

abbreviation running :: "'g libraries \<Rightarrow> 'g service \<Rightarrow> 'g Exporter \<Rightarrow> bool" where
  "running L s x \<equiv> (exporter_step L (sv_handler s))\<^sup>*\<^sup>* (exporter_of s) x"

section \<open>The counters stay right\<close>

lemma with_queue_simps [simp]:
  "queue (srv (with_queue q y)) = q" "conns (with_queue q y) = conns y" "lost (with_queue q y) = lost y"
  "slots (srv (with_queue q y)) = slots (srv y)" "received (srv (with_queue q y)) = EventsReceivedTotal (met q)"
  "dropped (srv (with_queue q y)) = EventsDroppedTotal (met q)"
  by (simp_all add: with_queue_def)

lemma system_ok_with_queue:
  assumes "system_ok h y" "queue_ok (q_config h) q" "accepted q = accepted (queue (srv y))"
    "EventsReceivedTotal (met q) = received (srv y)" "EventsDroppedTotal (met q) = dropped (srv y) + n"
  shows "system_ok h ((with_queue q y)\<lparr>lost := lost y + n\<rparr>)"
  using assms by (simp add: system_ok_def slots_ok_def totals_ok_def)

text \<open>A write of a target touches no counter but that of truncated events.\<close>

lemma write_event_metrics:
  "event_log w \<Longrightarrow> \<exists>k. snd (snd (write_event L e w m)) = m\<lparr>EventsTruncatedTotal := k\<rparr>"
  using evtx_event_metrics(3) [of L e _ m] by (cases w) (auto simp: case_prod_beta)

lemma queue_ok_truncated:
  "queue_ok cfg q \<Longrightarrow> queue_ok cfg (q\<lparr>met := (met q)\<lparr>EventsTruncatedTotal := n\<rparr>\<rparr>)"
  by (rule queue_ok_met) (simp_all add: queue_counters_def)

lemma after_call_ok:
  assumes "system_ok h (sys x)" "\<exists>n. m = (met (queue_of x))\<lparr>EventsTruncatedTotal := n\<rparr>"
  shows "system_ok h (sys (after_call i k p es (r, w, m) x))"
proof -
  let ?q = "(queue_of x)\<lparr>met := m\<rparr>"
  have "queue_ok (q_config h) ?q"
    using assms queue_ok_truncated by (auto simp: system_ok_def)
  then show ?thesis
    using system_ok_with_queue [OF assms(1), of ?q 0] assms(2) by (auto simp: after_call_def with_queue_def)
qed

lemma stop_step_keeps:
  assumes "stop_step q q'"
  shows "accepted q' = accepted q" "EventsReceivedTotal (met q') = EventsReceivedTotal (met q)"
    "pool q' = pool q" "written q' = written q"
  using assms by (cases rule: stop_step.cases; simp add: count_dropped_def)+

lemma exporter_step_ok:
  assumes "exporter_step L h x x'" "system_ok h (sys x)"
  shows "system_ok h (sys x')"
  using assms(1)
proof (cases rule: exporter_step_cases)
  case (ex_system y)
  then show ?thesis using system_step_ok assms(2) by auto
next
  case (ex_batch i b mr k j ok)
  then show ?thesis
    using after_call_ok [OF assms(2)] write_batch_metrics(1) [of L b "backends x ! k" "met (queue_of x)"]
    by (metis call_batch_def prod.collapse)
next
  case (ex_event i b mr k j ok)
  then show ?thesis
    using after_call_ok [OF assms(2)] write_event_metrics [of "backends x ! k" L "b ! j" "met (queue_of x)"]
    by (metis call_event_def prod.collapse)
next
  case (ex_finish i b mr k j ok now)
  let ?q = "set_worker i (Wrote b mr) (finish_write b ok now (queue_of x))"
  have w: "worker_step (q_config h) i (queue_of x) ?q" by (rule ws_finish) (use ex_finish in simp_all)
  have "queue_ok (q_config h) ?q"
    using queue_step_ok [OF qs_worker [OF w]] assms(2) by (simp add: system_ok_def)
  then show ?thesis
    using system_ok_with_queue [OF assms(2), of ?q 0] worker_step_keeps [OF w] ex_finish(1)
    by (simp add: finish_batch_def with_queue_def)
next
  case (ex_stop q)
  have "queue_ok (q_config h) q"
    using queue_step_ok [OF qs_stop [OF ex_stop(2)]] assms(2) by (simp add: system_ok_def)
  then show ?thesis
    using system_ok_with_queue [OF assms(2), of q] stop_step_keeps [OF ex_stop(2)] ex_stop(1)
    by (simp add: stop_at_def Let_def)
qed (use assms(2) in simp_all)

section \<open>What the targets have taken\<close>

text \<open>The events of its batch that a worker has already brought to target \<open>k\<close>, as long as no error
  came up.\<close>

fun credit :: "nat \<Rightarrow> worker \<Rightarrow> progress \<Rightarrow> WindowsEvent list" where
  "credit k (Writing b mr) (k', j, ok) =
     (if \<not> ok then [] else if k < k' then b else if k = k' then take j b else [])"
| "credit k w p = []"

definition credits :: "nat \<Rightarrow> 'g Exporter \<Rightarrow> WindowsEvent multiset" where
  "credits k x = (\<Sum>i<length (pool (queue_of x)). mset (credit k (pool (queue_of x) ! i) (progress x i)))"

text \<open>The events counted as written.\<close>

definition confirmed :: "Queue \<Rightarrow> WindowsEvent list" where
  "confirmed q = concat (map fst (filter snd (written q)))"

definition progress_ok :: "'g Exporter \<Rightarrow> bool" where
  "progress_ok x \<longleftrightarrow> length (taken x) = length (backends x) \<and> pool (queue_of x) \<noteq> [] \<and>
     (\<forall>i < length (pool (queue_of x)). writing (pool (queue_of x) ! i) = 0 \<longrightarrow> progress x i = fresh)"

definition taken_ok :: "'g Exporter \<Rightarrow> bool" where
  "taken_ok x \<longleftrightarrow>
     (\<forall>k < length (backends x). mset (confirmed (queue_of x)) + credits k x \<subseteq># mset (taken x ! k))"

lemma credit_fresh [simp]: "credit k w fresh = []"
  by (cases w) (simp_all add: fresh_def)

lemma sum_change:
  fixes f :: "nat \<Rightarrow> 'a multiset"
  assumes "i < n" "\<And>l. l \<noteq> i \<Longrightarrow> f' l = f l"
  shows "(\<Sum>l<n. f' l) + f i = (\<Sum>l<n. f l) + f' i"
proof -
  have "(\<Sum>l\<in>{..<n} - {i}. f' l) = (\<Sum>l\<in>{..<n} - {i}. f l)" by (rule sum.cong) (use assms in auto)
  then show ?thesis using assms(1) by (simp add: sum.remove [of "{..<n}" i] ac_simps)
qed

text \<open>A step of the system that finishes no batch leaves every batch inside the writer alone.\<close>

lemma worker_step_pool:
  assumes "worker_step cfg j q q'" "written q' = written q"
  shows "length (pool q') = length (pool q) \<and>
    (\<forall>i < length (pool q). pool q' ! i = pool q ! i \<or> writing (pool q ! i) = 0)"
  using assms
  by (cases rule: worker_step.cases) (auto simp: nth_list_update begin_write_def finish_write_def Let_def)

text \<open>The handler's parts before the enqueueing change nothing of the queue but its metrics.\<close>

lemma touches_frame: "touches d s s' \<Longrightarrow> \<exists>m. queue s' = (queue s)\<lparr>met := m\<rparr>"
  unfolding touches_def by blast

lemma received_frame: "\<exists>m. queue (count_received n s) = (queue s)\<lparr>met := m\<rparr>"
  by (auto simp: count_received_def update_met_def)

lemma frame_trans: "\<exists>m. q = q0\<lparr>met := m\<rparr> \<Longrightarrow> \<exists>m. q' = q\<lparr>met := m\<rparr> \<Longrightarrow> \<exists>m. q' = (q0 :: Queue)\<lparr>met := m\<rparr>"
  by auto

lemma start_conn_frame: "\<exists>m. queue (snd (start_conn h env r s)) = (queue s)\<lparr>met := m\<rparr>"
proof -
  obtain st s1 where st: "serve_start env r s = (st, s1)" by fastforce
  then obtain d where "touches d s s1" using touches_start by blast
  note f = touches_frame [OF this]
  show ?thesis
  proof (cases st)
    case (Live body c1)
    obtain resp events s2 where a: "answer_body h env r body c1 s1 = (resp, events, s2)"
      by (metis prod.collapse)
    then obtain e where "touches e s1 s2" using touches_answer by blast
    then show ?thesis
      using frame_trans [OF frame_trans [OF f touches_frame] received_frame] st Live a by (simp add: start_conn_def)
  qed (use f st in \<open>simp_all add: start_conn_def\<close>)
qed

lemma slot_conn_frame: "\<exists>m. queue (snd (slot_conn h env r probe c s)) = (queue s)\<lparr>met := m\<rparr>"
proof -
  obtain resp events s1 where a: "serve_with_slot h env r probe c s = (resp, events, s1)"
    by (metis prod.collapse)
  then obtain e where "touches e s s1" using touches_with_slot by blast
  then show ?thesis
    using frame_trans [OF touches_frame received_frame] a by (simp add: slot_conn_def)
qed

text \<open>A step of the system leaves the phase of \<^verbatim>\<open>Stop\<close> alone, and the pool unless a worker moved.\<close>

lemma system_step_queue:
  assumes "system_step h y y'"
  shows "(\<exists>m c a. queue (srv y') = (queue (srv y))\<lparr>met := m, ch := c, accepted := a\<rparr>) \<or>
    (\<exists>j. worker_step (q_config h) j (queue (srv y)) (queue (srv y')))"
proof -
  have e: "\<exists>m c a. q' = q\<lparr>met := m, ch := c, accepted := a\<rparr>" if "\<exists>m. q' = q\<lparr>met := m\<rparr>" for q q' :: Queue
    using that by (elim exE) (rule exI, rule exI [of _ "ch q"], rule exI [of _ "accepted q"], simp)
  have i: "\<exists>m c a. q = q\<lparr>met := m, ch := c, accepted := a\<rparr>" for q :: Queue
    by (rule exI [of _ "met q"], rule exI [of _ "ch q"], rule exI [of _ "accepted q"]) simp
  show ?thesis
    using assms
  proof (cases rule: system_step.cases)
    case (sy_start i env r)
    then show ?thesis using e [OF start_conn_frame] by simp
  next
    case (sy_slot i env r probe c waited s)
    then have "queue s = queue (srv y)" by (simp add: acquireSlot_now_Some)
    then show ?thesis using sy_slot e [OF slot_conn_frame, of h env r probe c s] by simp
  next
    case (sy_enqueue k env r holds resp ev es)
    let ?s = "update_met (RecordEvent (EventType ev) (Protocol ev) (CEPAEvent.Server ev)) (srv y)"
    have "\<exists>m c a. snd (Enqueue cfg w q) = q\<lparr>met := m, ch := c, accepted := a\<rparr>" for cfg w q
    proof (cases "fst (Enqueue cfg w q)")
      case True
      then show ?thesis
        by (intro exI [of _ "SetQueueDepth (length (ch q) + 1) (met q)"] exI [of _ "ch q @ [w]"]
            exI [of _ "accepted q @ [w]"]) (auto simp: Enqueue_def split: if_splits)
    next
      case False
      then show ?thesis using e [OF exI [of _ "met (count_dropped 1 q)"], of "count_dropped 1 q" q]
        by (auto simp: Enqueue_def count_dropped_def split: if_splits)
    qed
    then obtain m c a where "queue (enqueue_one h env r ev (srv y)) = (queue ?s)\<lparr>met := m, ch := c, accepted := a\<rparr>"
      unfolding enqueue_one_def Let_def by simp metis
    then have "queue (srv y') = (queue (srv y))\<lparr>met := m, ch := c, accepted := a\<rparr>"
      using sy_enqueue by (simp add: update_met_def)
    then show ?thesis by blast
  next
    case (sy_worker j q')
    then have "worker_step (q_config h) j (queue (srv y)) (queue (srv y'))" by simp
    then show ?thesis by blast
  next
    case (sy_throttle k env r probe c)
    then have "\<exists>m. queue (srv y') = (queue (srv y))\<lparr>met := m\<rparr>" by (auto simp: count_throttled_def update_met_def)
    then show ?thesis using e by blast
  next
    case (sy_finish k env r holds resp)
    then have "queue (srv y') = queue (srv y)" by (simp add: releaseSlot_def)
    then show ?thesis using i by metis
  next
    case sy_connect
    then have "queue (srv y') = queue (srv y)" by simp
    then show ?thesis using i by metis
  qed
qed

lemma worker_step_phase:
  assumes "worker_step cfg j q q'"
  shows "phase q' = phase q \<and> Queue.closed q' = Queue.closed q \<and> writer_closes q' = writer_closes q"
  using assms by (cases rule: worker_step.cases) (simp_all add: begin_write_def finish_write_def Let_def)

lemma system_step_pool:
  assumes "system_step h y y'" "written (queue (srv y')) = written (queue (srv y))"
  shows "length (pool (queue (srv y'))) = length (pool (queue (srv y))) \<and>
    (\<forall>i < length (pool (queue (srv y))).
      pool (queue (srv y')) ! i = pool (queue (srv y)) ! i \<or> writing (pool (queue (srv y)) ! i) = 0)"
  using system_step_queue [OF assms(1)]
proof
  assume "\<exists>j. worker_step (q_config h) j (queue (srv y)) (queue (srv y'))"
  then show ?thesis using worker_step_pool assms(2) by metis
qed auto

lemma taken_step_system:
  assumes "system_step h (sys x) y" "written (queue (srv y)) = written (queue_of x)"
    and "progress_ok x" "taken_ok x"
  shows "progress_ok (x\<lparr>sys := y\<rparr>) \<and> taken_ok (x\<lparr>sys := y\<rparr>)"
proof -
  note p = system_step_pool [OF assms(1,2)]
  have f: "progress x i = fresh" if "i < length (pool (queue_of x))" "writing (pool (queue_of x) ! i) = 0" for i
    using assms(3) that by (simp add: progress_ok_def)
  have "credits k (x\<lparr>sys := y\<rparr>) = credits k x" for k
    unfolding credits_def using p f by (auto intro!: sum.cong)
  then show ?thesis using assms p f
    by (auto simp: progress_ok_def taken_ok_def confirmed_def)
qed

text \<open>A call moves one worker on by the events one target took.\<close>

lemma taken_step_call:
  assumes "progress_ok x" "taken_ok x" "i < length (pool (queue_of x))" "pool (queue_of x) ! i = Writing b mr"
    and "k < length (backends x)"
    and "\<And>k'. k' < length (backends x) \<Longrightarrow>
      mset (credit k' (Writing b mr) p) \<subseteq>#
        mset (credit k' (Writing b mr) (progress x i)) + (if k' = k then mset gain else {#})"
    and "x' = x\<lparr>sys := with_queue ((queue_of x)\<lparr>met := m\<rparr>) (sys x), backends := (backends x)[k := w],
       progress := (progress x)(i := p), taken := (taken x)[k := taken x ! k @ gain]\<rparr>"
  shows "progress_ok x' \<and> taken_ok x'"
proof -
  have "mset (confirmed (queue_of x')) + credits k' x' \<subseteq># mset (taken x' ! k')" if k': "k' < length (backends x)" for k'
  proof -
    let ?g = "if k' = k then mset gain else {#}"
    have c: "credits k' x' + mset (credit k' (Writing b mr) (progress x i)) =
        credits k' x + mset (credit k' (Writing b mr) p)"
      using sum_change [OF assms(3), of "\<lambda>l. mset (credit k' (pool (queue_of x) ! l) (progress x' l))"
          "\<lambda>l. mset (credit k' (pool (queue_of x) ! l) (progress x l))"] assms(4,7)
      by (simp add: credits_def)
    have cr: "credits k' x' \<subseteq># credits k' x + ?g"
    proof -
      let ?c = "mset (credit k' (Writing b mr) (progress x i))"
      have "credits k' x' + ?c \<subseteq># credits k' x + (?c + ?g)"
        unfolding c using assms(6) [OF k'] by (rule subset_mset.add_left_mono)
      also have "\<dots> = (credits k' x + ?g) + ?c" by (simp only: ac_simps)
      finally show ?thesis by simp
    qed
    have "mset (confirmed (queue_of x')) + credits k' x' \<subseteq># mset (confirmed (queue_of x)) + (credits k' x + ?g)"
      using cr assms(7) by (simp add: confirmed_def)
    also have "\<dots> = (mset (confirmed (queue_of x)) + credits k' x) + ?g" by (simp only: ac_simps)
    also have "\<dots> \<subseteq># mset (taken x ! k') + ?g"
      using assms(2) k' unfolding taken_ok_def by (intro subset_mset.add_right_mono) blast
    also have "\<dots> = mset (taken x' ! k')"
      using assms(1,5,7) k' by (simp add: progress_ok_def nth_list_update)
    finally show ?thesis .
  qed
  moreover have "progress_ok x'" using assms(1,3,4,7) by (auto simp: progress_ok_def)
  moreover have "length (backends x') = length (backends x)" using assms(7) by simp
  ultimately show ?thesis by (simp add: taken_ok_def)
qed
lemma credit_call:
  "mset (credit k' (Writing b mr) (k + 1, 0, ok \<and> r = None)) \<subseteq>#
    mset (credit k' (Writing b mr) (k, j, ok)) + (if k' = k then mset (if r = None then b else []) else {#})"
  "j < length b \<Longrightarrow> mset (credit k' (Writing b mr) (k, j + 1, ok \<and> r = None)) \<subseteq>#
    mset (credit k' (Writing b mr) (k, j, ok)) + (if k' = k then mset (if r = None then [b ! j] else []) else {#})"
  by (auto simp: take_Suc_conv_app_nth)

lemma taken_step_finish:
  assumes "progress_ok x" "taken_ok x" "i < length (pool (queue_of x))" "pool (queue_of x) ! i = Writing b mr"
    and "progress x i = (k, j, ok)" "length (backends x) \<le> k"
  shows "progress_ok (finish_batch i b mr ok now x) \<and> taken_ok (finish_batch i b mr ok now x)"
proof -
  let ?x = "finish_batch i b mr ok now x"
  let ?b = "if ok then b else []"
  have q: "pool (queue_of ?x) = (pool (queue_of x))[i := Wrote b mr]"
    "written (queue_of ?x) = written (queue_of x) @ [(b, ok)]"
    "progress ?x = (progress x)(i := fresh)" "taken ?x = taken x" "backends ?x = backends x"
    by (simp_all add: finish_batch_def finish_write_def Let_def)
  have "mset (confirmed (queue_of ?x)) + credits k' ?x = mset (confirmed (queue_of x)) + credits k' x"
    if k': "k' < length (backends x)" for k'
  proof -
    have c: "credits k' ?x + mset ?b = credits k' x"
      using sum_change [OF assms(3), of "\<lambda>l. mset (credit k' (pool (queue_of ?x) ! l) (progress ?x l))"
          "\<lambda>l. mset (credit k' (pool (queue_of x) ! l) (progress x l))"] assms(3-6) k'
      by (simp add: credits_def q split: if_splits)
    have e: "confirmed (queue_of ?x) = confirmed (queue_of x) @ ?b" by (simp add: confirmed_def q)
    show ?thesis unfolding e c [symmetric] mset_append by (simp only: ac_simps)
  qed
  moreover have "progress_ok ?x" using assms(1) by (auto simp: progress_ok_def q nth_list_update)
  ultimately show ?thesis using assms(2) by (simp add: taken_ok_def q)
qed

lemma taken_step:
  assumes "exporter_step L h x x'" "progress_ok x" "taken_ok x"
  shows "progress_ok x' \<and> taken_ok x'"
  using assms(1)
proof (cases rule: exporter_step_cases)
  case (ex_system y)
  then show ?thesis using taken_step_system assms(2,3) by blast
next
  case (ex_batch i b mr k j ok)
  obtain r w m where r: "write_batch L b (backends x ! k) (met (queue_of x)) = (r, w, m)" by (metis prod.collapse)
  show ?thesis
  proof (rule taken_step_call [OF assms(2,3) ex_batch(2,3,5)])
    show "mset (credit k' (Writing b mr) (k + 1, 0, ok \<and> r = None)) \<subseteq>#
        mset (credit k' (Writing b mr) (progress x i)) + (if k' = k then mset (if r = None then b else []) else {#})" for k'
      unfolding ex_batch(4) by (rule credit_call(1))
  qed (simp add: ex_batch(1) call_batch_def after_call_def r)
next
  case (ex_event i b mr k j ok)
  obtain r w m where r: "write_event L (b ! j) (backends x ! k) (met (queue_of x)) = (r, w, m)" by (metis prod.collapse)
  show ?thesis
  proof (rule taken_step_call [OF assms(2,3) ex_event(2,3,5)])
    show "mset (credit k' (Writing b mr) (k, j + 1, ok \<and> r = None)) \<subseteq>#
        mset (credit k' (Writing b mr) (progress x i)) + (if k' = k then mset (if r = None then [b ! j] else []) else {#})" for k'
      unfolding ex_event(4) by (rule credit_call(2) [OF ex_event(7)])
  qed (simp add: ex_event(1) call_event_def after_call_def r)
next
  case (ex_next i b mr k j ok)
  show ?thesis
  proof (rule taken_step_call [OF assms(2,3) ex_next(2,3,5)])
    show "mset (credit k' (Writing b mr) (k + 1, 0, ok)) \<subseteq>#
        mset (credit k' (Writing b mr) (progress x i)) + (if k' = k then mset [] else {#})" for k'
      unfolding ex_next(4) using ex_next(7) by auto
    show "x' = x\<lparr>sys := with_queue ((queue_of x)\<lparr>met := met (queue_of x)\<rparr>) (sys x),
        backends := (backends x)[k := backends x ! k], progress := (progress x)(i := (k + 1, 0, ok)),
        taken := (taken x)[k := taken x ! k @ []]\<rparr>"
      using ex_next(1) by (simp add: with_queue_def)
  qed
next
  case (ex_finish i b mr k j ok now)
  then show ?thesis using taken_step_finish [OF assms(2,3)] by blast
next
  case (ex_rotate k r w)
  then show ?thesis using assms(2,3) by (simp add: progress_ok_def taken_ok_def credits_def)
next
  case (ex_stop q)
  then show ?thesis using assms(2,3) stop_step_keeps [OF ex_stop(2)]
    by (simp add: stop_at_def Let_def progress_ok_def taken_ok_def credits_def confirmed_def)
qed

interpretation exporter_runs: invariant "exporter_step L (sv_handler s)"
  "\<lambda>x. system_ok (sv_handler s) (sys x) \<and> progress_ok x \<and> taken_ok x" "exporter_of s" for L s
proof unfold_locales
  have "progress_ok (exporter_of s) \<and> taken_ok (exporter_of s)"
    using started_pool(1) [of "q_config (sv_handler s)"]
    by (simp add: exporter_of_def progress_ok_def taken_ok_def credits_def confirmed_def initial_def new_server_def)
      (simp add: started_def New_def Start_def)
  then show "system_ok (sv_handler s) (sys (exporter_of s)) \<and> progress_ok (exporter_of s) \<and> taken_ok (exporter_of s)"
    by (simp add: exporter_of_def initial_ok)
qed (use exporter_step_ok taken_step in blast)

lemmas running_ok = exporter_runs.reached

lemma written_length: "queue_ok cfg q \<Longrightarrow> EventsWrittenTotal (met q) = int (length (confirmed q))"
  by (simp add: queue_ok_def outcome_ok_def confirmed_def length_concat comp_def)

section \<open>Properties\<close>

text \<open>The exporter a successful start leaves behind begins with the queue the start built.\<close>

lemma started_exporter:
  "run_startup fuel M emit path = Some (Ready s) \<Longrightarrow>
    queue_of (exporter_of s) = sv_queue s \<and> length (taken (exporter_of s)) = length (backends (exporter_of s))"
  by (erule run_ready, frule serve_ready(4), drule serve_ready(2))
    (simp add: exporter_of_def initial_def new_server_def NewHandler_def)

text \<open>After the writer has been closed no target takes anything.\<close>

lemma nothing_after_close:
  assumes "running L s x" "writer_closes (queue_of x) = 1" "exporter_step L (sv_handler s) x x'"
  shows "taken x' = taken x"
proof -
  have "workers_done (queue_of x)"
    using running_ok [OF assms(1)] assms(2) by (simp add: system_ok_def queue_ok_def close_ok_def)
  then have "pool (queue_of x) ! i \<noteq> Writing b mr" if "i < length (pool (queue_of x))" for i b mr
    using that by (simp add: workers_done_def list_all_length)
  with assms(3) show ?thesis
    by (cases rule: exporter_step_cases) (auto simp: finish_batch_def stop_at_def Let_def)
qed

text \<open>C2: What the history of a target says it took, it was given.  In every reachable state of
  the running program, under every interleaving of connections, workers, rotations and the
  shutdown, a step that adds events to what a target has taken is a call in which these
  events, all of them in order, left the program through that target at least once: in writes
  that went out whole on the connection then open, as acknowledged events, or as records the
  event log library accepted.  Before a success a network target may have been sent a
  beginning of the same write on the connection before, or a beginning of the same window.\<close>

theorem taken_is_delivered:
  assumes "running L s x" "exporter_step L (sv_handler s) x x'" "k < length (backends x)" "taken x' ! k \<noteq> taken x ! k"
  shows "\<exists>new. taken x' ! k = taken x ! k @ new \<and> delivered L new (backends x ! k) (backends x' ! k)"
proof -
  have l: "length (taken x) = length (backends x)" using running_ok [OF assms(1)] by (simp add: progress_ok_def)
  show ?thesis
    using assms(2)
  proof (cases rule: exporter_step_cases)
    case (ex_batch i b mr k' j ok)
    obtain r w m where r: "write_batch L b (backends x ! k') (met (queue_of x)) = (r, w, m)" by (metis prod.collapse)
    have "taken x' = (taken x)[k' := taken x ! k' @ (if r = None then b else [])]"
      using ex_batch(1) r by (simp add: call_batch_def after_call_def)
    note t = this
    have "k' = k" using t assms(4) by (metis nth_list_update_neq)
    moreover have "(if r = None then b else []) \<noteq> []" using t assms(4) by (auto split: if_splits)
    ultimately have "k' = k" "r = None" "b \<noteq> []" by (auto split: if_splits)
    then show ?thesis using nil_delivered(1) [of L b "backends x ! k" _ w m] r l assms(3) ex_batch(1)
      by (auto simp: call_batch_def after_call_def)
  next
    case (ex_event i b mr k' j ok)
    obtain r w m where r: "write_event L (b ! j) (backends x ! k') (met (queue_of x)) = (r, w, m)" by (metis prod.collapse)
    have "taken x' = (taken x)[k' := taken x ! k' @ (if r = None then [b ! j] else [])]"
      using ex_event(1) r by (simp add: call_event_def after_call_def)
    note t = this
    have "k' = k" using t assms(4) by (metis nth_list_update_neq)
    moreover have "r = None" using t assms(4) by (auto split: if_splits)
    ultimately have k: "k' = k" "r = None" by simp_all
    obtain v where v: "backends x ! k = Evtx v" using ex_event(6) k(1) by (cases "backends x ! k") auto
    have "delivered L [b ! j] (backends x ! k) w"
      using r k v by (auto simp: evtx_WriteEvent_def split: prod.splits)
    then show ?thesis using r k l assms(3) ex_event(1) by (auto simp: call_event_def after_call_def)
  qed (use assms(4) in \<open>auto simp: finish_batch_def stop_at_def Let_def\<close>)
qed

text \<open>Once the workers have gone and no handler has anything left to enqueue, the books balance.\<close>

lemma drained_balance:
  assumes "running L s x" "workers_done (queue_of x)" "sum_list (map pending (conns (sys x))) = 0"
  shows "received (srv (sys x)) + lost (sys x) =
    EventsWrittenTotal (met (queue_of x)) + WriterErrorsTotal (met (queue_of x)) + dropped (srv (sys x))"
proof -
  have ok: "queue_ok (q_config (sv_handler s)) (queue_of x)" "totals_ok (sys x)" "pool (queue_of x) \<noteq> []"
    using running_ok [OF assms(1)] by (simp_all add: system_ok_def progress_ok_def)
  have "EventsWrittenTotal (met (queue_of x)) + WriterErrorsTotal (met (queue_of x)) =
      int (length (accepted (queue_of x)))"
    using drained_ok [OF ok(1) assms(2) ok(3)] by blast
  then show ?thesis using ok(2) assms(3) by (simp add: totals_ok_def)
qed

text \<open>At any time every target has taken what counts as written.\<close>

lemma confirmed_taken:
  assumes "running L s x"
  shows "list_all (\<lambda>es. mset (confirmed (queue_of x)) \<subseteq># mset es) (taken x)"
  using running_ok [OF assms] unfolding taken_ok_def progress_ok_def list_all_length
  by (metis mset_subset_eq_add_left subset_mset.order_trans)

text \<open>C1: Nothing is lost in silence between the wire and the targets.  Once the handlers have
  nothing left to enqueue and the workers have gone, the events received and the payloads
  and undrained events counted as lost are exactly the events written, the events of failed
  batches and the events dropped; and the events counted as written, with their
  multiplicities, have been taken by every target, whatever the writers did, however the
  workers interleaved and whether or not the drain expired.\<close>

theorem shutdown_accounts:
  assumes "running L s x" "workers_done (queue_of x)" "sum_list (map pending (conns (sys x))) = 0"
  shows "received (srv (sys x)) + lost (sys x) =
      EventsWrittenTotal (met (queue_of x)) + WriterErrorsTotal (met (queue_of x)) + dropped (srv (sys x)) \<and>
    length (taken x) = length (backends x) \<and>
    list_all (\<lambda>es. mset (confirmed (queue_of x)) \<subseteq># mset es) (taken x) \<and>
    EventsWrittenTotal (met (queue_of x)) = int (length (confirmed (queue_of x)))"
proof -
  have ok: "queue_ok (q_config (sv_handler s)) (queue_of x)" "length (taken x) = length (backends x)"
    using running_ok [OF assms(1)] by (simp_all add: system_ok_def progress_ok_def)
  show ?thesis using drained_balance [OF assms] confirmed_taken [OF assms(1)] written_length [OF ok(1)] ok(2) by simp
qed

section \<open>One event from the wire to a target\<close>

definition sample_service :: "(int \<times> field_map) list service" where
  "sample_service =
     \<lparr>sv_writer = GELF (gelf_tcp []), sv_queue = started one_worker, sv_handler = plain_handler,
      sv_health = tls_health, sv_tls = NoTLS, sv_listen = [], sv_metrics = None, sv_log = JSONHandler LevelInfo\<rparr>"

definition sample_arrival :: CEPAEvent where
  "sample_arrival = convertCheckEvent sample_event (clock_receive plain_env)"

definition sample_written :: WindowsEvent where
  "sample_written = Map (os_Hostname plain_env) sample_arrival (event_host plain_handler delivery)"

lemma delivery_conn:
  "\<exists>body c ack. start_conn plain_handler plain_env delivery s = (Parked plain_env delivery body c False, stamped plain_env delivery s) \<and>
    (\<forall>s'. slot_conn plain_handler plain_env delivery body c s' =
      (Enqueueing plain_env delivery True ack [sample_arrival], count_received 1 s'))"
proof -
  let ?doc = "print_node (request_doc one_event_request)"
  have d: "body_data delivery = ?doc" "accepted_method delivery" "\<not> body_fails delivery"
    by (simp_all add: delivery_def put_def accepted_method_def)
  note c = check_event_classified [OF one_event_request_ok(1) disjI1 [OF refl]]
  have l: "\<not> liveness (names plain_env) (Classify ?doc)"
    by (simp add: c(1) liveness_def isLivenessDialect_def)
  have w: "write_ok plain_env" by (simp add: plain_env_def)
  have st: "serve_start plain_env delivery s = (Need_slot ?doc (Some (Classify ?doc)), stamped plain_env delivery s)"
    using serve_start_readable [OF d(2,3)] l one_event_request_ok(2) d(1) by simp
  have "slot_conn plain_handler plain_env delivery ?doc (Some (Classify ?doc)) s' =
      (Enqueueing plain_env delivery True (respond ?doc checkEventResponse ''text/xml'') [sample_arrival], count_received 1 s')" for s'
    using w c(2) one_event_request_ok(4)
    by (simp add: slot_conn_def serve_with_slot_def c(1) answer_body_def answer_check_event_def Let_def sample_arrival_def)
  then show ?thesis using st by (auto simp: start_conn_def)
qed

lemma wk_worker:
  assumes "worker_step (q_config h) j (queue_of x) q" "written q = written (queue_of x)"
  shows "work_step L h x (x\<lparr>sys := with_queue q (sys x)\<rparr>)"
  unfolding with_queue_def by (rule wk_system [OF sy_worker [OF assms(1)]]) (simp add: assms(2))

abbreviation working :: "'g libraries \<Rightarrow> Handler \<Rightarrow> 'g Exporter \<Rightarrow> 'g Exporter \<Rightarrow> bool" where
  "working L h \<equiv> (work_step L h)\<^sup>*\<^sup>*"

lemma working_exporter: "working L h x x' \<Longrightarrow> (exporter_step L h)\<^sup>*\<^sup>* x x'"
  by (rule mono_rtranclp [rule_format]) (rule ex_work)

lemma working_system:
  assumes "working L h x0 (x\<lparr>sys := y\<rparr>)" "system_step h y y'"
    and "written (queue (srv y')) = written (queue (srv y))"
  shows "working L h x0 (x\<lparr>sys := y'\<rparr>)"
  using assms wk_system [of h "x\<lparr>sys := y\<rparr>" y' L] by simp

lemma one_ingested:
  "\<exists>y m. working L plain_handler (exporter_of sample_service) ((exporter_of sample_service)\<lparr>sys := y\<rparr>) \<and>
    queue (srv y) = (started one_worker)\<lparr>ch := [sample_written], accepted := [sample_written], met := m\<rparr> \<and>
    list_all (\<lambda>c. \<exists>r. c = Answered r) (conns y) \<and> received (srv y) = 1"
proof -
  let ?h = plain_handler and ?x = "exporter_of sample_service"
  have h: "q_config ?h = one_worker" by (simp add: plain_handler_def NewHandler_def)
  define y0 where "y0 = initial ?h"
  have x0: "?x = ?x\<lparr>sys := y0\<rparr>" by (simp add: exporter_of_def sample_service_def y0_def)
  have q0: "queue (srv y0) = started one_worker" "conns y0 = []" "slots (srv y0) = 0"
    by (simp_all add: y0_def initial_def new_server_def h)
  have w0: "written (started one_worker) = []" "ch (started one_worker) = []" "\<not> Queue.closed (started one_worker)"
    "accepted (started one_worker) = []" "EventsReceivedTotal (met (started one_worker)) = 0"
    by (simp_all add: started_def Start_def New_def new_store_def)
  define y1 where "y1 = y0\<lparr>conns := [Arrived plain_env delivery]\<rparr>"
  obtain body c ack where conn: "start_conn ?h plain_env delivery (srv y1) =
      (Parked plain_env delivery body c False, stamped plain_env delivery (srv y1))"
    "\<And>s'. slot_conn ?h plain_env delivery body c s' =
      (Enqueueing plain_env delivery True ack [sample_arrival], count_received 1 s')"
    using delivery_conn [of "srv y1"] by metis
  define s1 where "s1 = stamped plain_env delivery (srv y1)"
  note t = touches_stamped [of "srv y1" plain_env delivery, folded s1_def]
  have s1: "queue s1 = (started one_worker)\<lparr>met := met (queue s1)\<rparr>" "slots s1 = 0" "received s1 = 0"
    using t q0 w0 touches_totals [OF t] by (simp_all add: touches_def y1_def)
  define y2 where "y2 = move_counting 0 (Parked plain_env delivery body c False, s1) y1"
  define s2 where "s2 = count_received 1 (s1\<lparr>slots := 1\<rparr>)"
  define y3 where "y3 = move_counting 0 (Enqueueing plain_env delivery True ack [sample_arrival], s2) y2"
  define s3 where "s3 = enqueue_one ?h plain_env delivery sample_arrival s2"
  define y4 where "y4 = move 0 (Enqueueing plain_env delivery True ack [], s3) y3"
  define y5 where "y5 = move 0 (Answered ack, releaseSlot s3) y4"
  obtain m1 where m1: "queue s1 = (started one_worker)\<lparr>met := m1\<rparr>" using s1(1) by blast
  have s2: "\<exists>m. queue s2 = (started one_worker)\<lparr>met := m\<rparr>" "received s2 = 1"
    using m1 s1(3) by (auto simp: s2_def count_received_def update_met_def)
  have s3: "\<exists>m. queue s3 = (started one_worker)\<lparr>ch := [sample_written], accepted := [sample_written], met := m\<rparr>"
    using s2(1) w0 h capacity_pos [of one_worker]
    by (auto simp: s3_def enqueue_one_def Let_def update_met_def Enqueue_def sample_written_def)
  have "received s3 = 1" using s2(2) enqueue_one_totals(1) by (simp add: s3_def)
  moreover have "working L ?h ?x (?x\<lparr>sys := y5\<rparr>)"
  proof -
    have a: "acquireSlot_now ?h s1 = Some (s1\<lparr>slots := 1\<rparr>)"
      using s1(2) by (simp add: acquireSlot_now_def plain_limits)
    have 1: "system_step ?h y0 y1" using sy_connect [of ?h y0] q0 by (simp add: y1_def)
    have 2: "system_step ?h y1 y2"
      using sy_start [of 0 y1 plain_env delivery ?h] conn(1) by (simp add: y1_def y2_def s1_def)
    have 3: "system_step ?h y2 y3"
      using sy_slot [of 0 y2 plain_env delivery body c False ?h "s1\<lparr>slots := 1\<rparr>"] conn(2) a
      by (simp add: y1_def y2_def y3_def s2_def)
    have 4: "system_step ?h y3 y4"
      using sy_enqueue [of 0 y3 plain_env delivery True ack sample_arrival "[]" ?h]
      by (simp add: y1_def y2_def y3_def y4_def s3_def)
    have 5: "system_step ?h y4 y5"
      using sy_finish [of 0 y4 plain_env delivery True ack ?h] by (simp add: y1_def y2_def y3_def y4_def y5_def)
    have w: "written (queue (srv y0)) = []" "written (queue (srv y1)) = []" "written (queue (srv y2)) = []"
      "written (queue (srv y3)) = []" "written (queue (srv y4)) = []" "written (queue (srv y5)) = []"
      using q0(1) w0(1) m1 s2(1) s3 by (auto simp: y1_def y2_def y3_def y4_def y5_def releaseSlot_def)
    have "working L ?h ?x (?x\<lparr>sys := y0\<rparr>)" using x0 by simp
    then have "working L ?h ?x (?x\<lparr>sys := y2\<rparr>)" using working_system 1 2 w by metis
    then have "working L ?h ?x (?x\<lparr>sys := y4\<rparr>)" using working_system 3 4 w by metis
    then show ?thesis using working_system 5 w by metis
  qed
  ultimately show ?thesis using s3
    by (intro exI [of _ y5]) (auto simp: y5_def y4_def y3_def y2_def y1_def releaseSlot_def)
qed

lemma sample_write:
  "\<exists>w. \<forall>m. write_batch L [e] (GELF (gelf_tcp [])) m = (None, w, m)"
  by (simp add: gelf_WriteBatch_def gelf_tcp_def framed_batch_def buildGELF_document payloads_of_def
      List.map_filter_simps build_errors_def retrySend_def sendWithRetry_def sock_write_def
      next_outcome_def next_write_def Let_def errors_Join_def)

text \<open>The whole way of one event, up to the worker waiting for the next.\<close>

lemma sample_work:
  "\<exists>x x' x''. working list_libraries plain_handler (exporter_of sample_service) x \<and>
    work_step list_libraries plain_handler x x' \<and> working list_libraries plain_handler x' x'' \<and>
    taken x = [[]] \<and> taken x' = [[sample_written]] \<and> length (backends x) = 1 \<and> length (backends x'') = 1 \<and>
    list_all (\<lambda>c. \<exists>r. c = Answered r) (conns (sys x'')) \<and> pool (queue_of x'') = [Idle] \<and>
    ch (queue_of x'') = [] \<and> phase (queue_of x'') = Running \<and> \<not> Queue.closed (queue_of x'') \<and>
    writer_closes (queue_of x'') = 0 \<and> written (queue_of x'') = [([sample_written], True)]"
proof -
  let ?L = list_libraries and ?h = plain_handler and ?w = sample_written
  have h: "q_config ?h = one_worker" by (simp add: plain_handler_def NewHandler_def)
  obtain y m where y: "working ?L ?h (exporter_of sample_service) ((exporter_of sample_service)\<lparr>sys := y\<rparr>)"
    "queue (srv y) = (started one_worker)\<lparr>ch := [?w], accepted := [?w], met := m\<rparr>"
    "list_all (\<lambda>c. \<exists>r. c = Answered r) (conns y)"
    using one_ingested [of ?L] by blast
  define x0 where "x0 = (exporter_of sample_service)\<lparr>sys := y\<rparr>"
  have x0: "queue_of x0 = queue (srv y)" "backends x0 = [GELF (gelf_tcp [])]" "taken x0 = [[]]" "progress x0 0 = fresh"
    by (simp_all add: x0_def exporter_of_def sample_service_def)
  have st: "pool (started one_worker) = [Idle]" "\<not> Queue.closed (started one_worker)" "written (started one_worker) = []"
    "phase (started one_worker) = Running" "writer_closes (started one_worker) = 0"
    by (simp_all add: started_def Start_def New_def withDefaults_def one_worker_def)
  define q1 where "q1 = (queue (srv y))\<lparr>ch := [], pool := [Collecting [?w]]\<rparr>"
  define q2 where "q2 = q1\<lparr>pool := [Holding [?w] True]\<rparr>"
  define q3 where "q3 = (begin_write [?w] q2)\<lparr>pool := [Writing [?w] True]\<rparr>"
  have 1: "worker_step one_worker 0 (queue (srv y)) q1"
    using ws_first [of 0 "queue (srv y)" ?w "[]" one_worker] by (simp add: y(2) st q1_def)
  have 2: "worker_step one_worker 0 q1 q2"
    using ws_full [of 0 q1 "[?w]" one_worker] by (simp add: q1_def q2_def maxBatch_def withDefaults_def one_worker_def)
  have 3: "worker_step one_worker 0 q2 q3"
    using ws_begin [of 0 q2 "[?w]" True one_worker] by (simp add: q2_def q3_def begin_write_def Let_def)
  have wr: "written (queue (srv y)) = []" "written q1 = []" "written q2 = []" "written q3 = []"
    by (simp_all add: y(2) st q1_def q2_def q3_def begin_write_def Let_def)
  define x1 where "x1 = x0\<lparr>sys := with_queue q1 (sys x0)\<rparr>"
  define x2 where "x2 = x1\<lparr>sys := with_queue q2 (sys x1)\<rparr>"
  define x3 where "x3 = x2\<lparr>sys := with_queue q3 (sys x2)\<rparr>"
  have q: "queue_of x1 = q1" "queue_of x2 = q2" "queue_of x3 = q3" by (simp_all add: x1_def x2_def x3_def)
  have "work_step ?L ?h x0 x1" unfolding x1_def using 1 wr x0 h by (intro wk_worker [of ?h 0]) simp_all
  moreover have "work_step ?L ?h x1 x2" unfolding x2_def using 2 wr q h by (intro wk_worker [of ?h 0]) simp_all
  moreover have "work_step ?L ?h x2 x3" unfolding x3_def using 3 wr q h by (intro wk_worker [of ?h 0]) simp_all
  moreover have "working ?L ?h (exporter_of sample_service) x0" using y(1) by (simp add: x0_def)
  ultimately have r3: "working ?L ?h (exporter_of sample_service) x3" by (metis rtranclp.rtrancl_into_rtrancl)
  have x3: "pool q3 = [Writing [?w] True]" "progress x3 0 = (0, 0, True)" "backends x3 = [GELF (gelf_tcp [])]"
    "taken x3 = [[]]"
    using x0 by (simp_all add: q3_def x1_def x2_def x3_def fresh_def)
  obtain w where w: "write_batch ?L [?w] (GELF (gelf_tcp [])) m = (None, w, m)" for m
    using sample_write [of ?L ?w] by blast
  define x4 where "x4 = call_batch ?L 0 [?w] 0 True x3"
  have 4: "work_step ?L ?h x3 x4" unfolding x4_def using x3 q by (intro wk_batch) auto
  have x4: "taken x4 = [[?w]]" "progress x4 0 = (1, 0, True)" "length (backends x4) = 1"
    "queue_of x4 = q3"
    using x3 q by (simp_all add: x4_def call_batch_def after_call_def w del: write_batch.simps)
  define x5 where "x5 = finish_batch 0 [?w] True True (mk_time 0 0) x4"
  have 5: "work_step ?L ?h x4 x5" unfolding x5_def using x4 x3 by (intro wk_finish) auto
  have x5: "pool (queue_of x5) = [Wrote [?w] True]" "written (queue_of x5) = [([?w], True)]" "length (backends x5) = 1"
    "\<not> Queue.closed (queue_of x5)" "phase (queue_of x5) = Running" "ch (queue_of x5) = []"
    "conns (sys x5) = conns y" "writer_closes (queue_of x5) = 0"
    using x4 x3 wr st y(2)
    by (simp_all add: x5_def finish_batch_def finish_write_def Let_def q3_def begin_write_def q2_def q1_def x4_def
        call_batch_def after_call_def w x3_def x2_def x1_def x0_def del: write_batch.simps)
  define q6 where "q6 = (queue_of x5)\<lparr>inFlight := inFlight (queue_of x5) - 1, pool := [Idle]\<rparr>"
  define x6 where "x6 = x5\<lparr>sys := with_queue q6 (sys x5)\<rparr>"
  have 6: "work_step ?L ?h x5 x6"
    unfolding x6_def using ws_return [of 0 "queue_of x5" "[?w]" True "q_config ?h"] x5(1)
    by (intro wk_worker [of ?h 0]) (simp_all add: q6_def)
  have "working ?L ?h x4 x6" using 5 6 by (meson converse_rtranclp_into_rtranclp rtranclp.rtrancl_refl)
  then show ?thesis using r3 4 x3 x4 x5 y(3)
    by (intro exI [of _ x3] exI [of _ x4] exI [of _ x6]) (simp add: x6_def q6_def)
qed

text \<open>A worker that is idle when the queue is closed leaves.\<close>

lemma idle_leaves:
  assumes "pool q = [Idle]" "ch q = []" "queue_of x = q\<lparr>closed := True, phase := ph\<rparr>"
  shows "work_step L h x (x\<lparr>sys := with_queue ((queue_of x)\<lparr>pool := [Exited]\<rparr>) (sys x)\<rparr>)"
  using ws_exit [of 0 "queue_of x" "q_config h"] assms by (intro wk_worker [of h 0]) simp_all

lemma sample_run:
  "\<exists>x x' x''. running list_libraries sample_service x \<and>
    exporter_step list_libraries plain_handler x x' \<and> length (backends x) = 1 \<and>
    taken x = [[]] \<and> taken x' = [[sample_written]] \<and>
    (exporter_step list_libraries plain_handler)\<^sup>*\<^sup>* x' x'' \<and> workers_done (queue_of x'') \<and>
    sum_list (map pending (conns (sys x''))) = 0 \<and> written (queue_of x'') = [([sample_written], True)] \<and>
    length (backends x'') = 1"
proof -
  let ?L = list_libraries and ?h = plain_handler
  obtain x x' x6 where w: "working ?L ?h (exporter_of sample_service) x" "work_step ?L ?h x x'" "working ?L ?h x' x6"
    "taken x = [[]]" "taken x' = [[sample_written]]" "length (backends x) = 1" "length (backends x6) = 1"
    "list_all (\<lambda>c. \<exists>r. c = Answered r) (conns (sys x6))" "pool (queue_of x6) = [Idle]" "ch (queue_of x6) = []"
    "phase (queue_of x6) = Running" "\<not> Queue.closed (queue_of x6)" "written (queue_of x6) = [([sample_written], True)]"
    using sample_work by auto
  define q7 where "q7 = (queue_of x6)\<lparr>closed := True, phase := Draining\<rparr>"
  define x7 where "x7 = stop_at ?L q7 x6"
  have 7: "exporter_step ?L ?h x6 x7"
    unfolding x7_def q7_def using st_call [of "queue_of x6"] w by (intro ex_stop) simp
  have x7: "queue_of x7 = q7" "length (backends x7) = 1" "conns (sys x7) = conns (sys x6)"
    using w by (simp_all add: x7_def stop_at_def Let_def q7_def)
  define x8 where "x8 = x7\<lparr>sys := with_queue ((queue_of x7)\<lparr>pool := [Exited]\<rparr>) (sys x7)\<rparr>"
  have 8: "exporter_step ?L ?h x7 x8"
    unfolding x8_def using idle_leaves [OF w(9,10), of x7 Draining] x7(1) q7_def by (intro ex_work) simp
  have p: "sum_list (map pending cs) = 0" if "list_all (\<lambda>c. \<exists>r. c = Answered r) cs" for cs
    using that by (induction cs) auto
  have "(exporter_step ?L ?h)\<^sup>*\<^sup>* x' x8"
    using working_exporter [OF w(3)] 7 8 by (meson rtranclp.rtrancl_into_rtrancl)
  moreover have "workers_done (queue_of x8)" "written (queue_of x8) = [([sample_written], True)]" "length (backends x8) = 1"
    "sum_list (map pending (conns (sys x8))) = 0"
    using x7 w p by (simp_all add: x8_def q7_def workers_done_def)
  moreover have "running ?L sample_service x"
    using working_exporter [OF w(1)] by (simp add: sample_service_def)
  ultimately show ?thesis using w by (intro exI [of _ x] exI [of _ x'] exI [of _ x8]) (simp add: ex_work)
qed

theorem taken_is_delivered_witness:
  "\<exists>x x'. running list_libraries sample_service x \<and> exporter_step list_libraries plain_handler x x' \<and>
    delivered list_libraries [sample_written] (backends x ! 0) (backends x' ! 0)"
proof -
  obtain x x' where r: "running list_libraries sample_service x" "exporter_step list_libraries plain_handler x x'"
    "length (backends x) = 1" "taken x = [[]]" "taken x' = [[sample_written]]"
    using sample_run by blast
  have h: "sv_handler sample_service = plain_handler" by (simp add: sample_service_def)
  have "delivered list_libraries [sample_written] (backends x ! 0) (backends x' ! 0)"
    using taken_is_delivered [of list_libraries sample_service x x' 0] r h by simp
  then show ?thesis using r(1,2) by blast
qed

theorem shutdown_accounts_witness:
  "\<exists>x. running list_libraries sample_service x \<and> EventsWrittenTotal (met (queue_of x)) = 1 \<and>
    sample_written \<in> set (taken x ! 0)"
proof -
  obtain x x' x'' where r: "running list_libraries sample_service x" "exporter_step list_libraries plain_handler x x'"
    "(exporter_step list_libraries plain_handler)\<^sup>*\<^sup>* x' x''" "workers_done (queue_of x'')"
    "sum_list (map pending (conns (sys x''))) = 0" "written (queue_of x'') = [([sample_written], True)]"
    "length (backends x'') = 1"
    using sample_run by blast
  have h: "sv_handler sample_service = plain_handler" by (simp add: sample_service_def)
  have run: "running list_libraries sample_service x''"
    using r(1-3) h by (metis rtranclp.rtrancl_into_rtrancl rtranclp_trans)
  have "{#sample_written#} \<subseteq># mset (taken x'' ! 0)" "EventsWrittenTotal (met (queue_of x'')) = 1"
    using shutdown_accounts [OF run r(4,5)] r(6,7) running_ok [OF run]
    by (simp_all add: confirmed_def list_all_length progress_ok_def)
  then show ?thesis using run by auto
qed

end
