(* ===== verification/Command_Line.thy ===== *)
theory Command_Line
  imports App_Config
begin

text \<open>
  The command line of \<^verbatim>\<open>cmd/cee-exporter\<close>: what the package \<^verbatim>\<open>flag\<close> makes of it in \<^verbatim>\<open>run\<close>, and how
  that compares with \<^verbatim>\<open>parseCfgPath\<close> of \<^verbatim>\<open>service_helpers.go\<close>, which looks for the same flag
  without the package.
\<close>

section \<open>The package flag\<close>

text \<open>The two flags of the program: \<^verbatim>\<open>-config\<close>, a string, and \<^verbatim>\<open>-emit-test-events\<close>, a switch.\<close>

record flags =
  f_config :: string
  f_emit :: bool

definition default_flags :: flags where
  "default_flags = \<lparr>f_config = ''config.toml'', f_emit = False\<rparr>"

text \<open>\<^verbatim>\<open>strconv.ParseBool\<close>.\<close>

definition ParseBool :: "string \<Rightarrow> bool option" where
  "ParseBool s =
     (if s \<in> {''1'', ''t'', ''T'', ''true'', ''TRUE'', ''True''} then Some True
      else if s \<in> {''0'', ''f'', ''F'', ''false'', ''FALSE'', ''False''} then Some False
      else None)"

text \<open>What an argument is to the package: the end of the flags, a mistake, or a flag with the value
  after its equals sign.\<close>

datatype flag_word = NoFlag | Terminator | BadFlag | Flag string "string option"

definition flag_word :: "string \<Rightarrow> flag_word" where
  "flag_word s =
     (if length s < 2 \<or> s ! 0 \<noteq> CHR ''-'' then NoFlag
      else if s = ''--'' then Terminator
      else
        (let name = (if s ! 1 = CHR ''-'' then drop 2 s else drop 1 s) in
         if name = [] \<or> name ! 0 = CHR ''-'' \<or> name ! 0 = CHR ''='' then BadFlag
         else if CHR ''='' \<in> set name
         then Flag (takeWhile (\<lambda>c. c \<noteq> CHR ''='') name) (Some (drop 1 (dropWhile (\<lambda>c. c \<noteq> CHR ''='') name)))
         else Flag name None))"

text \<open>\<^verbatim>\<open>flag.Parse\<close>: the flags and the arguments that are left, or the exit code of the process.  A
  mistake ends it with 2, a request for help with 0.\<close>

fun parse_flags :: "string list \<Rightarrow> flags \<Rightarrow> nat + flags \<times> string list" where
  "parse_flags [] f = Inr (f, [])"
| "parse_flags (s # args) f =
     (case flag_word s of
        NoFlag \<Rightarrow> Inr (f, s # args)
      | Terminator \<Rightarrow> Inr (f, args)
      | BadFlag \<Rightarrow> Inl 2
      | Flag name v \<Rightarrow>
          if name = ''emit-test-events'' then
            (case (case v of None \<Rightarrow> Some True | Some x \<Rightarrow> ParseBool x) of
               None \<Rightarrow> Inl 2
             | Some b \<Rightarrow> parse_flags args (f\<lparr>f_emit := b\<rparr>))
          else if name = ''config'' then
            (case v of
               Some x \<Rightarrow> parse_flags args (f\<lparr>f_config := x\<rparr>)
             | None \<Rightarrow>
                 (case args of
                    [] \<Rightarrow> Inl 2
                  | x # rest \<Rightarrow> parse_flags rest (f\<lparr>f_config := x\<rparr>)))
          else if name = ''help'' \<or> name = ''h'' then Inl 0
          else Inl 2)"

section \<open>Two readers of one flag\<close>

abbreviation config_word :: "string \<Rightarrow> bool" where
  "config_word a \<equiv> a = ''-config'' \<or> a = ''--config''"

lemma flag_word_config [simp]:
  "flag_word ''-config'' = Flag ''config'' None" "flag_word ''--config'' = Flag ''config'' None"
  "flag_word ''-emit-test-events'' = Flag ''emit-test-events'' None"
  by (simp_all add: flag_word_def)

text \<open>An argument that says \<^verbatim>\<open>config\<close> without an equals sign is one of the two words.\<close>

lemma flag_word_config_iff: "flag_word a = Flag ''config'' None \<longleftrightarrow> config_word a"
proof
  assume a: "flag_word a = Flag ''config'' None"
  have "(if a ! 1 = CHR ''-'' then drop 2 a else drop 1 a) = ''config''" "2 \<le> length a" "a ! 0 = CHR ''-''"
    using a by (auto simp: flag_word_def Let_def split: if_splits)
  then show "config_word a" by (cases a; cases "tl a") (auto split: if_splits)
qed auto

text \<open>The form \<^verbatim>\<open>-config=path\<close>, which only the package understands.\<close>

definition config_equals :: "string \<Rightarrow> bool" where
  "config_equals a \<longleftrightarrow> (\<exists>x. flag_word a = Flag ''config'' (Some x))"

lemma parseCfgPath_none: "list_all (\<lambda>a. \<not> config_word a) args \<Longrightarrow> parseCfgPath args = ''config.toml''"
  by (induction args rule: parseCfgPath.induct) auto

lemma parseCfgPath_skip: "\<not> config_word a \<Longrightarrow> parseCfgPath (a # args) = parseCfgPath args"
  by (cases args) auto

lemma parse_flags_config:
  "parse_flags args f = Inr (g, []) \<Longrightarrow> list_all (\<lambda>a. \<not> config_equals a) args \<Longrightarrow>
   length (filter config_word args) \<le> 1 \<Longrightarrow>
   f_config g = (if list_all (\<lambda>a. \<not> config_word a) args then f_config f else parseCfgPath args)"
proof (induction args f rule: parse_flags.induct)
  case (2 s args f)
  show ?case
  proof (cases "config_word s")
    case True
    then obtain x rest where a: "args = x # rest" and r: "parse_flags rest (f\<lparr>f_config := x\<rparr>) = Inr (g, [])"
      using "2.prems"(1) by (auto split: list.splits)
    have n: "list_all (\<lambda>a. \<not> config_word a) rest"
      using True "2.prems"(3) by (auto simp: a list_all_iff filter_empty_conv split: if_splits)
    have w: "flag_word s = Flag ''config'' None" using True by auto
    have "f_config g = x"
      using "2.IH"(2) [OF w _ _ refl a r] n "2.prems"(2) by (auto simp: a list_all_iff filter_empty_conv)
    then show ?thesis using True a by auto
  next
    case False
    have e: "\<not> config_equals s" "list_all (\<lambda>a. \<not> config_equals a) args"
      "length (filter config_word args) \<le> 1" using "2.prems"(2,3) False by simp_all
    show ?thesis
    proof (cases "flag_word s")
      case Terminator
      then have "args = []" "g = f" using "2.prems"(1) by auto
      then show ?thesis using False by auto
    next
      case (Flag name v)
      have c: "name \<noteq> ''config''"
        using e(1) False Flag flag_word_config_iff [of s] by (cases v) (auto simp: config_equals_def)
      then obtain b where n: "name = ''emit-test-events''"
        "(case v of None \<Rightarrow> Some True | Some x \<Rightarrow> ParseBool x) = Some b"
        "parse_flags args (f\<lparr>f_emit := b\<rparr>) = Inr (g, [])"
        using "2.prems"(1) Flag by (auto split: if_splits option.splits)
      have "f_config g = (if list_all (\<lambda>a. \<not> config_word a) args then f_config f else parseCfgPath args)"
        using "2.IH"(1) [OF Flag n(1,2) n(3) e(2,3)] by simp
      then show ?thesis using False parseCfgPath_skip [OF False] by simp
    qed (use "2.prems"(1) in auto)
  qed
qed simp

end
