(* ===== verification/Win_Service.thy ===== *)
theory Win_Service
  imports Command_Line Startup
begin

text \<open>
  \<^verbatim>\<open>service_windows.go\<close>: how the program is installed, removed and started under the Windows
  service manager.  The manager is a third-party package and a parameter: whether it accepts
  a configuration, and whether installing, removing and running succeed.
\<close>

section \<open>The service configuration\<close>

datatype option_value = OptString string | OptBool bool | OptInt int

record service_config =
  svc_Name :: string
  svc_DisplayName :: string
  svc_Description :: string
  svc_Arguments :: "string list"
  svc_Option :: "(string \<times> option_value) list"

definition svcName :: string where
  "svcName = ''cee-exporter''"

definition svcConfig :: "string \<Rightarrow> service_config" where
  "svcConfig cfgPath =
     \<lparr>svc_Name = svcName, svc_DisplayName = ''CEE Exporter'',
      svc_Description = ''Dell PowerStore CEPA audit event bridge to GELF / Windows Event Log'',
      svc_Arguments = [''-config'', cfgPath],
      svc_Option =
        [(''StartType'', OptString ''automatic''), (''DelayedAutoStart'', OptBool True),
         (''OnFailure'', OptString ''restart''), (''OnFailureDelayDuration'', OptString ''5s''),
         (''OnFailureResetPeriod'', OptInt 86400)]\<rparr>"

section \<open>The entry point\<close>

record service_manager =
  accepts :: "service_config \<Rightarrow> bool"
  installs :: "service_config \<Rightarrow> bool"
  uninstalls :: "service_config \<Rightarrow> bool"
  runs :: "service_config \<Rightarrow> bool"

datatype manager_call = Install service_config | Uninstall service_config | RunProgram service_config

text \<open>\<^verbatim>\<open>runWithServiceManager\<close> on the arguments after the name of the program: what it asks of the
  manager and the exit code of the process.  \<^verbatim>\<open>run\<close> itself happens inside the last call.\<close>

definition runWithServiceManager :: "service_manager \<Rightarrow> string list \<Rightarrow> manager_call list \<times> nat" where
  "runWithServiceManager S args =
     (let c = svcConfig (parseCfgPath args) in
      if \<not> accepts S c then ([], 1)
      else case args of
             [] \<Rightarrow> ([RunProgram c], if runs S c then 0 else 1)
           | a # rest \<Rightarrow>
               if a = ''install'' then ([Install c], if installs S c then 0 else 1)
               else if a = ''uninstall'' then ([Uninstall c], if uninstalls S c then 0 else 1)
               else ([RunProgram c], if runs S c then 0 else 1))"

text \<open>The program the manager starts and stops: whether \<^verbatim>\<open>run\<close> has been started, whether a cancel
  function is set, and whether the context \<^verbatim>\<open>run\<close> was given has been cancelled.\<close>

record svcProgram =
  run_started :: bool
  cancel_set :: bool
  ctx_cancelled :: bool

definition svc_Start :: "svcProgram \<Rightarrow> svcProgram" where
  "svc_Start p = p\<lparr>cancel_set := True, ctx_cancelled := False, run_started := True\<rparr>"

definition svc_Stop :: "svcProgram \<Rightarrow> svcProgram" where
  "svc_Stop p = (if cancel_set p then p\<lparr>ctx_cancelled := True\<rparr> else p)"

text \<open>\<^verbatim>\<open>run\<close> from the arguments of the process, which on other platforms \<^verbatim>\<open>main\<close> calls at once.\<close>

definition run_args :: "nat \<Rightarrow> 'g machine \<Rightarrow> string list \<Rightarrow> 'g process option" where
  "run_args fuel M args =
     (case parse_flags args default_flags of
        Inl code \<Rightarrow> Some (Exit code)
      | Inr (f, rest) \<Rightarrow> run_startup fuel M (f_emit f) (f_config f))"

section \<open>Properties\<close>

lemma stop_cancels: "ctx_cancelled (svc_Stop (svc_Start p))" "svc_Stop p = p \<or> cancel_set p"
  by (simp_all add: svc_Stop_def svc_Start_def)

lemma booted: "parse_flags [''-config'', path] f = Inr (f\<lparr>f_config := path\<rparr>, [])"
  by simp

text \<open>C26: An installed service reads the configuration it was installed with.  Take the arguments
  after \<^verbatim>\<open>install\<close> that the package \<^verbatim>\<open>flag\<close> would accept as a whole, with at most one
  \<^verbatim>\<open>-config\<close> and not in the form with an equals sign.  Then installing records arguments with
  which the service, on every boot, starts \<^verbatim>\<open>run\<close> rather than installing itself again, with
  the very configuration file the program would have read from those arguments, and never
  in the diagnostic mode.\<close>

theorem installed_service_reads_its_config:
  assumes "parse_flags rest default_flags = Inr (g, [])" "list_all (\<lambda>a. \<not> config_equals a) rest"
    and "length (filter (\<lambda>a. a = ''-config'' \<or> a = ''--config'') rest) \<le> 1"
    and "accepts S (svcConfig (parseCfgPath (''install'' # rest)))"
  shows "\<exists>c. fst (runWithServiceManager S (''install'' # rest)) = [Install c] \<and>
    fst (runWithServiceManager S (svc_Arguments c)) = [RunProgram c] \<and>
    run_args fuel M (svc_Arguments c) = run_startup fuel M False (f_config g)"
proof -
  have i: "parseCfgPath (''install'' # rest) = parseCfgPath rest" by (rule parseCfgPath_skip) simp
  have p: "parseCfgPath rest = f_config g"
    using parse_flags_config [OF assms(1-3)] parseCfgPath_none [of rest]
    by (simp add: default_flags_def split: if_splits)
  have c: "svc_Arguments (svcConfig path) = [''-config'', path]" for path by (simp add: svcConfig_def)
  show ?thesis
    using assms(4) unfolding i p
    by (intro exI [of _ "svcConfig (f_config g)"])
      (simp add: runWithServiceManager_def run_args_def Let_def c i p booted default_flags_def del: parse_flags.simps)
qed

definition willing_manager :: service_manager where
  "willing_manager = \<lparr>accepts = (\<lambda>c. True), installs = (\<lambda>c. True), uninstalls = (\<lambda>c. True), runs = (\<lambda>c. True)\<rparr>"

theorem installed_service_reads_its_config_witness:
  "\<exists>c. fst (runWithServiceManager willing_manager [''install'', ''-config'', ''prod.toml'']) = [Install c] \<and>
    run_args 2 (sample_machine NoFile) (svc_Arguments c) = run_startup 2 (sample_machine NoFile) False ''prod.toml''"
proof -
  have "\<not> config_equals ''prod.toml''" "\<not> config_equals ''-config''"
    by (simp_all add: config_equals_def flag_word_def)
  then show ?thesis
    using installed_service_reads_its_config [of "[''-config'', ''prod.toml'']" "default_flags\<lparr>f_config := ''prod.toml''\<rparr>"
        willing_manager 2 "sample_machine NoFile"]
    by (auto simp: willing_manager_def)
qed

text \<open>The two conditions are needed: the form with the equals sign is not seen when the service is
  installed, and of two flags the installation takes the first, the program the last.\<close>

lemma readers_disagree:
  "parse_flags [''-config=prod.toml''] default_flags = Inr (\<lparr>f_config = ''prod.toml'', f_emit = False\<rparr>, [])"
  "parseCfgPath [''-config=prod.toml''] = ''config.toml''"
  "parse_flags [''-config'', ''a'', ''-config'', ''b''] default_flags = Inr (\<lparr>f_config = ''b'', f_emit = False\<rparr>, [])"
  "parseCfgPath [''-config'', ''a'', ''-config'', ''b''] = ''a''"
  by (simp_all add: flag_word_def default_flags_def)

text \<open>The manager is asked for one thing, and the process fails just when the manager does.\<close>

lemma service_calls:
  assumes "runWithServiceManager S args = (calls, code)"
  shows "length calls \<le> 1" "calls = [] \<longleftrightarrow> \<not> accepts S (svcConfig (parseCfgPath args))"
    "code = 0 \<longleftrightarrow> (case calls of [] \<Rightarrow> False | Install c # cs \<Rightarrow> installs S c | Uninstall c # cs \<Rightarrow> uninstalls S c
       | RunProgram c # cs \<Rightarrow> runs S c)"
  using assms by (auto simp: runWithServiceManager_def Let_def split: list.splits if_splits)

end
