(* ===== verification/Lifetime.thy ===== *)
theory Lifetime
  imports Pipeline Win_Service
begin

text \<open>
  The life of a serving process: the second half of \<^verbatim>\<open>run\<close> in \<^verbatim>\<open>main.go\<close>, which waits for a
  signal or a cancelled context, shuts the server down and stops the queue, and beside it
  the goroutine of \<^verbatim>\<open>sighup_notwindows.go\<close> that rotates the event log.  The work goes on
  below it as in \<^verbatim>\<open>Pipeline\<close>; every run of a process is a run of the exporter there.  Under
  the Windows service manager the process ends by another rule, which the last section
  models.
\<close>

section \<open>State\<close>

text \<open>Where \<^verbatim>\<open>run\<close> is: waiting for a reason to end; inside \<^verbatim>\<open>Shutdown\<close>; inside \<^verbatim>\<open>Stop\<close>, with whether
  \<^verbatim>\<open>Shutdown\<close> ended because every connection was idle and not because of its deadline;
  returned; or gone with \<^verbatim>\<open>os.Exit(1)\<close>.\<close>

datatype stage = Waiting | ShuttingDown | StoppingQueue bool | Returned bool | Died

record 'g Process =
  px :: "'g Exporter"
  stage :: stage
  asked :: bool
  hup :: bool
  rotating :: "nat option"
  visited :: "nat set"

text \<open>\<open>asked\<close> is a pending SIGTERM or SIGINT or a cancelled context, \<open>hup\<close> the channel of one SIGHUP,
  \<open>rotating\<close> the target the rotation goroutine is about to come to.  \<open>visited\<close> is a history:
  the targets it has dealt with since the last SIGHUP arrived.\<close>

definition process_of :: "'g service \<Rightarrow> 'g Process" where
  "process_of s = \<lparr>px = exporter_of s, stage = Waiting, asked = False, hup = False, rotating = None, visited = UNIV\<rparr>"

fun alive :: "stage \<Rightarrow> bool" where
  "alive (Returned clean) = False"
| "alive Died = False"
| "alive st = True"

text \<open>Whether a request can still come in.  A connection accepted before \<^verbatim>\<open>Shutdown\<close> may send one
  while it waits, and after it has given up, but not after it has seen every connection off.\<close>

fun accepting :: "stage \<Rightarrow> bool" where
  "accepting Waiting = True"
| "accepting ShuttingDown = True"
| "accepting (StoppingQueue clean) = (\<not> clean)"
| "accepting st = False"

fun answered :: "conn \<Rightarrow> bool" where
  "answered (Answered resp) = True"
| "answered c = False"

abbreviation all_answered :: "'g Process \<Rightarrow> bool" where
  "all_answered p \<equiv> list_all answered (conns (sys (px p)))"

abbreviation pq :: "'g Process \<Rightarrow> Queue" where
  "pq p \<equiv> queue_of (px p)"

section \<open>Steps\<close>

text \<open>The steps of \<^verbatim>\<open>run\<close> itself.\<close>

inductive main_step :: "'g libraries \<Rightarrow> 'g Process \<Rightarrow> 'g Process \<Rightarrow> bool" for L where
  mn_select: "stage p = Waiting \<Longrightarrow> asked p \<Longrightarrow> main_step L p (p\<lparr>stage := ShuttingDown\<rparr>)"
| mn_idle: "stage p = ShuttingDown \<Longrightarrow> all_answered p \<Longrightarrow> main_step L p (p\<lparr>stage := StoppingQueue True\<rparr>)"
| mn_deadline: "stage p = ShuttingDown \<Longrightarrow> main_step L p (p\<lparr>stage := StoppingQueue False\<rparr>)"
| mn_stop: "stage p = StoppingQueue clean \<Longrightarrow> stop_step (pq p) q \<Longrightarrow> phase q \<noteq> phase (pq p) \<Longrightarrow>
    main_step L p (p\<lparr>px := stop_at L q (px p)\<rparr>)"
| mn_return: "stage p = StoppingQueue clean \<Longrightarrow> phase (pq p) = Stopped \<Longrightarrow>
    main_step L p (p\<lparr>stage := Returned clean\<rparr>)"

text \<open>Everything else: the signals, the server that fails, the work, and the rotation goroutine.\<close>

inductive side_step :: "'g libraries \<Rightarrow> Handler \<Rightarrow> 'g Process \<Rightarrow> 'g Process \<Rightarrow> bool" for L h where
  sd_ask: "side_step L h p (p\<lparr>asked := True\<rparr>)"
| sd_die: "stage p = Waiting \<Longrightarrow> side_step L h p (p\<lparr>stage := Died\<rparr>)"
| sd_work: "alive (stage p) \<Longrightarrow> work_step L h (px p) x \<Longrightarrow>
    accepting (stage p) \<or> length (conns (sys x)) = length (conns (sys (px p))) \<Longrightarrow>
    side_step L h p (p\<lparr>px := x\<rparr>)"
| sd_hup: "alive (stage p) \<Longrightarrow> side_step L h p (p\<lparr>hup := True, visited := {}\<rparr>)"
| sd_take: "alive (stage p) \<Longrightarrow> hup p \<Longrightarrow> rotating p = None \<Longrightarrow>
    side_step L h p (p\<lparr>hup := False, rotating := Some 0\<rparr>)"
| sd_rotate: "alive (stage p) \<Longrightarrow> rotating p = Some k \<Longrightarrow> k < length (backends (px p)) \<Longrightarrow>
    rotate_writer L (backends (px p) ! k) = Some (r, w) \<Longrightarrow>
    side_step L h p (p\<lparr>px := (px p)\<lparr>backends := (backends (px p))[k := w]\<rparr>,
      rotating := Some (k + 1), visited := insert k (visited p)\<rparr>)"
| sd_skip: "alive (stage p) \<Longrightarrow> rotating p = Some k \<Longrightarrow> k < length (backends (px p)) \<Longrightarrow>
    rotate_writer L (backends (px p) ! k) = None \<Longrightarrow>
    side_step L h p (p\<lparr>rotating := Some (k + 1), visited := insert k (visited p)\<rparr>)"
| sd_round: "alive (stage p) \<Longrightarrow> rotating p = Some k \<Longrightarrow> length (backends (px p)) \<le> k \<Longrightarrow>
    side_step L h p (p\<lparr>rotating := None\<rparr>)"

inductive process_step :: "'g libraries \<Rightarrow> Handler \<Rightarrow> 'g Process \<Rightarrow> 'g Process \<Rightarrow> bool" for L h where
  ps_main: "main_step L p p' \<Longrightarrow> process_step L h p p'"
| ps_side: "side_step L h p p' \<Longrightarrow> process_step L h p p'"

abbreviation living :: "'g libraries \<Rightarrow> 'g service \<Rightarrow> 'g Process \<Rightarrow> bool" where
  "living L s p \<equiv> (process_step L (sv_handler s))\<^sup>*\<^sup>* (process_of s) p"

text \<open>A run in which \<^verbatim>\<open>run\<close> itself takes \<open>n\<close> steps.\<close>

inductive main_steps :: "'g libraries \<Rightarrow> Handler \<Rightarrow> nat \<Rightarrow> 'g Process \<Rightarrow> 'g Process \<Rightarrow> bool" for L h where
  ms_done: "main_steps L h 0 p p"
| ms_main: "main_steps L h n p p' \<Longrightarrow> main_step L p' p'' \<Longrightarrow> main_steps L h (Suc n) p p''"
| ms_side: "main_steps L h n p p' \<Longrightarrow> side_step L h p' p'' \<Longrightarrow> main_steps L h n p p''"

section \<open>A process runs the exporter\<close>

text \<open>Each step is one of the exporter or leaves it alone.\<close>

lemma process_exporter:
  assumes "process_step L h p p'"
  shows "px p' = px p \<or> exporter_step L h (px p) (px p')"
  using assms
proof (cases rule: process_step.cases)
  case ps_main
  then show ?thesis by (cases rule: main_step.cases) (auto intro: ex_stop)
next
  case ps_side
  then show ?thesis by (cases rule: side_step.cases) (auto intro: ex_work ex_rotate)
qed

interpretation process_view: stepwise_view "process_step L h" "exporter_step L h" px for L h
  by unfold_locales (rule process_exporter)

lemma living_running: "living L s p \<Longrightarrow> running L s (px p)"
  using process_view.view_run [of L "sv_handler s" "process_of s" p] by (simp add: process_of_def)

text \<open>Work neither begins nor ends a shutdown.\<close>

lemma work_step_phase:
  assumes "work_step L h x x'"
  shows "phase (queue_of x') = phase (queue_of x) \<and> writer_closes (queue_of x') = writer_closes (queue_of x)"
  using assms
proof (cases rule: work_step.cases)
  case (wk_system y)
  then show ?thesis using system_step_queue [OF wk_system(2)] worker_step_phase by fastforce
qed (auto simp: call_batch_def call_event_def after_call_def finish_batch_def finish_write_def Let_def
      split: prod.split)

text \<open>Where every handler has answered and no request can come in, no connection changes.\<close>

lemma system_step_answered:
  assumes "system_step h y y'" "list_all answered (conns y)" "length (conns y') = length (conns y)"
  shows "conns y' = conns y"
proof -
  have a: "answered (conns y ! i)" if "i < length (conns y)" for i
    using assms(2) that by (simp add: list_all_length)
  show ?thesis using assms(1,3)
    by (cases rule: system_step.cases) (use a in fastforce)+
qed

lemma work_step_conns:
  assumes "work_step L h x x'" "list_all answered (conns (sys x))" "length (conns (sys x')) = length (conns (sys x))"
  shows "conns (sys x') = conns (sys x)"
  using assms(1)
proof (cases rule: work_step.cases)
  case (wk_system y)
  then show ?thesis using system_step_answered [OF wk_system(2) assms(2)] assms(3) by simp
qed (auto simp: call_batch_def call_event_def after_call_def finish_batch_def split: prod.split)


section \<open>Invariants\<close>

fun clean :: "stage \<Rightarrow> bool" where
  "clean (StoppingQueue c) = c"
| "clean (Returned c) = c"
| "clean st = False"

definition life_ok :: "'g Process \<Rightarrow> bool" where
  "life_ok p \<longleftrightarrow>
     (stage p = Waiting \<or> stage p = ShuttingDown \<longrightarrow> phase (pq p) = Running) \<and>
     (clean (stage p) \<longrightarrow> all_answered p)"

lemma life_step:
  assumes "process_step L h p p'" "life_ok p"
  shows "life_ok p'"
  using assms(1)
proof (cases rule: process_step.cases)
  case ps_main
  then show ?thesis using assms(2)
    by (cases rule: main_step.cases) (auto simp: life_ok_def stop_at_def Let_def)
next
  case ps_side
  then show ?thesis
  proof (cases rule: side_step.cases)
    case (sd_work x)
    have "conns (sys x) = conns (sys (px p))" if "clean (stage p)"
    proof (rule work_step_conns [OF sd_work(3)])
      show "all_answered p" using assms(2) that by (simp add: life_ok_def)
      show "length (conns (sys x)) = length (conns (sys (px p)))"
        using sd_work(2,4) that by (cases "stage p") auto
    qed
    then show ?thesis using assms(2) work_step_phase [OF sd_work(3)] sd_work(1) by (auto simp: life_ok_def)
  qed (use assms(2) in \<open>auto simp: life_ok_def\<close>)
qed

interpretation process_runs: invariant "process_step L (sv_handler s)" life_ok "process_of s" for L s
proof unfold_locales
  show "life_ok (process_of s)"
    by (simp add: life_ok_def process_of_def exporter_of_def initial_def new_server_def started_def Start_def New_def)
qed (rule life_step)

lemmas living_ok = process_runs.reached

text \<open>With every handler finished the work that is left moves what the queue already has.\<close>

lemma settled_work:
  assumes "work_step L h x x'" "list_all answered (conns (sys x))" "length (conns (sys x')) = length (conns (sys x))"
  shows "accepted (queue_of x') = accepted (queue_of x) \<and> received (srv (sys x')) = received (srv (sys x))"
  using assms(1)
proof (cases rule: work_step.cases)
  case (wk_system y)
  have a: "answered (conns (sys x) ! i)" if "i < length (conns (sys x))" for i
    using assms(2) that by (simp add: list_all_length)
  have "length (conns y) = length (conns (sys x))" using wk_system(1) assms(3) by simp
  with wk_system(2) have "\<exists>j. worker_step (q_config h) j (queue (srv (sys x))) (queue (srv y)) \<or> y = sys x"
    by (cases rule: system_step.cases) (use a in fastforce)+
  then show ?thesis using worker_step_keeps wk_system(1) by auto
next
  case (wk_batch i b mr k j ok)
  then show ?thesis using write_batch_metrics(1) [of L b "backends x ! k" "met (queue_of x)" "met (queue_of x)"]
    by (cases "write_batch L b (backends x ! k) (met (queue_of x))") (auto simp: call_batch_def after_call_def)
next
  case (wk_event i b mr k j ok)
  then show ?thesis using write_event_metrics [OF wk_event(6), of L "b ! j" "met (queue_of x)"]
    by (auto simp: call_event_def after_call_def split: prod.splits)
qed (auto simp: finish_batch_def finish_write_def RecordEventAt_def Let_def)

lemma clean_side_step:
  assumes "side_step L h p p'" "clean (stage p)" "all_answered p"
  shows "conns (sys (px p')) = conns (sys (px p)) \<and> accepted (pq p') = accepted (pq p) \<and>
    received (srv (sys (px p'))) = received (srv (sys (px p)))"
  using assms(1)
proof (cases rule: side_step.cases)
  case (sd_work x)
  have l: "length (conns (sys x)) = length (conns (sys (px p)))"
    using sd_work(2,4) assms(2) by (cases "stage p") auto
  show ?thesis
    using work_step_conns [OF sd_work(3) assms(3) l] settled_work [OF sd_work(3) assms(3) l] sd_work(1) by simp
qed auto

lemma main_step_keeps:
  assumes "main_step L p p'"
  shows "conns (sys (px p')) = conns (sys (px p)) \<and> accepted (pq p') = accepted (pq p) \<and>
    received (srv (sys (px p'))) = received (srv (sys (px p)))"
  using assms
proof (cases rule: main_step.cases)
  case (mn_stop c q)
  then show ?thesis using stop_step_keeps [OF mn_stop(3)] by (simp add: stop_at_def Let_def)
qed auto

section \<open>An end in sight\<close>

text \<open>How many steps \<^verbatim>\<open>run\<close> still has before it, at most.\<close>

fun phase_rank :: "stop_phase \<Rightarrow> nat" where
  "phase_rank Running = 4"
| "phase_rank Draining = 3"
| "phase_rank InGrace = 2"
| "phase_rank Done = 1"
| "phase_rank Expired = 1"
| "phase_rank Stopped = 0"

fun stage_rank :: "stage \<Rightarrow> nat \<Rightarrow> nat" where
  "stage_rank Waiting n = 7"
| "stage_rank ShuttingDown n = 6"
| "stage_rank (StoppingQueue c) n = Suc n"
| "stage_rank st n = 0"

abbreviation rank :: "'g Process \<Rightarrow> nat" where
  "rank p \<equiv> stage_rank (stage p) (phase_rank (phase (pq p)))"

lemma phase_rank_bound: "phase_rank ph \<le> 4"
  by (cases ph) simp_all

lemma rank_bound: "rank p \<le> 7"
  using phase_rank_bound [of "phase (pq p)"] by (cases "stage p") simp_all

lemma stop_step_rank: "stop_step q q' \<Longrightarrow> phase q' \<noteq> phase q \<Longrightarrow> phase_rank (phase q') < phase_rank (phase q)"
  by (erule stop_step.cases) (auto simp: count_dropped_def)

lemma main_step_rank:
  assumes "main_step L p p'"
  shows "rank p' < rank p"
  using assms
proof (cases rule: main_step.cases)
  case (mn_stop c q)
  then show ?thesis using stop_step_rank by (simp add: stop_at_def Let_def)
qed (use phase_rank_bound [of "phase (pq p)"] in simp_all)

lemma side_step_rank:
  assumes "side_step L h p p'"
  shows "rank p' \<le> rank p" "asked p \<Longrightarrow> asked p'"
  using assms by (cases rule: side_step.cases; use work_step_phase in fastforce)+

lemma main_step_asked: "main_step L p p' \<Longrightarrow> asked p' = asked p"
  by (erule main_step.cases) simp_all

text \<open>Once it has been asked to end, \<^verbatim>\<open>run\<close> is never stuck: every wait in it ends with a timer.\<close>

lemma main_enabled:
  assumes "queue_ok cfg (pq p)" "asked p" "alive (stage p)"
  shows "\<exists>p'. main_step L p p'"
proof (cases "stage p")
  case (StoppingQueue c)
  show ?thesis
  proof (cases "phase (pq p)")
    case Running
    then have "\<not> Queue.closed (pq p)" using assms(1) by (simp add: queue_ok_def close_ok_def)
    then show ?thesis using mn_stop [OF StoppingQueue st_call] Running by fastforce
  next
    case Draining
    then show ?thesis using mn_stop [OF StoppingQueue st_timeout] by fastforce
  next
    case InGrace
    then show ?thesis using mn_stop [OF StoppingQueue st_expire] by fastforce
  next
    case Done
    then show ?thesis using mn_stop [OF StoppingQueue st_close] by fastforce
  next
    case Expired
    then show ?thesis using mn_stop [OF StoppingQueue st_skip] by fastforce
  next
    case Stopped
    then show ?thesis using mn_return [OF StoppingQueue] by blast
  qed
next
  case Waiting
  then show ?thesis using mn_select assms(2) by blast
next
  case ShuttingDown
  then show ?thesis using mn_deadline by blast
qed (use assms(3) in simp_all)

lemma main_steps_living:
  "main_steps L h n p p' \<Longrightarrow> (process_step L h)\<^sup>*\<^sup>* p p' \<and> rank p' + n \<le> rank p \<and> (asked p \<longrightarrow> asked p')"
proof (induction rule: main_steps.induct)
  case (ms_main n p p' p'')
  then show ?case using main_step_rank [OF ms_main.hyps(2)] main_step_asked [OF ms_main.hyps(2)]
    by (auto intro: rtranclp.rtrancl_into_rtrancl ps_main)
next
  case (ms_side n p p' p'')
  then show ?case using side_step_rank [OF ms_side.hyps(2)]
    by (auto intro: rtranclp.rtrancl_into_rtrancl ps_side)
qed simp

section \<open>The rotation signal\<close>

definition rounds_ok :: "'g Process \<Rightarrow> bool" where
  "rounds_ok p \<longleftrightarrow> hup p \<or>
     (\<forall>k < (case rotating p of None \<Rightarrow> length (backends (px p)) | Some j \<Rightarrow> j). k \<in> visited p)"

lemma exporter_step_length: "exporter_step L h x x' \<Longrightarrow> length (backends x') = length (backends x)"
  by (erule exporter_step_cases)
    (auto simp: call_batch_def call_event_def after_call_def finish_batch_def stop_at_def Let_def split: prod.splits)

lemma rounds_step:
  assumes "process_step L h p p'" "rounds_ok p"
  shows "rounds_ok p'"
proof -
  have len: "length (backends (px p')) = length (backends (px p))"
    using process_exporter [OF assms(1)] exporter_step_length by fastforce
  show ?thesis using assms(1)
  proof (cases rule: process_step.cases)
    case ps_main
    then have "hup p' = hup p \<and> rotating p' = rotating p \<and> visited p' = visited p"
      by (cases rule: main_step.cases) simp_all
    then show ?thesis using assms(2) len unfolding rounds_ok_def by (cases "rotating p") simp_all
  next
    case ps_side
    then show ?thesis using assms(2) len
      by (cases rule: side_step.cases) (auto simp: rounds_ok_def less_Suc_eq split: option.splits)
  qed
qed

interpretation rotation_rounds: invariant "process_step L (sv_handler s)" rounds_ok "process_of s" for L s
proof unfold_locales
  show "rounds_ok (process_of s)" by (simp add: rounds_ok_def process_of_def)
qed (rule rounds_step)

lemmas living_rounds = rotation_rounds.reached

text \<open>Behind a closed writer there is nothing.\<close>

lemma closed_writer:
  assumes "queue_ok cfg q" "writer_closes q = 1" "pool q \<noteq> []"
  shows "workers_done q \<and> ch q = []"
proof -
  have d: "workers_done q" "\<exists>w \<in> set (pool q). leaving w \<Longrightarrow> ch q = []"
    using assms(1,2) by (simp_all add: queue_ok_def close_ok_def)
  obtain w where "w \<in> set (pool q)" using assms(3) by (cases "pool q") auto
  then have "leaving w" "w \<in> set (pool q)" using d(1) by (auto simp: workers_done_def list_all_iff)
  then show ?thesis using d by blast
qed

section \<open>Properties\<close>

text \<open>C3: A graceful shutdown leaves nothing behind.  From the moment \<^verbatim>\<open>Shutdown\<close> has seen every
  connection off, no request, no event and no answer is outstanding and none comes: every
  further step, of whatever goroutine, leaves the connections, the received events and the
  accepted events alone, so that no event ever meets the closed queue.  If the writer is
  then closed, the channel is empty and the workers are gone, and the events received are
  those written, failed or dropped, where every target has taken all that count as
  written.\<close>

theorem graceful_shutdown:
  assumes "living L s p" "stage p = StoppingQueue True \<or> stage p = Returned True"
  shows "all_answered p \<and>
    (\<forall>p'. process_step L (sv_handler s) p p' \<longrightarrow>
       conns (sys (px p')) = conns (sys (px p)) \<and> accepted (pq p') = accepted (pq p) \<and>
       received (srv (sys (px p'))) = received (srv (sys (px p)))) \<and>
    (writer_closes (pq p) = 1 \<longrightarrow>
       workers_done (pq p) \<and> ch (pq p) = [] \<and>
       received (srv (sys (px p))) + lost (sys (px p)) =
         EventsWrittenTotal (met (pq p)) + WriterErrorsTotal (met (pq p)) + dropped (srv (sys (px p))) \<and>
       list_all (\<lambda>es. mset (confirmed (pq p)) \<subseteq># mset es) (taken (px p)))"
proof -
  have c: "clean (stage p)" using assms(2) by auto
  then have a: "all_answered p" using living_ok [OF assms(1)] by (simp add: life_ok_def)
  note r = living_running [OF assms(1)]
  have ok: "queue_ok (q_config (sv_handler s)) (pq p)" "pool (pq p) \<noteq> []"
    using running_ok [OF r] by (simp_all add: system_ok_def progress_ok_def)
  have pend: "sum_list (map pending cs) = 0" if "list_all answered cs" for cs
  proof -
    have "answered x \<Longrightarrow> pending x = 0" for x by (cases x) simp_all
    then show ?thesis using that by (induction cs) simp_all
  qed
  have w: "workers_done (pq p) \<and> ch (pq p) = []" if "writer_closes (pq p) = 1"
    using closed_writer [OF ok(1) that ok(2)] .
  have "writer_closes (pq p) = 1 \<longrightarrow> workers_done (pq p) \<and> ch (pq p) = [] \<and>
       received (srv (sys (px p))) + lost (sys (px p)) =
         EventsWrittenTotal (met (pq p)) + WriterErrorsTotal (met (pq p)) + dropped (srv (sys (px p))) \<and>
       list_all (\<lambda>es. mset (confirmed (pq p)) \<subseteq># mset es) (taken (px p))"
    using w drained_balance [OF r _ pend [OF a]] confirmed_taken [OF r] by blast
  moreover have "\<forall>p'. process_step L (sv_handler s) p p' \<longrightarrow>
       conns (sys (px p')) = conns (sys (px p)) \<and> accepted (pq p') = accepted (pq p) \<and>
       received (srv (sys (px p'))) = received (srv (sys (px p)))"
    using clean_side_step [OF _ c a] main_step_keeps by (blast elim: process_step.cases)
  ultimately show ?thesis using a by (intro conjI)
qed

text \<open>C4: Asked to end, the process ends.  After a signal or a cancelled context \<^verbatim>\<open>run\<close> takes at most
  seven more steps of its own, whatever the connections, the workers, the writers and
  further signals do in between, and until it has returned one of these steps is always
  possible: no wait of the shutdown is without a deadline.\<close>

theorem shutdown_returns:
  assumes "living L s p" "asked p" "main_steps L (sv_handler s) n p p'"
  shows "n \<le> 7 \<and> (alive (stage p') \<longrightarrow> n < 7 \<and> (\<exists>p''. main_step L p' p''))"
proof -
  note m = main_steps_living [OF assms(3)]
  have l: "living L s p'" using assms(1) m by (meson rtranclp_trans)
  have "queue_ok (q_config (sv_handler s)) (pq p')"
    using running_ok [OF living_running [OF l]] by (simp add: system_ok_def)
  then have e: "\<exists>p''. main_step L p' p''" if "alive (stage p')" using main_enabled that m assms(2) by blast
  have "rank p' + n \<le> 7" using m rank_bound [of p] by linarith
  moreover have "0 < rank p'" if "alive (stage p')" using that by (cases "stage p'") auto
  ultimately show ?thesis using e by fastforce
qed

text \<open>C27: No rotation request is lost.  However many SIGHUPs arrive while the event log is being
  rotated, when the rotation goroutine is waiting again every target has been dealt with
  since the last of them arrived; to deal with a target that can rotate is to rotate it;
  and as long as a request is open, the goroutine can go on.\<close>

theorem rotation_request_served:
  assumes "living L s p"
  shows "(\<not> hup p \<and> rotating p = None \<longrightarrow> {..<length (backends (px p))} \<subseteq> visited p) \<and>
    (\<forall>p' k. process_step L (sv_handler s) p p' \<and> k \<in> visited p' - visited p \<longrightarrow>
       (case rotate_writer L (backends (px p) ! k) of None \<Rightarrow> px p' = px p | Some (r, w) \<Rightarrow> backends (px p') ! k = w)) \<and>
    (alive (stage p) \<and> (hup p \<or> rotating p \<noteq> None) \<longrightarrow>
       (\<exists>p'. side_step L (sv_handler s) p p' \<and> rotating p' \<noteq> rotating p))"
proof -
  have v: "case rotate_writer L (backends (px p) ! k) of None \<Rightarrow> px p' = px p | Some (r, w) \<Rightarrow> backends (px p') ! k = w"
    if "process_step L (sv_handler s) p p'" "k \<in> visited p' - visited p" for p' k
    using that(1)
  proof (cases rule: process_step.cases)
    case ps_main
    then show ?thesis using that(2) by (cases rule: main_step.cases) auto
  next
    case ps_side
    then show ?thesis using that(2) by (cases rule: side_step.cases) auto
  qed
  have e: "\<exists>p'. side_step L (sv_handler s) p p' \<and> rotating p' \<noteq> rotating p"
    if "alive (stage p)" "hup p \<or> rotating p \<noteq> None"
  proof (cases "rotating p")
    case None
    then show ?thesis using sd_take [OF that(1)] that(2) by fastforce
  next
    case (Some k)
    show ?thesis
    proof (cases "k < length (backends (px p))")
      case True
      then show ?thesis
        using sd_skip [OF that(1) Some True, of L "sv_handler s"] sd_rotate [OF that(1) Some True, of L _ _ "sv_handler s"] Some
        by (cases "rotate_writer L (backends (px p) ! k)") fastforce+
    qed (use sd_round [OF that(1) Some, of L "sv_handler s"] Some in fastforce)
  qed
  show ?thesis using living_rounds [OF assms] v e by (auto simp: rounds_ok_def)
qed


section \<open>One life\<close>

lemma accepting_alive: "accepting st \<Longrightarrow> alive st"
  by (cases st) simp_all

lemma working_living:
  "working L (sv_handler s) (px p) x \<Longrightarrow> living L s p \<Longrightarrow> accepting (stage p) \<Longrightarrow> living L s (p\<lparr>px := x\<rparr>)"
proof (induction rule: rtranclp_induct)
  case (step x x')
  have "side_step L (sv_handler s) (p\<lparr>px := x\<rparr>) ((p\<lparr>px := x\<rparr>)\<lparr>px := x'\<rparr>)"
    using step by (intro sd_work) (simp_all add: accepting_alive)
  then show ?case using step by (auto intro: ps_side rtranclp.rtrancl_into_rtrancl)
qed simp

lemma living_main: "living L s p \<Longrightarrow> main_step L p p' \<Longrightarrow> living L s p'"
  by (auto intro: ps_main rtranclp.rtrancl_into_rtrancl)

lemma living_side: "living L s p \<Longrightarrow> side_step L (sv_handler s) p p' \<Longrightarrow> living L s p'"
  by (auto intro: ps_side rtranclp.rtrancl_into_rtrancl)

lemma sample_handler: "sv_handler sample_service = plain_handler"
  by (simp add: sample_service_def)

text \<open>An event comes in and is written, the process is asked to end, and ends.\<close>

lemma sample_asked:
  "\<exists>p. living list_libraries sample_service p \<and> asked p \<and> stage p = Waiting \<and> all_answered p \<and>
    length (backends (px p)) = 1 \<and> pool (pq p) = [Idle] \<and> ch (pq p) = [] \<and> phase (pq p) = Running \<and>
    \<not> Queue.closed (pq p) \<and> writer_closes (pq p) = 0 \<and> written (pq p) = [([sample_written], True)]"
proof -
  let ?L = list_libraries and ?h = plain_handler
  obtain x x' x6 where w: "working ?L ?h (exporter_of sample_service) x" "work_step ?L ?h x x'" "working ?L ?h x' x6"
    "length (backends x6) = 1" "list_all (\<lambda>c. \<exists>r. c = Answered r) (conns (sys x6))" "pool (queue_of x6) = [Idle]"
    "ch (queue_of x6) = []" "phase (queue_of x6) = Running" "\<not> Queue.closed (queue_of x6)"
    "writer_closes (queue_of x6) = 0" "written (queue_of x6) = [([sample_written], True)]"
    using sample_work by blast
  have "working ?L ?h (exporter_of sample_service) x6"
    using w(1-3) by (meson rtranclp.rtrancl_into_rtrancl rtranclp_trans)
  then have "living ?L sample_service ((process_of sample_service)\<lparr>px := x6\<rparr>)"
    using working_living [of ?L sample_service "process_of sample_service" x6]
    by (simp add: sample_handler process_of_def)
  then have "living ?L sample_service ((process_of sample_service)\<lparr>px := x6, asked := True\<rparr>)"
    using living_side [OF _ sd_ask] by fastforce
  moreover have "list_all answered (conns (sys x6))"
    by (rule list.pred_mono_strong [OF w(5)]) auto
  ultimately show ?thesis
    using w by (intro exI [of _ "(process_of sample_service)\<lparr>px := x6, asked := True\<rparr>"]) (simp add: process_of_def)
qed

lemma sample_ended:
  "\<exists>p. living list_libraries sample_service p \<and> stage p = Returned True \<and> writer_closes (pq p) = 1 \<and>
    written (pq p) = [([sample_written], True)] \<and> length (backends (px p)) = 1"
proof -
  let ?L = list_libraries and ?s = sample_service
  obtain p where p: "living ?L ?s p" "asked p" "stage p = Waiting" "all_answered p" "length (backends (px p)) = 1"
    "pool (pq p) = [Idle]" "ch (pq p) = []" "phase (pq p) = Running" "\<not> Queue.closed (pq p)"
    "writer_closes (pq p) = 0" "written (pq p) = [([sample_written], True)]"
    using sample_asked by blast
  define p2 where "p2 = p\<lparr>stage := StoppingQueue True\<rparr>"
  have 2: "living ?L ?s p2"
    using living_main [OF living_main [OF p(1) mn_select [OF p(3,2)]] mn_idle] p(4) by (simp add: p2_def)
  define q3 where "q3 = (pq p)\<lparr>closed := True, phase := Draining\<rparr>"
  define p3 where "p3 = p2\<lparr>px := stop_at ?L q3 (px p2)\<rparr>"
  have 3: "living ?L ?s p3"
    using living_main [OF 2 mn_stop, of True q3] st_call [of "pq p"] p by (simp add: p2_def p3_def q3_def)
  have q3: "pq p3 = q3" "length (backends (px p3)) = 1" "stage p3 = StoppingQueue True"
    using p by (simp_all add: p3_def p2_def stop_at_def Let_def q3_def)
  define x4 where "x4 = (px p3)\<lparr>sys := with_queue (q3\<lparr>pool := [Exited]\<rparr>) (sys (px p3))\<rparr>"
  have "work_step ?L plain_handler (px p3) x4"
    using idle_leaves [OF p(6,7), of "px p3" Draining] q3 by (simp add: x4_def q3_def)
  then have 4: "living ?L ?s (p3\<lparr>px := x4\<rparr>)"
    using living_side [OF 3 sd_work, of x4] q3 by (simp add: sample_handler x4_def)
  define q5 where "q5 = (queue_of x4)\<lparr>phase := Done\<rparr>"
  define p5 where "p5 = p3\<lparr>px := stop_at ?L q5 x4\<rparr>"
  have x4: "queue_of x4 = q3\<lparr>pool := [Exited]\<rparr>" "length (backends x4) = 1" using q3 by (simp_all add: x4_def)
  have 5: "living ?L ?s p5"
    using living_main [OF 4 mn_stop, of True q5] st_done [of "queue_of x4"] q3 x4
    by (simp add: p5_def q5_def q3_def workers_done_def)
  have q5: "pq p5 = q5" "length (backends (px p5)) = 1" "stage p5 = StoppingQueue True"
    using q3 x4 by (simp_all add: p5_def stop_at_def Let_def q5_def)
  define q6 where "q6 = q5\<lparr>phase := Stopped, writer_closes := writer_closes q5 + 1\<rparr>"
  define p6 where "p6 = p5\<lparr>px := stop_at ?L q6 (px p5)\<rparr>"
  have 6: "living ?L ?s p6"
    using living_main [OF 5 mn_stop, of True q6] st_close [of q5] q5 by (simp add: p6_def q6_def q5_def)
  have q6: "pq p6 = q6" "length (backends (px p6)) = 1" "stage p6 = StoppingQueue True"
    using q5 by (simp_all add: p6_def stop_at_def Let_def)
  have "living ?L ?s (p6\<lparr>stage := Returned True\<rparr>)"
    using living_main [OF 6 mn_return [OF q6(3)]] q6(1) by (simp add: q6_def)
  then show ?thesis
    using q6 p x4 by (intro exI [of _ "p6\<lparr>stage := Returned True\<rparr>"]) (simp add: q6_def q5_def q3_def)
qed

theorem graceful_shutdown_witness:
  "\<exists>p. living list_libraries sample_service p \<and> stage p = Returned True \<and> ch (pq p) = [] \<and>
    sample_written \<in> set (taken (px p) ! 0)"
proof -
  obtain p where p: "living list_libraries sample_service p" "stage p = Returned True" "writer_closes (pq p) = 1"
    "written (pq p) = [([sample_written], True)]" "length (backends (px p)) = 1"
    using sample_ended by blast
  have "ch (pq p) = [] \<and> list_all (\<lambda>es. mset (confirmed (pq p)) \<subseteq># mset es) (taken (px p))"
    using graceful_shutdown [OF p(1) disjI2 [OF p(2)]] p(3) by blast
  moreover have "length (taken (px p)) = 1"
    using running_ok [OF living_running [OF p(1)]] p(5) by (simp add: progress_ok_def)
  ultimately show ?thesis using p(1,2,4) by (auto simp: confirmed_def list_all_length)
qed

theorem shutdown_returns_witness:
  "\<exists>p p'. living list_libraries sample_service p \<and> main_steps list_libraries plain_handler 1 p p' \<and>
    stage p' = ShuttingDown \<and> (\<exists>p''. main_step list_libraries p' p'')"
proof -
  obtain p where p: "living list_libraries sample_service p" "asked p" "stage p = Waiting"
    using sample_asked by blast
  let ?p = "p\<lparr>stage := ShuttingDown\<rparr>"
  have m: "main_steps list_libraries plain_handler 1 p ?p"
    using ms_main [OF ms_done mn_select [OF p(3,2)]] by simp
  then have "\<exists>p''. main_step list_libraries ?p p''"
    using shutdown_returns [OF p(1,2), of 1 ?p] by (simp add: sample_handler)
  then show ?thesis using p(1) m by (intro exI [of _ p] exI [of _ ?p]) simp
qed

definition log_service :: "(int \<times> field_map) list service" where
  "log_service = sample_service\<lparr>sv_writer := Evtx \<lparr>e_w = [], e_closed = False, e_closeErr = None\<rparr>\<rparr>"

theorem rotation_request_served_witness:
  "\<exists>p. living list_libraries log_service p \<and> \<not> hup p \<and> rotating p = None \<and> visited p = {0} \<and>
    length (backends (px p)) = 1 \<and> {..<length (backends (px p))} \<subseteq> visited p"
proof -
  let ?L = list_libraries and ?s = log_service and ?p = "process_of log_service"
  have b: "backends (px ?p) = [Evtx \<lparr>e_w = [], e_closed = False, e_closeErr = None\<rparr>]"
    by (simp add: process_of_def exporter_of_def log_service_def)
  obtain r w where rw: "rotate_writer ?L (backends (px ?p) ! 0) = Some (r, w)"
    by (cases "rotate_evtx ?L \<lparr>e_w = [], e_closed = False, e_closeErr = None\<rparr>") (simp add: b)
  have a: "alive (stage ?p)" "rotating ?p = None" by (simp_all add: process_of_def)
  define p1 where "p1 = ?p\<lparr>hup := True, visited := {}\<rparr>"
  have 1: "living ?L ?s p1" using living_side [OF rtranclp.rtrancl_refl sd_hup [OF a(1)]] by (simp add: p1_def)
  define p2 where "p2 = p1\<lparr>hup := False, rotating := Some 0\<rparr>"
  have 2: "living ?L ?s p2" using living_side [OF 1 sd_take] a by (simp add: p1_def p2_def)
  define p3 where "p3 = p2\<lparr>px := (px ?p)\<lparr>backends := [w]\<rparr>, rotating := Some 1, visited := {0}\<rparr>"
  have 3: "living ?L ?s p3"
    using living_side [OF 2 sd_rotate, of 0 r w] a rw by (simp add: p1_def p2_def p3_def b)
  have 4: "living ?L ?s (p3\<lparr>rotating := None\<rparr>)"
    using living_side [OF 3 sd_round, of 1] a by (simp add: p1_def p2_def p3_def)
  show ?thesis
    using 4 rotation_request_served [OF 4] by (intro exI [of _ "p3\<lparr>rotating := None\<rparr>"]) (simp add: p3_def p2_def p1_def)
qed

section \<open>Under the Windows service manager\<close>

text \<open>There \<^verbatim>\<open>run\<close> is a goroutine, and the process is over when the manager's \<^verbatim>\<open>Run\<close> returns, which it
  does, as the package documents, once \<^verbatim>\<open>Stop\<close> of the program has returned.  \<open>stopping\<close> says
  that it has.\<close>

record 'g WinProcess =
  run_process :: "'g Process"
  program :: svcProgram
  stopping :: bool
  ended :: "nat option"

definition boot :: "'g service \<Rightarrow> 'g WinProcess" where
  "boot s =
     \<lparr>run_process = process_of s,
      program = svc_Start \<lparr>run_started = False, cancel_set = False, ctx_cancelled = False\<rparr>,
      stopping = False, ended = None\<rparr>"

inductive win_step :: "'g libraries \<Rightarrow> Handler \<Rightarrow> 'g WinProcess \<Rightarrow> 'g WinProcess \<Rightarrow> bool" for L h where
  wi_run: "ended w = None \<Longrightarrow> process_step L h (run_process w) p \<Longrightarrow>
    win_step L h w (w\<lparr>run_process := p, ended := (if stage p = Died then Some 1 else None)\<rparr>)"
| wi_stop: "ended w = None \<Longrightarrow> g = svc_Stop (program w) \<Longrightarrow>
    win_step L h w (w\<lparr>program := g, stopping := True,
      run_process := (run_process w)\<lparr>asked := asked (run_process w) \<or> ctx_cancelled g\<rparr>\<rparr>)"
| wi_end: "ended w = None \<Longrightarrow> stopping w \<Longrightarrow> win_step L h w (w\<lparr>ended := Some 0\<rparr>)"

text \<open>What \<^verbatim>\<open>run\<close> does under the manager is what it does alone.\<close>

interpretation win_view: stepwise_view "win_step L h" "process_step L h" run_process for L h
proof unfold_locales
  fix w w'
  assume "win_step L h w w'"
  then show "run_process w' = run_process w \<or> process_step L h (run_process w) (run_process w')"
  proof (cases rule: win_step.cases)
    case (wi_stop g)
    then show ?thesis
      using sd_ask [of L h "run_process w"] by (cases "ctx_cancelled g") (auto intro: ps_side)
  qed simp_all
qed

lemma win_living: "(win_step L (sv_handler s))\<^sup>*\<^sup>* (boot s) w \<Longrightarrow> living L s (run_process w)"
  using win_view.view_run [of L "sv_handler s" "boot s" w] by (simp add: boot_def)

text \<open>But nothing makes the manager wait for it.  Here an event has been accepted and is in the
  channel, the service is stopped and the process ends with exit code 0: the event is
  neither written nor counted as dropped.\<close>

lemma service_stop_abandons:
  "\<exists>w. (win_step list_libraries plain_handler)\<^sup>*\<^sup>* (boot sample_service) w \<and> ended w = Some 0 \<and>
    ch (pq (run_process w)) = [sample_written] \<and> written (pq (run_process w)) = [] \<and>
    taken (px (run_process w)) = [[]] \<and> stage (run_process w) = Waiting"
proof -
  let ?L = list_libraries and ?h = plain_handler
  obtain y m where y: "working ?L ?h (exporter_of sample_service) ((exporter_of sample_service)\<lparr>sys := y\<rparr>)"
    "queue (srv y) = (started one_worker)\<lparr>ch := [sample_written], accepted := [sample_written], met := m\<rparr>"
    using one_ingested [of ?L] by blast
  define p where "p = (process_of sample_service)\<lparr>px := (exporter_of sample_service)\<lparr>sys := y\<rparr>\<rparr>"
  have "(win_step ?L ?h)\<^sup>*\<^sup>* (boot sample_service) ((boot sample_service)\<lparr>run_process := p'\<rparr>)"
    if "(process_step ?L ?h)\<^sup>*\<^sup>* (process_of sample_service) p'" "stage p' \<noteq> Died" for p'
    using that
  proof (induction rule: rtranclp_induct)
    case base
    then show ?case by (simp add: boot_def)
  next
    case (step p1 p2)
    have d: "stage p1 \<noteq> Died"
    proof
      assume "stage p1 = Died"
      then have "stage p2 = Died"
        using step.hyps(2) by (auto elim!: process_step.cases main_step.cases side_step.cases)
      then show False using step.prems by simp
    qed
    have "win_step ?L ?h ((boot sample_service)\<lparr>run_process := p1\<rparr>) ((boot sample_service)\<lparr>run_process := p2\<rparr>)"
      using wi_run [of "(boot sample_service)\<lparr>run_process := p1\<rparr>" ?L ?h p2] step.hyps(2) step.prems
      by (simp add: boot_def)
    then show ?case using step.IH [OF d] by (rule rtranclp.rtrancl_into_rtrancl [rotated])
  qed
  moreover have "living ?L sample_service p"
    using working_living [of ?L sample_service "process_of sample_service"] y(1)
    by (simp add: p_def sample_handler process_of_def)
  ultimately have r: "(win_step ?L ?h)\<^sup>*\<^sup>* (boot sample_service) ((boot sample_service)\<lparr>run_process := p\<rparr>)"
    by (simp add: sample_handler p_def process_of_def)
  define w1 where "w1 = (boot sample_service)\<lparr>program := svc_Stop (program (boot sample_service)), stopping := True,
    run_process := p\<lparr>asked := True\<rparr>\<rparr>"
  have 1: "win_step ?L ?h ((boot sample_service)\<lparr>run_process := p\<rparr>) w1"
    using wi_stop [of "(boot sample_service)\<lparr>run_process := p\<rparr>" "svc_Stop (program (boot sample_service))" ?L ?h]
    by (simp add: w1_def boot_def svc_Stop_def svc_Start_def)
  have 2: "win_step ?L ?h w1 (w1\<lparr>ended := Some 0\<rparr>)" by (rule wi_end) (simp_all add: w1_def boot_def)
  have "(win_step ?L ?h)\<^sup>*\<^sup>* (boot sample_service) (w1\<lparr>ended := Some 0\<rparr>)"
    using r 1 2 by (meson rtranclp.rtrancl_into_rtrancl)
  then show ?thesis
    using y(2) by (intro exI [of _ "w1\<lparr>ended := Some 0\<rparr>"])
      (simp add: w1_def p_def process_of_def exporter_of_def sample_service_def started_def Start_def New_def)
qed

end
