(* ===== verification/Label_Text.thy ===== *)
theory Label_Text
  imports Cepa_Handler
begin

text \<open>
  Which texts of a payload are valid UTF-8.  Everything \<^verbatim>\<open>encoding/xml\<close> hands out has been
  checked, so the labels the metrics take from a parsed document are valid; a name that was
  base 64 inside the document has not been checked by anyone.
\<close>

section \<open>What the XML decoder hands out\<close>

abbreviation valid_attrs :: "attrs \<Rightarrow> bool" where
  "valid_attrs as \<equiv> \<forall>a \<in> set as. valid_utf8 (snd a)"

fun valid_node :: "xnode \<Rightarrow> bool" where
  "valid_node (Elem q as kids) = (valid_attrs as \<and> (\<forall>n \<in> set kids. valid_node n))"
| "valid_node (Chars t) = valid_utf8 t"

fun valid_token :: "xtoken \<Rightarrow> bool" where
  "valid_token (StartTok n as selfc) = valid_attrs as"
| "valid_token (TextTok t) = valid_utf8 t"
| "valid_token tok = True"

lemma read_text_valid: "read_text q cdata s = Some (t, r) \<Longrightarrow> valid_utf8 t"
  by (auto simp: read_text_def xml_chars_def split: option.splits if_splits)

lemma read_attrs_valid:
  "read_attrs nt acc s = Some ((as, selfc), r) \<Longrightarrow> valid_attrs acc \<Longrightarrow> valid_attrs as"
proof (induction nt acc s rule: read_attrs.induct)
  case (1 nt acc s0)
  let ?s = "skip_space s0"
  show ?case
  proof (cases "starts_with ''/'' ?s \<or> starts_with ''>'' ?s")
    case True
    then show ?thesis using "1.prems"
      by (subst (asm) read_attrs.simps) (auto simp: Let_def split: if_splits)
  next
    case False
    then obtain n r1 e r2 quote r3 v r4 where
      q: "read_qname nt ?s = Some (n, r1)" "skip_space r1 = e # r2" "skip_space r2 = quote # r3"
      "read_text (Some quote) False r3 = Some (v, r4)" "e = CHR ''=''"
      "quote = CHR 0x22 \<or> quote = CHR 0x27" "read_attrs nt ((n, v) # acc) r4 = Some ((as, selfc), r)"
      using "1.prems"(1) by (subst (asm) read_attrs.simps)
        (auto simp: Let_def split: option.splits list.splits if_splits)
    have "valid_attrs ((n, v) # acc)" using "1.prems"(2) read_text_valid [OF q(4)] by simp
    then show ?thesis
      using "1.IH" [OF refl _ _ q(1) refl q(2) _ q(3) _ q(4) refl q(7)] False q(5,6) by auto
  qed
qed

lemma raw_token_valid: "raw_token nt s = Some (tok, r) \<Longrightarrow> valid_token tok"
  by (auto simp: raw_token_def read_pi_def read_comment_def Let_def
      split: list.splits if_splits option.splits
      dest: read_text_valid dest!: read_attrs_valid)

lemma add_child_valid: "fst (add_child n e) = fst e"
  by (simp add: add_child_def split: prod.splits)

abbreviation valid_open :: "open_elem \<Rightarrow> bool" where
  "valid_open e \<equiv> valid_node (close_elem e)"

lemma valid_add_child: "valid_open e \<Longrightarrow> valid_node n \<Longrightarrow> valid_open (add_child n e)"
  by (cases e) (simp add: close_elem_def add_child_def)

lemma read_tree_valid:
  "read_tree nt cur outer s = Some (n, r) \<Longrightarrow> valid_open cur \<Longrightarrow> \<forall>e \<in> set outer. valid_open e \<Longrightarrow> valid_node n"
proof (induction nt cur outer s rule: read_tree.induct)
  case (1 nt cur outer s)
  obtain tok s1 where t: "raw_token nt s = Some (tok, s1)"
    using "1.prems"(1) by (subst (asm) read_tree.simps) (auto split: option.splits)
  note v = raw_token_valid [OF t] and u = "1.prems"(1) [unfolded read_tree.simps [of nt cur outer s] t]
  show ?case
  proof (cases tok)
    case (StartTok q as selfc)
    then have "valid_open (q, as, [])" "valid_node (Elem q as [])" using v by (simp_all add: close_elem_def)
    then show ?thesis
      using "1.prems"(2,3) "1.IH"(1,2) [OF t refl StartTok] u StartTok
      by (auto simp: valid_add_child simp del: valid_node.simps split: if_splits)
  next
    case (EndTok q)
    then show ?thesis
      using "1.prems"(2,3) "1.IH"(3) [OF t refl EndTok] u
      by (auto simp: valid_add_child split: if_splits list.splits)
  next
    case (TextTok x)
    then show ?thesis
      using "1.prems"(2,3) "1.IH"(4) [OF t refl TextTok] u v by (auto simp: valid_add_child)
  next
    case OtherTok
    then show ?thesis using "1.prems"(2,3) "1.IH"(5) [OF t refl OtherTok] u by auto
  qed
qed

lemma read_root_valid: "read_root nt s = Some (n, r) \<Longrightarrow> valid_node n"
proof (induction nt s rule: read_root.induct)
  case (1 nt s)
  obtain tok s1 where t: "raw_token nt s = Some (tok, s1)"
    using "1.prems" by (subst (asm) read_root.simps) (auto split: option.splits)
  note v = raw_token_valid [OF t] and u = "1.prems" [unfolded read_root.simps [of nt s] t]
  show ?case
  proof (cases tok)
    case (StartTok q as selfc)
    then show ?thesis using u v by (auto simp: close_elem_def split: if_splits dest: read_tree_valid)
  next
    case (TextTok x)
    then show ?thesis using "1.IH"(1) [OF t refl TextTok] u by simp
  next
    case OtherTok
    then show ?thesis using "1.IH"(2) [OF t refl OtherTok] u by simp
  qed (use u in simp)
qed

lemma Unmarshal_valid: "Unmarshal nt name s = Inr (as, kids) \<Longrightarrow> \<forall>n \<in> set kids. valid_node n"
  by (auto simp: Unmarshal_def split: option.splits xnode.splits if_splits dest!: read_root_valid)

lemma elements_valid:
  "\<forall>n \<in> set kids. valid_node n \<Longrightarrow> (as, c) \<in> set (elements name kids) \<Longrightarrow> \<forall>n \<in> set c. valid_node n"
  by (fastforce simp: elements_def split: xnode.splits if_splits)

lemma node_text_valid: "\<forall>n \<in> set kids. valid_node n \<Longrightarrow> valid_utf8 (node_text kids)"
  by (induction kids) (auto simp: node_text_def valid_utf8_append split: xnode.splits)

lemma string_field_valid:
  assumes "\<forall>n \<in> set kids. valid_node n" "valid_utf8 cur"
  shows "valid_utf8 (string_field name kids cur)"
proof -
  have "valid_utf8 (foldl (\<lambda>v (as, c). node_text c) cur es)"
    if "\<forall>e \<in> set es. \<forall>n \<in> set (snd e). valid_node n" for es
    using that assms(2) by (induction es arbitrary: cur) (auto simp: node_text_valid)
  then show ?thesis using elements_valid [OF assms(1)] unfolding string_field_def by fastforce
qed

section \<open>The labels of an event\<close>

definition labels_valid :: "CEPAEvent \<Rightarrow> bool" where
  "labels_valid e \<longleftrightarrow> valid_utf8 (EventType e) \<and> valid_utf8 (Protocol e)"

lemma ascii_valid: "list_all (\<lambda>c. byte_val c < 0x80) s \<Longrightarrow> valid_utf8 s"
  by (intro valid_utf8_all_ascii) (simp add: list_all_iff)

lemma number_valid: "valid_utf8 (Itoa n)" "valid_utf8 (FormatUint10 k)"
  using format_nat_nonspace [of 10] ascii_valid
  by (auto simp: Itoa_def FormatUint10_def list_all_iff ascii_nonspace_def intro!: ascii_valid)

lemma names_valid: "valid_utf8 (ceeEventTypeName x)" "valid_utf8 (onefsEventTypeName x)" "valid_utf8 (ceeProtocolName x)"
proof -
  have t: "map_of ceeEventType k = Some name \<Longrightarrow> valid_utf8 name"
    "map_of onefsEventType i = Some name \<Longrightarrow> valid_utf8 name"
    "map_of ceeProtocolNames k = Some name \<Longrightarrow> valid_utf8 name" for k i name
    by (drule map_of_SomeD, unfold ceeEventType_def onefsEventType_def ceeProtocolNames_def list.set
        insert_iff prod.inject empty_iff, elim disjE conjE FalseE; simp)+
  show "valid_utf8 (ceeEventTypeName x)" "valid_utf8 (onefsEventTypeName x)" "valid_utf8 (ceeProtocolName x)"
    using t number_valid
    by (auto simp: ceeEventTypeName_def onefsEventTypeName_def ceeProtocolName_def unmappedCEEPrefix_def
        unmappedPrefix_def split: sum.splits option.splits prod.splits)
qed

text \<open>Whatever the dialect and whatever the document, the type and the protocol of a parsed event
  are valid texts.\<close>

lemma parsed_labels:
  "parseDecoded nt x t = Inr es \<Longrightarrow> \<forall>e \<in> set es. labels_valid e"
  "parseCheckEventRequestDecoded nt x t = Inr es \<Longrightarrow> \<forall>e \<in> set es. labels_valid e"
  "parseOneFSEventDecoded nt x t = Inr es \<Longrightarrow> \<forall>e \<in> set es. labels_valid e"
proof -
  have r: "valid_utf8 (r_EventType (unmarshal_rawEvent kids))" if "\<forall>n \<in> set kids. valid_node n" for kids
    unfolding unmarshal_rawEvent_def rawEvent.select_convs by (rule string_field_valid [OF that valid_utf8_Nil])
  have b: "valid_utf8 (r_EventType raw)"
    if raws: "unmarshal_rawBatch nt x = Inr raws" "raw \<in> set raws" for raws raw
  proof -
    obtain as kids where u: "Unmarshal nt ''EventBatch'' x = Inr (as, kids)"
      "raws = map (\<lambda>(as', kids'). unmarshal_rawEvent kids') (elements ''CEEEvent'' kids)"
      using raws(1) by (auto simp: unmarshal_rawBatch_def split: sum.splits)
    then obtain as' kids' where k: "(as', kids') \<in> set (elements ''CEEEvent'' kids)" "raw = unmarshal_rawEvent kids'"
      using raws(2) by auto
    show ?thesis unfolding k(2) by (rule r [OF elements_valid [OF Unmarshal_valid [OF u(1)] k(1)]])
  qed
  have s: "valid_utf8 (r_EventType raw)" if raw: "unmarshal_rawSingle nt x = Inr raw" for raw
  proof -
    obtain as kids where u: "Unmarshal nt ''CEEEvent'' x = Inr (as, kids)" "raw = unmarshal_rawEvent kids"
      using raw by (auto simp: unmarshal_rawSingle_def split: sum.splits)
    show ?thesis unfolding u(2) by (rule r [OF Unmarshal_valid [OF u(1)]])
  qed
  have c: "labels_valid (convert raw t)" if "valid_utf8 (r_EventType raw)" for raw
    using that by (simp add: labels_valid_def convert_def names_valid)
  show "parseDecoded nt x t = Inr es \<Longrightarrow> \<forall>e \<in> set es. labels_valid e"
    using c [OF b] c [OF s] by (auto simp: parseDecoded_def convertAll_def Let_def split: sum.splits if_splits)
  show "parseCheckEventRequestDecoded nt x t = Inr es \<Longrightarrow> \<forall>e \<in> set es. labels_valid e"
    by (auto simp: parseCheckEventRequestDecoded_def convertCheckEvent_def labels_valid_def names_valid Let_def
        split: sum.splits if_splits prod.splits)
  show "parseOneFSEventDecoded nt x t = Inr es \<Longrightarrow> \<forall>e \<in> set es. labels_valid e"
    by (auto simp: parseOneFSEventDecoded_def labels_valid_def names_valid Let_def
        split: sum.splits prod.splits option.splits)
qed

section \<open>Typed events\<close>

text \<open>The counters of an event are 64-bit integers, whatever the document says.\<close>

definition int64 :: "int \<Rightarrow> bool" where
  "int64 n \<longleftrightarrow> - (2 ^ 63) \<le> n \<and> n < 2 ^ 63"

definition cepa_typed :: "CEPAEvent \<Rightarrow> bool" where
  "cepa_typed e \<longleftrightarrow> labels_valid e \<and>
     int64 (BytesRead e) \<and> int64 (BytesWritten e) \<and> int64 (NumberOfReads e) \<and> int64 (NumberOfWrites e)"

lemma parseInt64_int64 [simp]: "int64 (parseInt64 s)"
  using ParseInt_bounds [of "TrimSpace s" 10] by (simp add: int64_def parseInt64_def)

lemma parsed_typed:
  "parseDecoded nt x t = Inr es \<Longrightarrow> \<forall>e \<in> set es. cepa_typed e"
  "parseCheckEventRequestDecoded nt x t = Inr es \<Longrightarrow> \<forall>e \<in> set es. cepa_typed e"
  "parseOneFSEventDecoded nt x t = Inr es \<Longrightarrow> \<forall>e \<in> set es. cepa_typed e"
proof -
  have z: "int64 0" by (simp add: int64_def)
  show "\<forall>e \<in> set es. cepa_typed e" if "parseDecoded nt x t = Inr es"
    using parsed_labels(1) [OF that] that
    by (auto simp: cepa_typed_def parseDecoded_def convertAll_def convert_def Let_def split: sum.splits if_splits)
  show "\<forall>e \<in> set es. cepa_typed e" if "parseCheckEventRequestDecoded nt x t = Inr es"
    using parsed_labels(2) [OF that] that z
    by (auto simp: cepa_typed_def parseCheckEventRequestDecoded_def convertCheckEvent_def Let_def
        split: sum.splits if_splits prod.splits)
  show "\<forall>e \<in> set es. cepa_typed e" if "parseOneFSEventDecoded nt x t = Inr es"
    using parsed_labels(3) [OF that] that
    by (auto simp: cepa_typed_def parseOneFSEventDecoded_def Let_def split: sum.splits prod.splits option.splits)
qed

text \<open>What a handler goes on to enqueue comes from one of the parsers.\<close>

lemma answered_typed: "\<forall>e \<in> set (fst (snd (answer_body h env r body c s))). cepa_typed e"
proof -
  have "\<forall>e \<in> set (fst (snd (answer_check_file env p body d s))). cepa_typed e"
    "\<forall>e \<in> set (fst (snd (answer_check_event env body d s))). cepa_typed e"
    "\<forall>e \<in> set (fst (snd (answer_vcaps env d s))). cepa_typed e" for p d
    by (simp_all add: answer_check_file_def answer_check_event_def answer_vcaps_def Let_def parsed_typed
        split: sum.split)
  then show ?thesis
    by (simp add: answer_body_def answer_register_def answer_heartbeat_def split: sum.split Dialect.split prod.split)
qed

lemma slot_typed: "\<forall>e \<in> set (fst (snd (serve_with_slot h env r probe c s))). cepa_typed e"
  using answered_typed by (auto simp: serve_with_slot_def split: option.splits sum.splits prod.splits)

end
