(* ===== verification/Typed_Events.thy ===== *)
theory Typed_Events
  imports Pipeline Label_Text
begin

text \<open>
  A typing invariant of the running program: whatever a document says, the events on their
  way from a parser to a target have the shape the outputs rely on.  A field of a record
  that is an integer in Go stays one of its width, the identifier and the access of an
  event fit together, and the fixed fields have their fixed values.
\<close>

section \<open>The types\<close>

definition event_typed :: "WindowsEvent \<Rightarrow> bool" where
  "event_typed w \<longleftrightarrow>
     (w_EventID w, w_AccessMask w) \<in> allowed_access \<and>
     w_ProviderName w = DefaultProviderName \<and> w_Channel w = DefaultChannel \<and> w_ProcessID w = 4 \<and>
     w_ObjectType w \<in> {''File'', ''Directory''} \<and> valid_utf8 (w_CEPAEventType w) \<and>
     int64 (w_BytesRead w) \<and> int64 (w_BytesWritten w) \<and> int64 (w_NumberOfReads w) \<and> int64 (w_NumberOfWrites w)"

lemma Map_typed: "cepa_typed e \<Longrightarrow> event_typed (Map h e n)"
  using Map_consistent [of h e n]
  by (simp add: event_typed_def cepa_typed_def labels_valid_def allowed_access_def)
    (simp add: Map_def Let_def ProviderName_def DefaultChannel_def objectType_def)

fun conn_typed :: "conn \<Rightarrow> bool" where
  "conn_typed (Enqueueing env r holds resp es) = list_all cepa_typed es"
| "conn_typed c = True"

definition system_typed :: "System \<Rightarrow> bool" where
  "system_typed y \<longleftrightarrow> list_all conn_typed (conns y) \<and> list_all event_typed (accepted (queue (srv y)))"

definition exporter_typed :: "'g Exporter \<Rightarrow> bool" where
  "exporter_typed x \<longleftrightarrow> system_typed (sys x) \<and> list_all (list_all event_typed) (taken x)"

section \<open>Every step keeps them\<close>

lemma start_conn_typed: "conn_typed (fst (start_conn h env r s))"
proof (cases "serve_start env r s")
  case (Pair st s1)
  show ?thesis
  proof (cases st)
    case (Live body c)
    then show ?thesis using Pair answered_typed [of h env r body c s1]
      by (auto simp: start_conn_def list_all_iff split: prod.splits)
  qed (use Pair in \<open>simp_all add: start_conn_def\<close>)
qed

lemma slot_conn_typed: "conn_typed (fst (slot_conn h env r probe c s))"
  using slot_typed [of h env r probe c s] by (auto simp: slot_conn_def list_all_iff split: prod.splits)

lemma accepted_frame: "\<exists>m. q' = q\<lparr>met := m\<rparr> \<Longrightarrow> accepted q' = accepted (q :: Queue)"
  by auto

lemma typed_update: "list_all P xs \<Longrightarrow> P x \<Longrightarrow> list_all P (xs[i := x])"
  using set_update_subset_insert [of xs i x] by (auto simp: list_all_iff)

lemma system_step_typed:
  assumes "system_step h y y'" "system_typed y"
  shows "system_typed y'"
  using assms(1)
proof (cases rule: system_step.cases)
  case (sy_start i env r)
  then show ?thesis using assms(2) start_conn_typed accepted_frame [OF start_conn_frame]
    by (simp add: system_typed_def typed_update)
next
  case (sy_slot i env r probe c waited s)
  then have "queue s = queue (srv y)" by (simp add: acquireSlot_now_Some)
  then show ?thesis using sy_slot assms(2) slot_conn_typed accepted_frame [OF slot_conn_frame, of h env r probe c s]
    by (simp add: system_typed_def typed_update)
next
  case (sy_enqueue i env r holds resp e es)
  have "conn_typed (conns y ! i)" using assms(2) sy_enqueue(2) by (simp add: system_typed_def list_all_length)
  then have t: "list_all cepa_typed (e # es)" using sy_enqueue(3) by simp
  have "list_all event_typed (accepted (snd (Enqueue cfg w q)))"
    if "list_all event_typed (accepted q)" "event_typed w" for cfg w q
    using that by (simp add: Enqueue_def count_dropped_def)
  then have "list_all event_typed (accepted (queue (enqueue_one h env r e (srv y))))"
    using assms(2) Map_typed t by (simp add: enqueue_one_def Let_def system_typed_def update_met_def)
  then show ?thesis using sy_enqueue(1) assms(2) t by (simp add: system_typed_def typed_update)
next
  case (sy_worker j q')
  then show ?thesis using assms(2) worker_step_keeps [OF sy_worker(2)] by (simp add: system_typed_def)
qed (use assms(2) in \<open>simp_all add: system_typed_def typed_update count_throttled_def update_met_def releaseSlot_def\<close>)

text \<open>A worker's batch comes from what the queue has accepted.\<close>

lemma held_accepted:
  assumes "flow_ok q" "w \<in> set (pool q)"
  shows "set (held w) \<subseteq> set (accepted q)"
proof
  fix e assume "e \<in> set (held w)"
  then have "0 < count_list (held w) e" by (simp add: count_list_0_iff neq0_conv [symmetric] del: neq0_conv)
  also have "\<dots> \<le> sum_list (map (\<lambda>w. count_list (held w) e) (pool q))"
    using member_le_sum_list [of "count_list (held w) e"] assms(2) by simp
  also have "\<dots> \<le> count_list (accepted q) e" using assms(1) by (simp add: flow_ok_def)
  finally show "e \<in> set (accepted q)" using count_list_0_iff [of "accepted q" e] by force
qed

lemma writing_typed:
  assumes "flow_ok (queue_of x)" "exporter_typed x" "i < length (pool (queue_of x))"
    "pool (queue_of x) ! i = Writing b mr"
  shows "list_all event_typed b"
  using held_accepted [OF assms(1) nth_mem [OF assms(3)]] assms(2,4)
  by (auto simp: exporter_typed_def system_typed_def list_all_iff)

lemma after_call_typed:
  assumes "exporter_typed x" "list_all event_typed es"
  shows "exporter_typed (after_call i k p es res x)"
proof -
  have "list_all event_typed (taken x ! k)" if "k < length (taken x)"
    using assms(1) that by (simp add: exporter_typed_def list_all_length)
  then have "list_all (list_all event_typed) ((taken x)[k := taken x ! k @ (if r = None then es else [])])" for r :: "write_error option"
    using assms by (cases "k < length (taken x)") (simp_all add: exporter_typed_def typed_update list_update_beyond)
  then show ?thesis using assms(1)
    by (cases res) (simp add: exporter_typed_def system_typed_def after_call_def)
qed

lemma exporter_step_typed:
  assumes "exporter_step L h x x'" "exporter_typed x" "flow_ok (queue_of x)"
  shows "exporter_typed x'"
  using assms(1)
proof (cases rule: exporter_step_cases)
  case (ex_system y)
  then show ?thesis using system_step_typed assms(2) by (simp add: exporter_typed_def)
next
  case (ex_batch i b mr k j ok)
  then show ?thesis
    using after_call_typed [OF assms(2)] writing_typed [OF assms(3,2)] by (simp add: call_batch_def)
next
  case (ex_event i b mr k j ok)
  have "list_all event_typed b" using writing_typed [OF assms(3,2) ex_event(2,3)] .
  then have "list_all event_typed [b ! j]" using ex_event(7) by (simp add: list_all_length)
  then show ?thesis using after_call_typed [OF assms(2)] ex_event(1) by (simp add: call_event_def)
next
  case (ex_finish i b mr k j ok now)
  then show ?thesis using assms(2)
    by (simp add: finish_batch_def exporter_typed_def system_typed_def finish_write_def Let_def)
next
  case (ex_stop q)
  then show ?thesis using assms(2) stop_step_keeps [OF ex_stop(2)]
    by (simp add: stop_at_def exporter_typed_def system_typed_def Let_def)
qed (use assms(2) in \<open>simp_all add: exporter_typed_def\<close>)

interpretation typed_runs: invariant "exporter_step L (sv_handler s)"
  "\<lambda>x. system_ok (sv_handler s) (sys x) \<and> exporter_typed x" "exporter_of s" for L s
proof unfold_locales
  show "system_ok (sv_handler s) (sys (exporter_of s)) \<and> exporter_typed (exporter_of s)"
    using exporter_runs.starts [of s]
    by (simp add: exporter_typed_def system_typed_def exporter_of_def initial_def new_server_def started_def
        Start_def New_def list_all_iff)
next
  fix x y
  assume a: "exporter_step L (sv_handler s) x y" "system_ok (sv_handler s) (sys x) \<and> exporter_typed x"
  then have "flow_ok (queue_of x)" by (simp add: system_ok_def queue_ok_def)
  with a show "system_ok (sv_handler s) (sys y) \<and> exporter_typed y"
    using exporter_step_ok exporter_step_typed by blast
qed

section \<open>Property\<close>

text \<open>C12: Whatever is sent to the exporter, every event in it is well typed.  In every reachable
  state of the running program each event in the channel, in the hands of a worker or taken
  by a target has one of the four audit identifiers with an access that goes with it, the
  fixed provider, channel and process, an object type, a valid text as its CEPA type, and
  counters that fit 64 bits.\<close>

theorem pipeline_events_typed:
  assumes "running L s x"
  shows "list_all event_typed (ch (queue_of x)) \<and>
    list_all (\<lambda>w. list_all event_typed (held w)) (pool (queue_of x)) \<and>
    list_all (\<lambda>(b, ok). list_all event_typed b) (written (queue_of x)) \<and>
    list_all (list_all event_typed) (taken x)"
proof -
  have f: "flow_ok (queue_of x')" if "running L s x'" for x'
    using running_ok [OF that] by (simp add: system_ok_def queue_ok_def)
  have t: "exporter_typed x"
    using typed_runs.reached [OF assms] by simp
  have a: "e \<in> set (accepted (queue_of x)) \<Longrightarrow> event_typed e" for e
    using t by (simp add: exporter_typed_def system_typed_def list_all_iff)
  have c: "e \<in> set (accepted (queue_of x))"
    if "0 < count_list (ch (queue_of x)) e + count_list (concat (map fst (written (queue_of x)))) e" for e
    using that f [OF assms] count_list_0_iff [of "accepted (queue_of x)" e] unfolding flow_ok_def by fastforce
  have "e \<in> set (ch (queue_of x)) \<or> e \<in> set (concat (map fst (written (queue_of x)))) \<Longrightarrow> event_typed e" for e
    using c a count_list_0_iff by (metis add_gr_0 gr0I)
  then have "list_all event_typed (ch (queue_of x))" "list_all (\<lambda>(b, ok). list_all event_typed b) (written (queue_of x))"
    by (fastforce simp: list_all_iff)+
  moreover have "list_all (\<lambda>w. list_all event_typed (held w)) (pool (queue_of x))"
    using held_accepted [OF f [OF assms]] a by (auto simp: list_all_iff)
  ultimately show ?thesis using t by (simp add: exporter_typed_def)
qed

theorem pipeline_events_typed_witness:
  "\<exists>x. running list_libraries sample_service x \<and> taken x = [[sample_written]] \<and>
    list_all event_typed [sample_written] \<and> int64 (w_BytesRead sample_written)"
proof -
  obtain x x' where r: "running list_libraries sample_service x" "exporter_step list_libraries plain_handler x x'"
    "taken x' = [[sample_written]]"
    using sample_run by blast
  have r': "running list_libraries sample_service x'"
    using r(1,2) by (simp add: sample_service_def)
  have "list_all event_typed [sample_written]" using pipeline_events_typed [OF r'] r(3) by simp
  then show ?thesis using r' r(3) by (auto simp: event_typed_def)
qed

end
