(* ===== verification/Prometheus.thy ===== *)
theory Prometheus
  imports Serving Go_Float Label_Text
begin

text \<open>
  The scrape endpoint of \<^verbatim>\<open>pkg/prometheus/handler.go\<close>: the registered series, the collector of
  the labelled ones, and what a scrape gathers from the metrics store.  The registry and
  its text format are a third-party package; it refuses a scrape in which a sample occurs
  twice, and building a sample with the wrong number of label values or a value that is
  not UTF-8 is a panic.  The theorem here says when a scrape succeeds.
\<close>

section \<open>Samples\<close>

datatype metric_kind = CounterValue | GaugeValue

record desc =
  d_name :: string
  d_labels :: "string list"

record sample =
  sa_name :: string
  sa_kind :: metric_kind
  sa_value :: int
  sa_labels :: "(string \<times> string) list"

text \<open>\<^verbatim>\<open>float64(n)\<close> of a 64-bit integer, which is again a whole number.\<close>

definition float64 :: "int \<Rightarrow> int" where
  "float64 n = (case fraction_of (round_double (nat \<bar>n\<bar>) 1) of (a, b) \<Rightarrow> sgn n * int (a div b))"

section \<open>The registered series\<close>

definition scalar :: "string \<Rightarrow> metric_kind \<Rightarrow> int \<Rightarrow> sample" where
  "scalar name k v = \<lparr>sa_name = name, sa_kind = k, sa_value = float64 v, sa_labels = []\<rparr>"

definition newRegistry :: "Store \<Rightarrow> sample list" where
  "newRegistry s =
     [scalar ''cee_events_received_total'' CounterValue (EventsReceivedTotal s),
      scalar ''cee_events_dropped_total'' CounterValue (EventsDroppedTotal s),
      scalar ''cee_writer_errors_total'' CounterValue (WriterErrorsTotal s),
      scalar ''cee_writer_batches_total'' CounterValue (WriterBatchesTotal s),
      scalar ''cee_writer_batch_errors_total'' CounterValue (WriterBatchErrorsTotal s),
      scalar ''cee_queue_depth'' GaugeValue (queueDepth s),
      scalar ''cee_events_written_total'' CounterValue (EventsWrittenTotal s),
      scalar ''cee_last_fsync_unix_seconds'' GaugeValue (LastFsyncUnix s),
      scalar ''cee_last_event_unix_seconds'' GaugeValue (LastEventUnix s),
      scalar ''cee_events_truncated_total'' CounterValue (EventsTruncatedTotal s),
      scalar ''cee_cepa_peers_dropped_total'' CounterValue (peersDropped s),
      scalar ''cee_event_labels_dropped_total'' CounterValue (eventLabelsDropped s),
      scalar ''cee_requests_throttled_total'' CounterValue (RequestsThrottledTotal s)]"

section \<open>The collector\<close>

definition cepaLastRequestDesc :: desc where
  "cepaLastRequestDesc = \<lparr>d_name = ''cee_cepa_last_request_unix_seconds'', d_labels = [''remote'']\<rparr>"

definition cepaRegistrationsDesc :: desc where
  "cepaRegistrationsDesc = \<lparr>d_name = ''cee_cepa_registrations_total'', d_labels = [''remote'']\<rparr>"

definition eventsByTypeDesc :: desc where
  "eventsByTypeDesc = \<lparr>d_name = ''cee_events_by_type_total'', d_labels = [''event_type'', ''protocol'']\<rparr>"

definition eventsByServerDesc :: desc where
  "eventsByServerDesc = \<lparr>d_name = ''cee_events_by_server_total'', d_labels = [''server'']\<rparr>"

definition cepaHeartbeatsDesc :: desc where
  "cepaHeartbeatsDesc = \<lparr>d_name = ''cee_cepa_heartbeats_total'', d_labels = [''remote'']\<rparr>"

text \<open>\<^verbatim>\<open>MustNewConstMetric\<close> belongs to the library and is a parameter \<open>must\<close>; \<open>None\<close> is its panic.\<close>

type_synonym metric_maker = "desc \<Rightarrow> metric_kind \<Rightarrow> int \<Rightarrow> string list \<Rightarrow> sample option"

definition Describe :: "desc list" where
  "Describe = [cepaLastRequestDesc, cepaRegistrationsDesc, cepaHeartbeatsDesc, eventsByTypeDesc, eventsByServerDesc]"

definition Collect :: "metric_maker \<Rightarrow> Store \<Rightarrow> sample option list" where
  "Collect must s =
     concat (map (\<lambda>(host, p).
       [must cepaLastRequestDesc GaugeValue (float64 (lastRequestUnix p)) [host],
        must cepaRegistrationsDesc CounterValue (float64 (registrations p)) [host],
        must cepaHeartbeatsDesc CounterValue (float64 (heartbeats p)) [host]]) (PeerSnapshot s)) @
     map (\<lambda>(t, p, n). must eventsByTypeDesc CounterValue (float64 n) [t, p]) (EventTypeSnapshot s) @
     map (\<lambda>(server, n). must eventsByServerDesc CounterValue (float64 n) [server]) (EventServerSnapshot s)"

text \<open>What the library documents: a panic over a wrong number of label values or one that is not
  valid UTF-8, otherwise the sample.\<close>

definition const_metric :: metric_maker where
  "const_metric d k v labels =
     (if length labels = length (d_labels d) \<and> list_all valid_utf8 labels
      then Some \<lparr>sa_name = d_name d, sa_kind = k, sa_value = v, sa_labels = zip (d_labels d) labels\<rparr>
      else None)"

definition checks_labels :: "metric_maker \<Rightarrow> bool" where
  "checks_labels must \<longleftrightarrow> (\<forall>d k v labels.
     (length labels = length (d_labels d) \<and> list_all valid_utf8 labels \<longrightarrow>
       must d k v labels = Some \<lparr>sa_name = d_name d, sa_kind = k, sa_value = v, sa_labels = zip (d_labels d) labels\<rparr>) \<and>
     (\<not> (length labels = length (d_labels d) \<and> list_all valid_utf8 labels) \<longrightarrow> must d k v labels = None))"

lemma checks_labels_only: "checks_labels must \<longleftrightarrow> must = const_metric"
  by (auto simp: checks_labels_def const_metric_def fun_eq_iff)

text \<open>The build information carries its two texts as constant labels, which the library checks
  when the collector is registered.\<close>

definition NewMetricsHandlerWithBuildInfo :: "metric_maker \<Rightarrow> string \<Rightarrow> string \<Rightarrow> Store \<Rightarrow> sample option list" where
  "NewMetricsHandlerWithBuildInfo must version goVersion s =
     map Some (newRegistry s) @ Collect must s @
     [if valid_utf8 version \<and> valid_utf8 goVersion
      then Some \<lparr>sa_name = ''cee_build_info'', sa_kind = GaugeValue, sa_value = 1,
        sa_labels = [(''version'', version), (''go_version'', goVersion)]\<rparr>
      else None]"

text \<open>The identity of a sample.\<close>

definition ident :: "sample option \<Rightarrow> string \<times> (string \<times> string) list" where
  "ident x = (case x of None \<Rightarrow> ([], []) | Some sa \<Rightarrow> (sa_name sa, sa_labels sa))"

section \<open>The tables behind it\<close>

definition labels_ok :: "Store \<Rightarrow> bool" where
  "labels_ok s \<longleftrightarrow>
     (\<forall>k \<in> fst ` set (eventsByType s). valid_utf8 (key_EventType k) \<and> valid_utf8 (key_Protocol k)) \<and>
     (\<forall>h \<in> fst ` set (peers s). valid_utf8 h)"

definition tables_ok :: "Store \<Rightarrow> bool" where
  "tables_ok s \<longleftrightarrow> breakdown_ok s \<and> peers_ok s \<and> labels_ok s"

named_theorems tables_intros \<open>the metrics operations keep the tables well formed\<close>

lemma tables_new [tables_intros]: "tables_ok new_store"
  by (simp add: tables_ok_def breakdown_ok_def peers_ok_def labels_ok_def new_store_def)

lemma bump_keys: "fst ` set (fst (bumpLabel k m)) \<subseteq> insert k (fst ` set m)"
  by (auto simp: bumpLabel_def add_count_def dom_update split: option.splits)

lemma tables_event:
  assumes "tables_ok s" "valid_utf8 t" "valid_utf8 p"
  shows "tables_ok (RecordEvent t p v s)"
proof -
  let ?k = "\<lparr>key_EventType = t, key_Protocol = p\<rparr>"
  have "eventsByType (RecordEvent t p v s) = fst (bumpLabel ?k (eventsByType s))"
    "peers (RecordEvent t p v s) = peers s"
    by (simp_all add: RecordEvent_def recordBreakdown_slow slow_breakdown_def case_prod_beta)
  then have "labels_ok (RecordEvent t p v s)"
    using assms bump_keys [of ?k "eventsByType s"] unfolding tables_ok_def labels_ok_def by fastforce
  then show ?thesis
    using assms(1) slow_breakdown_counts(1) [of s]
    by (auto simp: tables_ok_def RecordEvent_def recordBreakdown_slow)
      (simp add: peers_ok_def slow_breakdown_def case_prod_beta)
qed

lemma peers_only:
  "breakdown_ok (stamp_peer h u s) = breakdown_ok s" "breakdown_ok (create_peer h u s) = breakdown_ok s"
  "breakdown_ok (RecordPeerRegistration h s) = breakdown_ok s"
  "breakdown_ok (RecordPeerHeartbeat h s) = breakdown_ok s"
  by (simp_all add: breakdown_ok_def stamp_peer_def create_peer_def RecordPeerRegistration_def
      RecordPeerHeartbeat_def split: option.split)

lemma labels_update:
  "labels_ok s \<Longrightarrow> valid_utf8 h \<Longrightarrow> labels_ok (s\<lparr>peers := AList.update h p (peers s)\<rparr>)"
  "labels_ok s \<Longrightarrow> labels_ok (s\<lparr>peersDropped := n\<rparr>)"
  by (simp_all add: labels_ok_def dom_update)

lemma known_label: "labels_ok s \<Longrightarrow> map_of (peers s) h = Some p \<Longrightarrow> valid_utf8 h"
  by (force simp: labels_ok_def dest: map_of_SomeD)

lemma peer_labels:
  "labels_ok s \<Longrightarrow> valid_utf8 h \<Longrightarrow> labels_ok (RecordPeerRequestAt h t s)"
  "labels_ok s \<Longrightarrow> labels_ok (RecordPeerRegistration h s)"
  "labels_ok s \<Longrightarrow> labels_ok (RecordPeerHeartbeat h s)"
  by (simp_all add: RecordPeerRequestAt_def stamp_peer_def create_peer_def RecordPeerRegistration_def
      RecordPeerHeartbeat_def labels_update known_label split: option.split)

lemma tables_peer [tables_intros]:
  "tables_ok s \<Longrightarrow> valid_utf8 h \<Longrightarrow> tables_ok (RecordPeerRequestAt h t s)"
  "tables_ok s \<Longrightarrow> tables_ok (RecordPeerRegistration h s)"
  "tables_ok s \<Longrightarrow> tables_ok (RecordPeerHeartbeat h s)"
  using peer_labels
  by (auto simp: tables_ok_def RecordPeerRequestAt_def peers_only peers_ok_stamp peers_ok_create
      peers_ok_registration peers_ok_heartbeat)

lemma tables_fields [simp]:
  "tables_ok (m\<lparr>EventsDroppedTotal := n\<rparr>) = tables_ok m"
  "tables_ok (m\<lparr>EventsReceivedTotal := n\<rparr>) = tables_ok m"
  "tables_ok (m\<lparr>queueDepth := n\<rparr>) = tables_ok m"
  by (simp_all add: tables_ok_def breakdown_ok_def peers_ok_def labels_ok_def)

abbreviation tables :: "Server \<Rightarrow> bool" where
  "tables s \<equiv> tables_ok (met (queue s))"

lemma tables_handler [tables_intros]:
  "tables s \<Longrightarrow> (tables_ok (met (queue s)) \<Longrightarrow> tables_ok (f (met (queue s)))) \<Longrightarrow> tables (update_met f s)"
  "tables s \<Longrightarrow> tables (log_entry e s)"
  "tables s \<Longrightarrow> tables (logUnhandled ev n d b s)"
  "tables s \<Longrightarrow> tables (count_payload_lost s)"
  "tables s \<Longrightarrow> tables (s\<lparr>onefsUnhandled := k\<rparr>)"
  "tables s \<Longrightarrow> tables (s\<lparr>ceeUnhandled := k\<rparr>)"
  "tables s \<Longrightarrow> tables (s\<lparr>slots := k2\<rparr>)"
  "tables s \<Longrightarrow> tables (releaseSlot s)"
  "tables s \<Longrightarrow> tables (count_received j s)"
  by (simp_all add: update_met_def log_entry_def logUnhandled_def count_payload_lost_def count_dropped_def
      releaseSlot_def count_received_def Let_def)

lemma tables_enqueue_one: "tables s \<Longrightarrow> labels_valid e \<Longrightarrow> tables (enqueue_one h env r e s)"
  using tables_event [of "met (queue s)"]
  by (simp add: enqueue_one_def update_met_def Enqueue_def count_dropped_def SetQueueDepth_def Let_def
      labels_valid_def)

lemma tables_enqueue:
  assumes "tables s" "\<forall>e \<in> set es. labels_valid e"
  shows "tables (enqueue h env r es s)"
proof -
  have "tables (count_received (length es) s)" using assms(1) by (rule tables_intros)
  then have "tables (fold (enqueue_one h env r) es (count_received (length es) s))"
    by (rule fold_invariant [where P = tables and Q = labels_valid, rotated])
      (simp_all add: tables_enqueue_one assms(2))
  then show ?thesis by (simp add: enqueue_def)
qed

lemma enqueued_labels:
  "\<forall>e \<in> set (fst (snd (answer_body h env r body c s))). labels_valid e"
  "\<forall>e \<in> set (fst (snd (serve_with_slot h env r probe k s))). labels_valid e"
  using answered_typed slot_typed unfolding cepa_typed_def by blast+

text \<open>The host of an ASCII address is a piece of it.\<close>

abbreviation ascii_address :: "Request \<Rightarrow> bool" where
  "ascii_address r \<equiv> list_all (\<lambda>c. byte_val c < 0x80) (RemoteAddr r)"

lemma SplitHostPort_part: "SplitHostPort a = Some (h, p) \<Longrightarrow> set h \<subseteq> set a"
  unfolding SplitHostPort_def Let_def
  by (auto split: option.splits if_splits dest: in_set_takeD in_set_dropD)

lemma peerHost_valid: "ascii_address r \<Longrightarrow> valid_utf8 (peerHost (RemoteAddr r))"
  by (rule ascii_valid)
    (auto simp: peerHost_def list_all_iff split: option.splits dest!: SplitHostPort_part)

lemma tables_unreadable: "tables s \<Longrightarrow> tables (snd (answerUnreadableBody p e s))"
  by (simp add: answerUnreadableBody_def tables_intros)

lemma tables_answer: "tables s \<Longrightarrow> tables (snd (snd (answer_body h env r body c s)))"
proof -
  assume s: "tables s"
  have reg: "tables (update_met (RecordPeerRegistration p) s)" "tables (update_met (RecordPeerHeartbeat p) s)" for p
    using s by (auto intro: tables_intros)
  have lost: "tables t \<Longrightarrow> tables (count_payload_lost (t\<lparr>onefsUnhandled := n\<rparr>))"
    "tables t \<Longrightarrow> tables (count_payload_lost (t\<lparr>ceeUnhandled := n\<rparr>))" for t n
    by (auto intro!: tables_intros)
  show ?thesis using s reg
    by (auto simp: answer_body_def answer_register_def answer_heartbeat_def answer_check_file_def
        answer_check_event_def answer_vcaps_def Let_def lost
        intro!: tables_handler(2,3) split: sum.splits Dialect.splits)
qed

lemma tables_serve:
  assumes "tables s" "ascii_address r" "ServeHTTP h env r s = Some (resp, s')"
  shows "tables s'"
proof -
  let ?s1 = "update_met (RecordPeerRequestAt (peerHost (RemoteAddr r)) (clock_start env)) s"
  have s1: "tables ?s1"
    using assms(1) peerHost_valid [OF assms(2)] by (auto intro!: tables_handler(1) tables_peer)
  have st: "tables (snd (serve_start env r s))"
    using assms(1) s1 tables_unreadable [OF s1]
    by (auto simp: serve_start_def Let_def case_prod_beta split: sum.splits)
  have sl: "tables t \<Longrightarrow> tables (snd (snd (serve_with_slot h env r p c t)))" for p c t
    using tables_answer tables_unreadable
    by (auto simp: serve_with_slot_def case_prod_beta split: option.splits sum.splits)
  obtain x s2 where x: "serve_start env r s = (x, s2)" "tables s2" using st by (cases "serve_start env r s") auto
  show ?thesis
  proof (cases x)
    case (Finished resp1)
    then show ?thesis using assms(3) x by (simp add: ServeHTTP_def)
  next
    case (Live body c)
    then show ?thesis
      using assms(3) x tables_enqueue [OF tables_answer [OF x(2)] enqueued_labels(1)]
      by (auto simp: ServeHTTP_def case_prod_beta)
  next
    case (Need_slot p c)
    obtain s3 where s3: "acquireSlot_now h s2 = Some s3" "tables s3"
      using assms(3) x Need_slot tables_handler(7) [OF x(2)]
      by (auto simp: ServeHTTP_def acquireSlot_now_def split: if_splits)
    then show ?thesis
      using assms(3) x(1) Need_slot tables_handler(8) [OF tables_enqueue [OF sl [OF s3(2)] enqueued_labels(2)]]
      by (auto simp: ServeHTTP_def case_prod_beta)
  qed
qed

section \<open>Exact values\<close>

text \<open>A counter below 2 to the 53 is shown as it is.\<close>

lemma float64_exact:
  assumes "\<bar>n\<bar> < 2 ^ 53"
  shows "float64 n = n"
proof (cases "n = 0")
  case False
  define k where "k = nat \<bar>n\<bar>"
  have k: "0 < k" "k < 2 ^ 53" "sgn n * int k = n"
    using assms False by (simp_all add: k_def nat_less_iff sgn_mult_abs)
  have b: "2 ^ (floorlog 2 k - 1) \<le> k" "k < 2 ^ floorlog 2 k" using floorlog_bounds [OF k(1), of 2] by simp_all
  have f: "floorlog 2 k \<le> 53" "0 < floorlog 2 k"
    using k floorlog_leI [of k 2 53] by (auto simp: floorlog_eq_zero_iff intro: Nat.gr0I)
  have one: "bits 1 = 1" by (simp add: bits_def floorlog_def)
  have e0: "bits k - bits 1 - 53 = - int (54 - floorlog 2 k)" using f one by (simp add: bits_def)
  have s0: "scale2 k 1 (- int (54 - floorlog 2 k)) = (k * 2 ^ (54 - floorlog 2 k), 1)"
    using f by (auto simp: scale2_def)
  have "(2 :: nat) ^ (floorlog 2 k - 1) * 2 ^ (54 - floorlog 2 k) = 2 ^ 53"
    using f by (simp flip: power_add)
  then have "2 ^ 53 \<le> k * 2 ^ (54 - floorlog 2 k)" using b(1) by (metis mult_le_mono1)
  then have big: "\<not> k * 2 ^ (54 - floorlog 2 k) < 1 * 2 ^ 53" by simp
  have e1: "- int (54 - floorlog 2 k) + 1 = - int (53 - floorlog 2 k)" using f by simp
  have s1: "scale2 k 1 (- int (53 - floorlog 2 k)) = (k * 2 ^ (53 - floorlog 2 k), 1)"
    by (cases "floorlog 2 k = 53") (auto simp: scale2_def)
  have "k * 2 ^ (53 - floorlog 2 k) < 2 ^ floorlog 2 k * 2 ^ (53 - floorlog 2 k)" using b(2) by simp
  also have "\<dots> = 2 ^ 53" using f by (simp flip: power_add)
  finally have small: "k * 2 ^ (53 - floorlog 2 k) \<noteq> 2 ^ 53" by simp
  have "round_double k 1 = (k * 2 ^ (53 - floorlog 2 k), - int (53 - floorlog 2 k))"
    using k(1) small unfolding round_double_def Let_def e0 s0 prod.case if_not_P [OF big] e1 s1
    by (simp add: round_div_def)
  then have "fraction_of (round_double k 1) = (k * 2 ^ (53 - floorlog 2 k), 2 ^ (53 - floorlog 2 k))"
    by (auto simp: fraction_of_def)
  then show ?thesis using k(3) by (simp add: float64_def k_def)
qed (simp add: float64_def round_double_def)

section \<open>A scrape after any traffic\<close>

text \<open>Requests served one after the other; one that waits for a slot leaves no trace.\<close>

definition serve_all :: "Handler \<Rightarrow> (environment \<times> Request) list \<Rightarrow> Server \<Rightarrow> Server" where
  "serve_all h rs s = fold (\<lambda>(env, r) s. case ServeHTTP h env r s of None \<Rightarrow> s | Some (resp, s') \<Rightarrow> s') rs s"

lemma tables_serve_all:
  assumes "tables s" "\<forall>x \<in> set rs. ascii_address (snd x)"
  shows "tables (serve_all h rs s)"
  unfolding serve_all_def
  by (rule fold_invariant [where P = tables and Q = "\<lambda>x. ascii_address (snd x)", rotated])
    (use assms in \<open>auto split: option.splits intro: tables_serve\<close>)

text \<open>The identities of the collected samples, as functions of the keys of the three tables.\<close>

definition peer_idents :: "string \<Rightarrow> (string \<times> (string \<times> string) list) list" where
  "peer_idents host =
     [(''cee_cepa_last_request_unix_seconds'', [(''remote'', host)]),
      (''cee_cepa_registrations_total'', [(''remote'', host)]),
      (''cee_cepa_heartbeats_total'', [(''remote'', host)])]"

definition type_ident :: "eventTypeKey \<Rightarrow> string \<times> (string \<times> string) list" where
  "type_ident k = (''cee_events_by_type_total'',
     [(''event_type'', key_EventType k), (''protocol'', key_Protocol k)])"

definition server_ident :: "string \<Rightarrow> string \<times> (string \<times> string) list" where
  "server_ident v = (''cee_events_by_server_total'', [(''server'', v)])"

lemmas collector_defs = const_metric_def cepaLastRequestDesc_def cepaRegistrationsDesc_def
  cepaHeartbeatsDesc_def eventsByTypeDesc_def eventsByServerDesc_def ident_def

text \<open>Whether every server the table holds can be shown.\<close>

definition servers_valid :: "Store \<Rightarrow> bool" where
  "servers_valid s \<longleftrightarrow> list_all (\<lambda>(server, n). valid_utf8 server) (eventsByServer s)"

lemma map_ident_Collect:
  assumes "labels_ok s" "servers_valid s"
  shows "map ident (Collect const_metric s) = concat (map peer_idents (map fst (peers s))) @
    map type_ident (map fst (eventsByType s)) @ map server_ident (map fst (eventsByServer s))"
proof -
  have p: "map ident (concat (map (\<lambda>(host, p).
       [const_metric cepaLastRequestDesc GaugeValue (float64 (lastRequestUnix p)) [host],
        const_metric cepaRegistrationsDesc CounterValue (float64 (registrations p)) [host],
        const_metric cepaHeartbeatsDesc CounterValue (float64 (heartbeats p)) [host]]) ps)) =
    concat (map peer_idents (map fst ps))" if "\<forall>h \<in> fst ` set ps. valid_utf8 h" for ps
    using that by (induction ps) (auto simp: collector_defs peer_idents_def)
  have h: "\<forall>h \<in> fst ` set (peers s). valid_utf8 h" using assms(1) by (simp add: labels_ok_def)
  have t: "(k, n) \<in> set (eventsByType s) \<Longrightarrow> valid_utf8 (key_EventType k) \<and> valid_utf8 (key_Protocol k)" for k n
    using assms(1) by (force simp: labels_ok_def)
  have v: "(server, n) \<in> set (eventsByServer s) \<Longrightarrow> valid_utf8 server" for server n
    using assms(2) by (auto simp: servers_valid_def list_all_iff)
  show ?thesis unfolding Collect_def map_append PeerSnapshot_def p [OF h]
    by (auto simp: EventTypeSnapshot_def EventServerSnapshot_def collector_defs type_ident_def
        server_ident_def case_prod_beta dest: t v)
qed

text \<open>The one label that nobody has checked is the name of the server.\<close>

lemma None_Collect:
  assumes "labels_ok s"
  shows "None \<in> set (Collect const_metric s) \<longleftrightarrow> \<not> servers_valid s"
proof -
  have h: "(h, p) \<in> set (peers s) \<Longrightarrow> valid_utf8 h" for h p using assms by (force simp: labels_ok_def)
  have t: "(k, n) \<in> set (eventsByType s) \<Longrightarrow> valid_utf8 (key_EventType k) \<and> valid_utf8 (key_Protocol k)" for k n
    using assms by (force simp: labels_ok_def)
  have m: "const_metric d k v ls = None \<longleftrightarrow> \<not> (length ls = length (d_labels d) \<and> list_all valid_utf8 ls)"
    "(\<exists>y. const_metric d k v ls = Some y) \<longleftrightarrow> length ls = length (d_labels d) \<and> list_all valid_utf8 ls"
    for d k v ls by (simp_all add: const_metric_def)
  have mp: "None \<in> set (map f xs) \<longleftrightarrow> (\<exists>x \<in> set xs. f x = None)"
    for f :: "'x \<Rightarrow> sample option" and xs by (simp add: image_iff) metis
  have "None \<notin> set (concat (map (\<lambda>(host, p).
       [const_metric cepaLastRequestDesc GaugeValue (float64 (lastRequestUnix p)) [host],
        const_metric cepaRegistrationsDesc CounterValue (float64 (registrations p)) [host],
        const_metric cepaHeartbeatsDesc CounterValue (float64 (heartbeats p)) [host]]) (peers s)))"
    by (auto simp: cepaLastRequestDesc_def cepaRegistrationsDesc_def cepaHeartbeatsDesc_def
        dest!: m(1) [THEN iffD1, OF sym] h)
  moreover have "None \<notin> set (map (\<lambda>(t, p, n). const_metric eventsByTypeDesc CounterValue (float64 n) [t, p])
      (EventTypeSnapshot s))"
    unfolding mp by (auto simp: EventTypeSnapshot_def eventsByTypeDesc_def m dest: t)
  moreover have "None \<in> set (map (\<lambda>(server, n). const_metric eventsByServerDesc CounterValue (float64 n) [server])
      (EventServerSnapshot s)) \<longleftrightarrow> \<not> servers_valid s"
    unfolding mp by (force simp: EventServerSnapshot_def eventsByServerDesc_def m servers_valid_def list_all_iff)
  ultimately show ?thesis unfolding Collect_def PeerSnapshot_def set_append by blast
qed

lemma distinct_peer_idents: "distinct hosts \<Longrightarrow> distinct (concat (map peer_idents hosts))"
proof (induction hosts)
  case (Cons h hs)
  have r: "i \<in> set (peer_idents g) \<Longrightarrow> snd i = [(''remote'', g)]" for i g by (auto simp: peer_idents_def)
  have False if "i \<in> set (peer_idents h)" "g \<in> set hs" "i \<in> set (peer_idents g)" for i g
    using r [OF that(1)] r [OF that(3)] that(2) Cons.prems by auto
  then have "set (peer_idents h) \<inter> set (concat (map peer_idents hs)) = {}" by auto
  moreover have "distinct (peer_idents h)" by (simp add: peer_idents_def)
  ultimately show ?case using Cons by simp
qed simp

lemma ident_names:
  "i \<in> set (concat (map peer_idents hosts)) \<Longrightarrow> fst i \<in> {''cee_cepa_last_request_unix_seconds'',
    ''cee_cepa_registrations_total'', ''cee_cepa_heartbeats_total''} \<and> snd i \<noteq> []"
  "i \<in> set (map type_ident ks) \<Longrightarrow> fst i = ''cee_events_by_type_total'' \<and> snd i \<noteq> []"
  "i \<in> set (map server_ident vs) \<Longrightarrow> fst i = ''cee_events_by_server_total'' \<and> snd i \<noteq> []"
  by (auto simp: peer_idents_def type_ident_def server_ident_def)

lemma distinct_by:
  "distinct xs \<Longrightarrow> distinct ys \<Longrightarrow> (\<And>x. x \<in> set xs \<Longrightarrow> P x) \<Longrightarrow> (\<And>y. y \<in> set ys \<Longrightarrow> \<not> P y) \<Longrightarrow>
    distinct (xs @ ys)"
  by auto

lemma distinct_Collect:
  assumes "tables_ok s" "servers_valid s"
  shows "distinct (map ident (Collect const_metric s))"
proof -
  have l: "labels_ok s" using assms(1) by (simp add: tables_ok_def)
  have d: "distinct (map fst (eventsByType s))" "distinct (map fst (eventsByServer s))" "distinct (map fst (peers s))"
    using assms(1) by (simp_all add: tables_ok_def breakdown_ok_def peers_ok_def)
  have "inj type_ident" by (rule injI) (simp add: type_ident_def)
  then have t: "distinct (map type_ident (map fst (eventsByType s)))"
    unfolding distinct_map [of type_ident] using d(1) inj_on_subset by blast
  have "inj server_ident" by (rule injI) (simp add: server_ident_def)
  then have v: "distinct (map server_ident (map fst (eventsByServer s)))"
    unfolding distinct_map [of server_ident] using d(2) inj_on_subset by blast
  have tv: "distinct (map type_ident (map fst (eventsByType s)) @ map server_ident (map fst (eventsByServer s)))"
    by (rule distinct_by [where P = "\<lambda>i. fst i = ''cee_events_by_type_total''", OF t v])
      (drule ident_names, simp)+
  show ?thesis unfolding map_ident_Collect [OF l assms(2)]
  proof (rule distinct_by [where P = "\<lambda>i. fst i \<noteq> ''cee_events_by_type_total'' \<and> fst i \<noteq> ''cee_events_by_server_total''",
        OF distinct_peer_idents [OF d(3)] tv])
    show "fst i \<noteq> ''cee_events_by_type_total'' \<and> fst i \<noteq> ''cee_events_by_server_total''"
      if "i \<in> set (concat (map peer_idents (map fst (peers s))))" for i
      using ident_names(1) [OF that] by auto
    show "\<not> (fst i \<noteq> ''cee_events_by_type_total'' \<and> fst i \<noteq> ''cee_events_by_server_total'')"
      if "i \<in> set (map type_ident (map fst (eventsByType s)) @ map server_ident (map fst (eventsByServer s)))" for i
      using that unfolding set_append by (elim UnE) (drule ident_names, simp)+
  qed
qed

lemma registry_idents:
  "map ident (map Some (newRegistry s)) = map (\<lambda>n. (n, []))
     [''cee_events_received_total'', ''cee_events_dropped_total'', ''cee_writer_errors_total'',
      ''cee_writer_batches_total'', ''cee_writer_batch_errors_total'', ''cee_queue_depth'',
      ''cee_events_written_total'', ''cee_last_fsync_unix_seconds'', ''cee_last_event_unix_seconds'',
      ''cee_events_truncated_total'', ''cee_cepa_peers_dropped_total'',
      ''cee_event_labels_dropped_total'', ''cee_requests_throttled_total'']"
  by (simp add: newRegistry_def scalar_def ident_def)

lemma length_Collect:
  "length (Collect must s) = 3 * length (peers s) + length (eventsByType s) + length (eventsByServer s)"
proof -
  have "length (concat (map (\<lambda>(h, p). [f h p, g h p, k h p]) xs)) = 3 * length xs"
    for f g k :: "string \<Rightarrow> peerStat \<Rightarrow> sample option" and xs
    by (induction xs) auto
  then show ?thesis
    by (simp add: Collect_def PeerSnapshot_def EventTypeSnapshot_def EventServerSnapshot_def del: length_concat)
qed

abbreviation build_info :: "string \<Rightarrow> string \<Rightarrow> sample option" where
  "build_info version goVersion \<equiv> Some \<lparr>sa_name = ''cee_build_info'', sa_kind = GaugeValue, sa_value = 1,
     sa_labels = [(''version'', version), (''go_version'', goVersion)]\<rparr>"

lemma distinct_scrape:
  assumes "tables_ok s" "servers_valid s" "valid_utf8 version" "valid_utf8 goVersion"
  shows "distinct (map ident (NewMetricsHandlerWithBuildInfo const_metric version goVersion s))"
proof -
  let ?build = "build_info version goVersion"
  have l: "labels_ok s" using assms(1) by (simp add: tables_ok_def)
  have reg: "distinct (map ident (map Some (newRegistry s)))"
    "\<And>i. i \<in> set (map ident (map Some (newRegistry s))) \<Longrightarrow> snd i = []"
    unfolding registry_idents by (simp, auto)
  have col: "snd i \<noteq> [] \<and> fst i \<noteq> ''cee_build_info''" if "i \<in> set (map ident (Collect const_metric s))" for i
    using that unfolding map_ident_Collect [OF l assms(2)] set_append
    by (elim UnE) (drule ident_names; auto)+
  have b: "ident ?build = (''cee_build_info'', [(''version'', version), (''go_version'', goVersion)])"
    by (simp add: ident_def)
  have cb: "distinct (map ident (Collect const_metric s) @ [ident ?build])"
    by (rule distinct_by [where P = "\<lambda>i. fst i \<noteq> ''cee_build_info''", OF distinct_Collect [OF assms(1,2)]])
      (use col b in simp_all)
  have "distinct (map ident (map Some (newRegistry s)) @ map ident (Collect const_metric s) @ [ident ?build])"
  proof (rule distinct_by [where P = "\<lambda>i. snd i = []", OF reg(1) cb])
    show "snd i \<noteq> []" if "i \<in> set (map ident (Collect const_metric s) @ [ident ?build])" for i
      using that col [of i] b by (auto simp del: set_map)
  qed (rule reg(2))
  then show ?thesis using assms(3,4)
    by (simp only: NewMetricsHandlerWithBuildInfo_def map_append list.map simp_thms if_True)
qed

lemma None_scrape:
  "None \<in> set (NewMetricsHandlerWithBuildInfo const_metric version goVersion s) \<longleftrightarrow>
    None \<in> set (Collect const_metric s) \<or> \<not> (valid_utf8 version \<and> valid_utf8 goVersion)"
  by (auto simp: NewMetricsHandlerWithBuildInfo_def)

lemma length_scrape: "tables_ok s \<Longrightarrow> length (NewMetricsHandlerWithBuildInfo const_metric version goVersion s) \<le> 462"
  by (simp add: NewMetricsHandlerWithBuildInfo_def length_Collect newRegistry_def tables_ok_def
      breakdown_ok_def peers_ok_def MaxEventLabels_def MaxPeers_def)

text \<open>C17: With the library checking labels as it documents, a scrape after any traffic succeeds
  exactly when every server name it shows, and the version texts the program was built with,
  are valid UTF-8.  After any sequence of requests from numeric addresses no two samples of the
  scrape have the same name and labels and no sample is refused for its label values (a
  repeated sample fails the scrape, a refused one ends the process) if and only if these
  constants and the table of servers hold only valid UTF-8; the types, the protocols and the publishers it
  shows always are.  There are at most 462 samples, however many publishers, event types
  and servers appeared.\<close>

theorem scrape_succeeds_exactly:
  assumes "checks_labels must" "\<forall>x \<in> set rs. list_all (\<lambda>c. byte_val c < 0x80) (RemoteAddr (snd x))"
  shows
    "(None \<notin> set (NewMetricsHandlerWithBuildInfo must version goVersion
        (met (queue (serve_all h rs (new_server (New new_store)))))) \<and>
      distinct (map ident (NewMetricsHandlerWithBuildInfo must version goVersion
        (met (queue (serve_all h rs (new_server (New new_store))))))) \<longleftrightarrow>
      valid_utf8 version \<and> valid_utf8 goVersion \<and> list_all (\<lambda>(server, n). valid_utf8 server)
        (eventsByServer (met (queue (serve_all h rs (new_server (New new_store))))))) \<and>
     length (NewMetricsHandlerWithBuildInfo must version goVersion
        (met (queue (serve_all h rs (new_server (New new_store)))))) \<le> 462"
proof -
  let ?s = "met (queue (serve_all h rs (new_server (New new_store))))"
  have ok: "tables_ok ?s"
    by (rule tables_serve_all [OF _ assms(2)]) (simp add: new_server_def New_def tables_new)
  then have l: "labels_ok ?s" by (simp add: tables_ok_def)
  show ?thesis
    using None_Collect [OF l] distinct_scrape [OF ok] length_scrape [OF ok]
    unfolding assms(1) [unfolded checks_labels_only] None_scrape servers_valid_def by blast
qed

theorem scrape_succeeds_exactly_witness:
  "(let r = \<lparr>Method = ''PUT'', RemoteAddr = ''10.0.0.1:51000'', Host = ''nas'', body_data = ''<x/>'', body_fails = False\<rparr>;
        env = \<lparr>clock_start = mk_time 0 0, clock_receive = mk_time 0 0, write_ok = True, os_Hostname = ''h'',
          names = ascii_tables\<rparr>;
        s = met (queue (serve_all plain_handler [(env, r)] (new_server (New new_store)))) in
    (None \<notin> set (NewMetricsHandlerWithBuildInfo const_metric ''1'' ''2'' s) \<and>
     distinct (map ident (NewMetricsHandlerWithBuildInfo const_metric ''1'' ''2'' s)) \<longleftrightarrow>
     list_all (\<lambda>(server, n). valid_utf8 server) (eventsByServer s)) \<and>
    length (NewMetricsHandlerWithBuildInfo const_metric ''1'' ''2'' s) \<le> 462)"
proof -
  have "checks_labels const_metric" by (simp add: checks_labels_only)
  from scrape_succeeds_exactly [OF this, of "[(env, r)]" "''1''" "''2''" plain_handler for env r] show ?thesis
    unfolding Let_def by simp
qed

section \<open>A name nobody checked\<close>

text \<open>A OneFS event whose server name is the base 64 of the single byte 255 parses, and after it
  has been recorded every scrape panics.\<close>

lemma unchecked_server_name:
  "\<exists>e. ParseOneFSEvent ascii_tables (print_node (onefs_doc
        (sample_onefs\<lparr>NFS := Some (no_nfs\<lparr>n_ServerName := b64_encode [CHR 0xFF]\<rparr>)\<rparr>))) t = Inr [e] \<and>
     None \<in> set (Collect const_metric (RecordEvent (EventType e) (Protocol e) (CEPAEvent.Server e) new_store))"
proof -
  let ?r = "sample_onefs\<lparr>NFS := Some (no_nfs\<lparr>n_ServerName := b64_encode [CHR 0xFF]\<rparr>)\<rparr>"
  have u: "EncodeUTF16LE ''/ifs'' = [CHR ''/'', CHR 0x00, CHR ''i'', CHR 0x00, CHR ''f'', CHR 0x00, CHR ''s'', CHR 0x00]"
    by (simp add: EncodeUTF16LE_def utf16_encode_def utf16_encode_rune_def is_scalar_def
        is_surrogate_def le_bytes_def char_of_eq_iff take_bit_eq_mod)
  have ok: "onefs_ok ?r"
    by (simp add: onefs_ok_def sample_onefs_def fields_ok_def args_fields_def nfs_fields_def no_nfs_def
        xml_chars_def in_char_range_def u Let_def b64_char_def)
  have body: "DecodeBody (print_node (onefs_doc ?r)) = Inr (print_node (onefs_doc ?r))"
    using ok_onefs_doc [OF ok] unfolding onefs_doc_def by (rule DecodeBody_print(1))
  have path: "decodeBase64UTF16 (b64_encode (EncodeUTF16LE ''/ifs'')) = Inr ''/ifs''"
    by (rule decodeBase64UTF16_encode) (simp add: latin_start_def)
  have srv: "decodeBase64UTF16 (b64_encode [CHR 0xFF]) = Inr [CHR 0xFF]"
    unfolding decodeBase64UTF16_def by (simp add: DecodeString_encode DecodeBody_def IsUTF16_def del: b64_encode.simps)
  obtain e where e: "ParseOneFSEvent ascii_tables (print_node (onefs_doc ?r)) t = Inr [e]"
    "CEPAEvent.Server e = [CHR 0xFF]" "labels_valid e"
    using Unmarshal_onefs_doc [OF ok, of ascii_tables "''CheckFileRequest''"] body path srv
    by (simp add: ParseOneFSEvent_def parseOneFSEventDecoded_def unmarshal_onefs_children Let_def
        sample_onefs_def labels_valid_def names_valid del: b64_encode.simps)
  let ?s = "RecordEvent (EventType e) (Protocol e) [CHR 0xFF] new_store"
  have ok: "labels_ok ?s"
    using tables_event [OF tables_new] e(3) by (simp add: tables_ok_def labels_valid_def)
  have "\<not> servers_valid ?s"
    by (simp add: servers_valid_def RecordEvent_def recordBreakdown_slow slow_breakdown_def new_store_def
        bumpLabel_def add_count_def MaxEventLabels_def valid_utf8.simps [of "[CHR 0xFF]"] seq_len_def)
  then show ?thesis using e None_Collect [OF ok] by auto
qed

end
