(* ===== verification/Win32_Writer.thy ===== *)
theory Win32_Writer
  imports Writer_Core
begin

text \<open>
  The Windows event log writer of \<^verbatim>\<open>pkg/evtx/writer_windows.go\<close>.  The registry and the event log
  service are outside: \<open>'w\<close> is their state and \<open>'w eventlog\<close> the calls the code makes.
\<close>

section \<open>The system\<close>

text \<open>\<open>message_file\<close> is the value the registry holds for the source, \<open>None\<close> when it cannot be read;
  \<open>open_source\<close>, \<open>info\<close> and \<open>close_source\<close> act on the one handle of the writer.\<close>

record 'w eventlog =
  executable :: "'w \<Rightarrow> write_error + string"
  message_file :: "'w \<Rightarrow> string option"
  remove_source :: "string \<Rightarrow> 'w \<Rightarrow> write_error option \<times> 'w"
  install_source :: "string \<Rightarrow> string \<Rightarrow> 'w \<Rightarrow> write_error option \<times> 'w"
  open_source :: "string \<Rightarrow> 'w \<Rightarrow> write_error option \<times> 'w"
  info :: "32 word \<Rightarrow> string \<Rightarrow> 'w \<Rightarrow> write_error option \<times> 'w"
  close_source :: "'w \<Rightarrow> write_error option \<times> 'w"

definition win32SourceName :: string where
  "win32SourceName = DefaultProviderName"

section \<open>Registration\<close>

definition source_error :: "string \<Rightarrow> write_error \<Rightarrow> write_error" where
  "source_error what = Wrapped (''win32 '' @ what @ '' '' @ [CHR 0x22] @ win32SourceName @ [CHR 0x22] @ '':'')"

definition install_for :: "'w eventlog \<Rightarrow> string \<Rightarrow> 'w \<Rightarrow> write_error option \<times> 'w" where
  "install_for W exePath w =
     (case install_source W win32SourceName exePath w of
        (r, w1) \<Rightarrow> (map_option (source_error ''install event source'') r, w1))"

definition ensureEventSource :: "'w eventlog \<Rightarrow> string \<Rightarrow> 'w \<Rightarrow> write_error option \<times> 'w" where
  "ensureEventSource W exePath w =
     (case message_file W w of
        None \<Rightarrow> install_for W exePath w
      | Some current \<Rightarrow>
          if current = exePath then (None, w)
          else (case remove_source W win32SourceName w of
                  (Some err, w1) \<Rightarrow> (Some (source_error ''remove stale event source'' err), w1)
                | (None, w1) \<Rightarrow> install_for W exePath w1))"

text \<open>The result carries the warning of a failed registration, which does not stop the start.\<close>

definition NewWin32EventLogWriter ::
  "'w eventlog \<Rightarrow> 'w \<Rightarrow> (write_error + write_error option) \<times> 'w" where
  "NewWin32EventLogWriter W w =
     (case executable W w of
        Inl err \<Rightarrow> (Inl (Wrapped ''win32 locate executable:'' err), w)
      | Inr exe \<Rightarrow>
          (case ensureEventSource W exe w of
             (warning, w1) \<Rightarrow>
               (case open_source W win32SourceName w1 of
                  (Some err, w2) \<Rightarrow> (Inl (source_error ''open event log source'' err), w2)
                | (None, w2) \<Rightarrow> (Inr warning, w2))))"

section \<open>Writing\<close>

text \<open>The labels of the message, each before the value at the same place.\<close>

definition eol :: string where
  "eol = [CHR 13, CHR 10]"

definition tab :: string where
  "tab = [CHR 9]"

definition labels :: "string list" where
  "labels =
     [''Subject:'' @ eol @ tab @ ''Security ID:'' @ tab,
      eol @ tab @ ''Account Name:'' @ tab,
      eol @ tab @ ''Account Domain:'' @ tab,
      eol @ tab @ ''Logon ID:'' @ tab,
      eol @ eol @ ''Object:'' @ eol @ tab @ ''Object Server:'' @ tab @ ''Security'' @ eol @ tab @ ''Object Type:'' @ tab,
      eol @ tab @ ''Object Name:'' @ tab,
      eol @ eol @ ''Process Information:'' @ eol @ tab @ ''Process ID:'' @ tab @ ''0x'',
      eol @ tab @ ''Process Name:'' @ tab @ ''CEPA'' @ eol @ eol @ ''Access Request Information:'' @ eol @ tab @
        ''Transaction ID:'' @ tab @ ''{00000000-0000-0000-0000-000000000000}'' @ eol @ tab @ ''Accesses:'' @ tab,
      eol @ tab @ ''Access Mask:'' @ tab,
      eol @ eol @ ''Network:'' @ eol @ tab @ ''Client Address:'' @ tab,
      eol @ eol @ ''I/O Statistics:'' @ eol @ tab @ ''Bytes Read:'' @ tab,
      eol @ tab @ ''Bytes Written:'' @ tab]"

definition printed :: "WindowsEvent \<Rightarrow> string list" where
  "printed e =
     [w_SubjectUserSID e, w_SubjectUsername e, w_SubjectDomain e, w_SubjectLogonID e, w_ObjectType e,
      w_ObjectName e, format_hex (w_ProcessID e), w_Accesses e, w_AccessMask e, w_ClientAddr e,
      Itoa (w_BytesRead e), Itoa (w_BytesWritten e)]"

fun layout :: "string list \<Rightarrow> string list \<Rightarrow> string" where
  "layout (l # ls) (v # vs) = l @ v @ layout ls vs"
| "layout _ _ = []"

definition formatWin32Message :: "WindowsEvent \<Rightarrow> string" where
  "formatWin32Message e = layout labels (printed e)"

definition win32_WriteEvent :: "'w eventlog \<Rightarrow> WindowsEvent \<Rightarrow> 'w \<Rightarrow> write_error option \<times> 'w" where
  "win32_WriteEvent W e w =
     (case info W (word_of_int (w_EventID e)) (formatWin32Message e) w of
        (None, w1) \<Rightarrow> (None, w1)
      | (Some err, w1) \<Rightarrow> (Some (Wrapped (''win32 ReportEvent id='' @ Itoa (w_EventID e) @ '':'') err), w1))"

definition win32_WriteBatch :: "'w eventlog \<Rightarrow> WindowsEvent list \<Rightarrow> 'w \<Rightarrow> write_error option \<times> 'w" where
  "win32_WriteBatch W = writeBatchSerially (win32_WriteEvent W)"

definition win32_Close :: "'w eventlog \<Rightarrow> 'w \<Rightarrow> write_error option \<times> 'w" where
  "win32_Close = close_source"

section \<open>The message can be read\<close>

lemma takeWhile_free: "x \<notin> set v \<Longrightarrow> takeWhile (\<lambda>c. c \<noteq> x) (v @ x # r) = v \<and> dropWhile (\<lambda>c. c \<noteq> x) (v @ x # r) = x # r"
  by (induction v) auto

text \<open>Labels that start with a character no value has keep the values apart.\<close>

lemma layout_values:
  assumes "length vs = length ls" "length us = length ls"
    and "list_all (\<lambda>l. \<exists>r. l = x # r) (tl ls)"
    and "list_all (\<lambda>v. x \<notin> set v) vs" "list_all (\<lambda>v. x \<notin> set v) us"
    and "layout ls vs = layout ls us"
  shows "vs = us"
  using assms
proof (induction ls arbitrary: vs us)
  case (Cons l ls)
  obtain v vs' where v: "vs = v # vs'" using Cons.prems(1) by (cases vs) auto
  obtain u us' where u: "us = u # us'" using Cons.prems(2) by (cases us) auto
  have e: "v @ layout ls vs' = u @ layout ls us'" using Cons.prems(6) v u by simp
  show ?case
  proof (cases ls)
    case Nil
    then show ?thesis using e v u Cons.prems(1,2) by simp
  next
    case (Cons k ks)
    obtain w ws where w: "vs' = w # ws" using Cons.prems(1) v Cons by (cases vs') auto
    obtain y ys where y: "us' = y # ys" using Cons.prems(2) u Cons by (cases us') auto
    obtain r where r: "k = x # r" using Cons.prems(3) Cons by auto
    have "v = u \<and> layout ls vs' = layout ls us'"
      using e takeWhile_free [of x v] takeWhile_free [of x u] Cons.prems(4,5) v u w y r Cons
      by (metis append_Cons layout.simps(1) list.pred_inject(2))
    moreover have "list_all (\<lambda>l. \<exists>r. l = x # r) (tl ls)" using Cons.prems(3) Cons by simp
    ultimately show ?thesis using Cons.IH [of vs' us'] Cons.prems(1,2,4,5) v u by simp
  qed
qed simp

lemma format_nat_no_CR:
  "2 \<le> base \<Longrightarrow> base \<le> 36 \<Longrightarrow> CHR 13 \<notin> set (format_nat base n)"
proof (induction base n rule: format_nat.induct)
  case (1 base n)
  have d: "digit_char d \<noteq> CHR 13" if "d < base" for d
    using digit_val_digit_char [of d] that "1.prems" by (auto simp: digit_val_def)
  show ?case
  proof (cases "n < base")
    case True
    then show ?thesis using d [OF True] by (simp add: format_nat.simps [of base n])
  next
    case False
    then have "CHR 13 \<notin> set (format_nat base (n div base))" using 1 by simp
    moreover have "n mod base < base" using "1.prems" by simp
    ultimately show ?thesis using d [of "n mod base"] False "1.prems"
      by (simp add: format_nat.simps [of base n])
  qed
qed

lemma numbers_no_CR: "CHR 13 \<notin> set (Itoa n)" "CHR 13 \<notin> set (format_hex n)"
  using format_nat_no_CR by (simp_all add: Itoa_def format_hex_def)

lemma format_nat_inj: "format_nat 16 m = format_nat 16 n \<longleftrightarrow> m = n"
proof -
  have "numeral_val 16 0 (format_nat 16 k) = Some k" for k by (rule numeral_val_format_nat) simp_all
  then show ?thesis by (metis option.inject)
qed

lemma format_hex_inj:
  assumes "format_hex m = format_hex n"
  shows "m = n"
proof -
  have h: "format_nat 16 k \<noteq> CHR ''-'' # cs" for k cs
    using format_nat_hd [of 16 k] digit_char_not_sign by fastforce
  show ?thesis
  proof (cases "m < 0 \<longleftrightarrow> n < 0")
    case True
    then show ?thesis using assms by (cases "n < 0") (simp_all add: format_hex_def format_nat_inj)
  next
    case False
    then show ?thesis using assms h unfolding format_hex_def by (metis (full_types))
  qed
qed

text \<open>Two events with the same message agree in all that was printed, as long as no text holds a
  carriage return.\<close>

lemma win32_message_values:
  assumes "formatWin32Message e = formatWin32Message e'"
    and "list_all (\<lambda>v. CHR 13 \<notin> set v) (printed e)" "list_all (\<lambda>v. CHR 13 \<notin> set v) (printed e')"
  shows "printed e = printed e' \<and> w_ProcessID e = w_ProcessID e'"
proof -
  have "printed e = printed e'"
    by (rule layout_values [OF _ _ _ assms(2,3) assms(1) [unfolded formatWin32Message_def]])
      (simp_all add: printed_def labels_def eol_def)
  then show ?thesis using format_hex_inj by (simp add: printed_def)
qed

section \<open>The source points at this program\<close>

text \<open>What the code relies on, of the documented registry calls: a source that could be installed
  where none was readable names the file given, a removed one names none, and opening a
  source changes no registration.\<close>

definition registry_laws :: "'w eventlog \<Rightarrow> bool" where
  "registry_laws W \<longleftrightarrow>
     (\<forall>f w w'. message_file W w = None \<longrightarrow> install_source W win32SourceName f w = (None, w') \<longrightarrow>
        message_file W w' = Some f) \<and>
     (\<forall>w w'. remove_source W win32SourceName w = (None, w') \<longrightarrow> message_file W w' = None) \<and>
     (\<forall>w. message_file W (snd (open_source W win32SourceName w)) = message_file W w)"

lemma install_for_registers:
  assumes "registry_laws W" "message_file W w = None" "install_for W f w = (None, w')"
  shows "message_file W w' = Some f"
  using assms by (auto simp: install_for_def registry_laws_def split: prod.splits)

lemma ensureEventSource_registers:
  assumes "registry_laws W" "ensureEventSource W f w = (None, w')"
  shows "message_file W w' = Some f"
proof (cases "message_file W w")
  case None
  then show ?thesis using assms install_for_registers [OF assms(1)] by (simp add: ensureEventSource_def)
next
  case (Some current)
  show ?thesis
  proof (cases "current = f")
    case False
    obtain r w1 where r: "remove_source W win32SourceName w = (r, w1)" by fastforce
    then have "r = None" using assms(2) Some False by (cases r) (simp_all add: ensureEventSource_def)
    then have "message_file W w1 = None" "install_for W f w1 = (None, w')"
      using assms r Some False by (auto simp: ensureEventSource_def registry_laws_def)
    then show ?thesis using install_for_registers [OF assms(1)] by blast
  qed (use assms Some in \<open>simp add: ensureEventSource_def\<close>)
qed

text \<open>C31: An event source is never left pointing at another program in silence.  A writer that starts
  without a warning has its source registered with its own executable, whatever was
  registered before, and starting once more changes nothing in the registry.\<close>

theorem win32_source_registered:
  assumes "registry_laws W" "executable W w = Inr exe" "NewWin32EventLogWriter W w = (Inr None, w')"
  shows "message_file W w' = Some exe \<and> ensureEventSource W exe w' = (None, w')"
proof -
  obtain r w1 where r: "ensureEventSource W exe w = (r, w1)" by fastforce
  obtain o2 w2 where o2: "open_source W win32SourceName w1 = (o2, w2)" by fastforce
  have "r = None" "w' = w2"
    using assms(2,3) r o2 by (auto simp: NewWin32EventLogWriter_def split: option.splits)
  then have "message_file W w1 = Some exe" "message_file W w' = message_file W w1"
    using ensureEventSource_registers [OF assms(1)] r assms(1) o2
    by (auto simp: registry_laws_def) (metis snd_conv)
  then show ?thesis by (simp add: ensureEventSource_def)
qed

text \<open>A registry of one value: an installation needs an unregistered source.\<close>

definition one_value :: "string option eventlog" where
  "one_value =
     \<lparr>executable = (\<lambda>w. Inr ''cee-exporter.exe''), message_file = (\<lambda>w. w),
      remove_source = (\<lambda>s w. (None, None)),
      install_source = (\<lambda>s f w. if w = None then (None, Some f) else (Some (Refused ''exists''), w)),
      open_source = (\<lambda>s w. (None, w)), info = (\<lambda>i m w. (None, w)), close_source = (\<lambda>w. (None, w))\<rparr>"

theorem win32_source_registered_witness:
  "\<exists>w'. NewWin32EventLogWriter one_value (Some ''EventCreate.exe'') = (Inr None, w') \<and>
    message_file one_value w' = Some ''cee-exporter.exe''"
proof -
  have n: "NewWin32EventLogWriter one_value (Some ''EventCreate.exe'') = (Inr None, Some ''cee-exporter.exe'')"
    by (simp add: one_value_def NewWin32EventLogWriter_def ensureEventSource_def install_for_def)
  have "registry_laws one_value" by (simp add: one_value_def registry_laws_def)
  then show ?thesis using n win32_source_registered [OF _ _ n] by (simp add: one_value_def)
qed

end
