(* ===== verification/Spec2Isabelle.thy ===== *)
theory Spec2Isabelle
  imports Lifetime Typed_Events Prometheus Win32_Writer
begin

text \<open>
  \<^bold>\<open>A model of cee-exporter.\<close>  The program receives audit events from Dell storage over HTTP
  (CEPA, in four XML dialects and two encodings), maps them to Windows audit events, queues
  them and writes them to GELF, syslog, Beats, a binary event log or the Windows event log.
  It is an audit pipeline, so the questions are: is every event accounted for, does what is
  counted as written reach every output, is what is written what was received, and does the
  publisher always get the answer its protocol needs.  The development is a shallow
  embedding of the Go code under \<^verbatim>\<open>cmd/cee-exporter\<close> and \<^verbatim>\<open>pkg\<close>, function by function and under
  the names of the source.

  \<^bold>\<open>Conventions.\<close>  Go strings and byte slices are lists of characters, an \<^verbatim>\<open>int64\<close> that is only
  counted up is an integer, and arithmetic that can wrap is written with its wrap-around; the
  event codes of the protocol are 64-bit words.  A result with an error is a sum with
  \<^verbatim>\<open>go_error\<close> on the left, and a writer's error is an optional \<^verbatim>\<open>write_error\<close>.  A time is an instant: seconds
  and nanoseconds, without a location.  Histories, such as the events the queue has accepted,
  are ghost fields of the state and no operation reads them.

  \<^bold>\<open>The standard library, as far as the code uses it.\<close>  \<^verbatim>\<open>Go_Strings\<close>, \<^verbatim>\<open>Go_Strconv\<close>, \<^verbatim>\<open>Go_Unicode\<close>,
  \<^verbatim>\<open>Go_Base64\<close>, \<^verbatim>\<open>Go_Time\<close>: strings, numbers, UTF-8 runes, base 64, calendar and layouts.
  \<^verbatim>\<open>Go_Xml\<close>: the tokens and the unmarshalling of \<^verbatim>\<open>encoding/xml\<close>; \<^verbatim>\<open>Xml_Print\<close>: a printer, with the
  lemma that what is printed is read back, on which the round trips of the parsers rest.
  \<^verbatim>\<open>Go_Json\<close>, \<^verbatim>\<open>Go_Float\<close>: \<^verbatim>\<open>encoding/json\<close> with a reader for its output, and rounding to doubles.
  \<^verbatim>\<open>Go_Sha256\<close>: the digest that identifies a logged payload.
  \<^verbatim>\<open>Prelude\<close>: bytes and the lemmas on lists that everything else shares.

  \<^bold>\<open>From the wire to events\<close> (\<^verbatim>\<open>pkg/parser\<close>, \<^verbatim>\<open>pkg/mapper\<close>).  \<^verbatim>\<open>Utf16\<close> decides and undoes the encoding
  (\<^verbatim>\<open>utf16.go\<close>); \<^verbatim>\<open>Classify\<close> names the dialect by the root element (\<^verbatim>\<open>classify.go\<close>); \<^verbatim>\<open>Cepa_Event\<close>,
  \<^verbatim>\<open>Check_Event\<close> with \<^verbatim>\<open>Cee_Codes\<close>, and \<^verbatim>\<open>One_FS\<close> parse the three kinds of event documents
  (\<^verbatim>\<open>parser.go\<close>, \<^verbatim>\<open>checkevent.go\<close>, \<^verbatim>\<open>onefs.go\<close>); \<^verbatim>\<open>Mapper\<close> is \<^verbatim>\<open>mapper.go\<close>.  The lemmas show that a
  document with any list of events parses to exactly those events in either encoding, that
  the code tables agree with one another and keep unknown codes readable, and that every
  name a parser can produce has a row in the mapper's tables.  \<^verbatim>\<open>Label_Text\<close> shows which of the texts
  of an event are always valid UTF-8, those from the XML but not a OneFS server name, and that
  the counters of a parsed event fit 64 bits.

  \<^bold>\<open>Counters and queue\<close> (\<^verbatim>\<open>pkg/metrics\<close>, \<^verbatim>\<open>pkg/queue\<close>).  \<^verbatim>\<open>Metrics\<close>: the store with its two capped
  breakdowns and the publisher table; the read-locked fast path equals the locked one, and
  interleaved recorders lose no count.  \<^verbatim>\<open>Work_Queue\<close>: \<^verbatim>\<open>Enqueue\<close> as a function, the worker loop and
  \<^verbatim>\<open>Stop\<close> as step relations, with the invariant that accepted events are in the channel, in a
  worker or at the writer, its bounds, the order with one worker, the termination of the
  drain and the safety of the close.

  \<^bold>\<open>The HTTP handler\<close> (\<^verbatim>\<open>pkg/server\<close>).  \<^verbatim>\<open>Registration\<close> (\<^verbatim>\<open>register.go\<close>, \<^verbatim>\<open>heartbeat.go\<close>): the replies;
  \<^verbatim>\<open>Redact\<close> (\<^verbatim>\<open>redact.go\<close>): what of a payload may be logged.  \<^verbatim>\<open>Cepa_Handler\<close> (\<^verbatim>\<open>server.go\<close>): \<^verbatim>\<open>ServeHTTP\<close>
  with its probe, its slots and every branch of every dialect, and \<^verbatim>\<open>touches\<close>, what a handler
  leaves alone.  \<^verbatim>\<open>Serving\<close>: what one request does to the counters, the slots, the queue and the
  reply; \<^verbatim>\<open>reply_to\<close> is the document a request is owed, and \<^verbatim>\<open>body_limit\<close> the cap in force, which is
  the configured one except where the subtraction of the probe wraps.  \<^verbatim>\<open>Concurrent_Serving\<close>: many connections and the workers as interleaved steps on one state, with
  the conservation of events and the bound on slots in every reachable state.  \<^verbatim>\<open>Health\<close>
  (\<^verbatim>\<open>health.go\<close>) and \<^verbatim>\<open>Prometheus\<close> (\<^verbatim>\<open>pkg/prometheus/handler.go\<close>): the two endpoints that report.  A scrape
  succeeds exactly when the server names it shows are valid UTF-8, which nothing in the code
  makes sure of, and so are the version texts of the build.

  \<^bold>\<open>The outputs\<close> (\<^verbatim>\<open>pkg/evtx\<close>).  \<^verbatim>\<open>Writer_Core\<close> (\<^verbatim>\<open>writer.go\<close>): the retry and the serial batch over any
  writer, connections as scripts of outcomes with the traffic that went out, and the framing
  the network writers share.  Delivery over a network is at least once, as the source has it:
  a write that fails may have gone out in part, or whole, before it is made again on a new
  connection, so traffic is a list of whole writes, cut ones and new connections.  \<^verbatim>\<open>landed\<close> says
  what a send that succeeds leaves, \<^verbatim>\<open>gave_up\<close> what one that fails can have left, and \<^verbatim>\<open>stream\<close> what
  the receiver has on the connection that is open.  \<^verbatim>\<open>Gelf_Writer\<close>, \<^verbatim>\<open>Syslog_Writer\<close>, \<^verbatim>\<open>Beats_Writer\<close>, \<^verbatim>\<open>Evtx_Fields\<close> (the bounded
  field map of a binary record), \<^verbatim>\<open>Outputs\<close> (the event log writer, the fan-out of
  \<^verbatim>\<open>writer_multi.go\<close> and the dispatch over all of them) and \<^verbatim>\<open>Win32_Writer\<close>.  \<^verbatim>\<open>delivered\<close> in \<^verbatim>\<open>Outputs\<close> is the
  contract of \<^verbatim>\<open>WriteBatch\<close>, at least once, and \<^verbatim>\<open>Delivery\<close> shows that a nil error implies it for every writer.

  \<^bold>\<open>The program\<close> (\<^verbatim>\<open>cmd/cee-exporter\<close>, \<^verbatim>\<open>pkg/log\<close>).  \<^verbatim>\<open>App_Config\<close>: configuration, migration and
  validation.  \<^verbatim>\<open>Command_Line\<close>: the flags, and the second reader of one of them that the
  installation of the service uses.  \<^verbatim>\<open>Tls_Config\<close> (\<^verbatim>\<open>tls.go\<close>): what the listener is given for each
  mode.  \<^verbatim>\<open>Startup\<close>: the writer factory, the diagnostic run and \<^verbatim>\<open>run\<close> up to the point where it
  serves.  \<^verbatim>\<open>Win_Service\<close> (\<^verbatim>\<open>service_windows.go\<close>): installation and start under the Windows service
  manager.
  \<^verbatim>\<open>Pipeline\<close> puts the running program together: connections, queue, workers, \<^verbatim>\<open>Stop\<close>, rotation
  and the configured outputs on one state, where a worker goes through its targets one call
  after the other.  It rests on the invariants of \<^verbatim>\<open>Concurrent_Serving\<close>, the contract of
  \<^verbatim>\<open>Outputs\<close> and the steps of \<^verbatim>\<open>Work_Queue\<close>, and ends in the two statements the rest is for: once the
  program is drained all received events are written, failed or dropped and counted as
  such, and what is counted as written was taken by every target, where taken means
  delivered in the terms of that target.  \<^verbatim>\<open>Typed_Events\<close>: every event on the way through it is
  well typed.
  \<^verbatim>\<open>Lifetime\<close> is the process around it, the second half of \<^verbatim>\<open>run\<close> and the goroutine for SIGHUP
  (\<^verbatim>\<open>sighup_notwindows.go\<close>): each of its runs is a run of the exporter of \<^verbatim>\<open>Pipeline\<close>.  After a clean
  \<^verbatim>\<open>Shutdown\<close> nothing comes in, the way to the end has at most seven steps and never blocks, and
  no request for a rotation is lost.  Under the Windows service manager the process can end
  before \<^verbatim>\<open>run\<close> does; the last lemma there is a run in which an accepted event is lost.

  \<^bold>\<open>Interfaces.\<close>  Where one part relies on another through a contract, the contract is a locale
  and the part that keeps it interprets it: a codec and a chain of codecs (base 64, decimal
  numbers, UTF-16, the OneFS file name), a stream codec and the framed writer over it (GELF,
  syslog), an escape of texts (XML and the registration reply), a capped table (the labels
  and the publishers of the metrics), the sink a handler enqueues into (the queue), what
  the queue relies on of any writer (the dispatch over all outputs), what the steps of a
  system keep, or keep from its start on (the recorders, the publishers, the queue, the
  connections, the exporter, the process), and a part of a system that sees each step as
  one of its own (the exporter in the process, the process under the Windows manager).

  \<^bold>\<open>Fuel and bounds.\<close>  The parsers' loops, the scanner of the redaction and the truncation of
  fields are total functions with measures.  \<^verbatim>\<open>buildWriter\<close> has fuel, because a fan-out among
  its own targets recurses for ever; two units are enough for every other configuration
  whose dials end, which is proved, and more change nothing.  Of the dials only the TLS
  handshake of the GELF writer has no timeout: whether it ends is part of the network, and a
  start that waits for one that does not has no outcome.  The flags are read by structural recursion.

  \<^bold>\<open>Idealisations.\<close>  A handler's stretch between two points where it can block or be seen is
  one step; a counter is added to atomically, as in the source.  A connection's outcomes come
  from a script; a write for which the network reported success is read by the receiver once it
  reads on that connection.  While the program runs, a call of a writer that never returns is a
  worker whose next step is never taken.  The counters of the metrics, 64 bits wide, are
  integers: they would wrap after 2^63 events.  A read that fails fails
  after the bytes that arrived before it.  The order in which Go visits a map is a parameter
  that chooses.  The parser of \<^verbatim>\<open>encoding/xml\<close> is modelled without the check that a declaration comes
  first.  In \<^verbatim>\<open>Pipeline\<close>, \<^verbatim>\<open>Stop\<close> may begin at any moment and connections may still arrive after it;
  \<^verbatim>\<open>Lifetime\<close> adds the program's own order, with the deadlines of \<^verbatim>\<open>Shutdown\<close> and \<^verbatim>\<open>Stop\<close> as choices that are
  always open.  A signal that comes before \<^verbatim>\<open>run\<close> listens for it, which ends the process at once, is
  left out.  The clock is read once for the two dates of a certificate and once for a health answer.  The callback by which the event log library reports a sync
  is not modelled, and of the log only the failures that carry payload data are.

  \<^bold>\<open>Parameters.\<close>  The TOML decoder, \<^verbatim>\<open>crypto/x509\<close>, PEM and the ACME client, the syslog marshaller, the
  Lumberjack client, the event log library go-evtx, the Windows registry and event log, the
  making of a metric sample, and
  the tables of Unicode letters are third-party or system code: arguments of the definitions
  that use them, with what is relied on as a hypothesis of the property that needs it.

  \<^bold>\<open>Not modelled.\<close>  The one-line platform switches and the forwarding wrappers of the parsers.
  The HTTP server beyond what \<^verbatim>\<open>Shutdown\<close> promises, its timeouts and the routing of its two paths,
  and the text format of the Prometheus library.  What the Windows service manager does with
  the options it is given.
\<close>

end
